(* ===== verification/Ferrum_Prelude.thy ===== *)
theory Ferrum_Prelude
  imports Main "HOL-Library.Word" "HOL-Library.Monad_Syntax"
begin

text \<open>
  Shared vocabulary of the development: the machine integers of the Rust sources, the build
  profile that decides what an integer overflow does, slices and indexing with their panics,
  little-endian encodings, and the list lemmas that every component uses.

  A fallible piece of code is modelled in the \<open>option\<close> type: \<open>None\<close> means that the call does not
  return normally. For a definition without a fuel argument this is exactly a Rust panic (an
  arithmetic overflow in the dev profile, an out-of-range index, an \<open>unwrap\<close> of \<open>None\<close>); for a
  definition with fuel it is a panic or an exhausted fuel, and the theorems about such a definition
  prove \<open>Some\<close> results, so neither occurs. Where the Rust code itself returns an \<open>Option\<close> the model
  has an \<open>option\<close> inside the \<open>option\<close>.
\<close>

unbundle bit_operations_syntax

section \<open>Machine integers and build profiles\<close>

type_synonym u8 = "8 word"
type_synonym u16 = "16 word"
type_synonym u32 = "32 word"
type_synonym u64 = "64 word"

text \<open>Sizes and lengths (\<open>usize\<close>) are natural numbers; the 64-bit limit is written out in the
  operations that check, saturate or wrap.\<close>

type_synonym usize = nat

abbreviation usize_max :: nat where
  "usize_max \<equiv> 2 ^ 64 - 1"

text \<open>The two cargo profiles: \<open>Dev\<close> panics on integer overflow, \<open>Release\<close> wraps around.\<close>

datatype profile = Dev | Release

definition add_chk :: "profile \<Rightarrow> 'a::len word \<Rightarrow> 'a word \<Rightarrow> 'a word option" where
  "add_chk p a b = (if p = Dev \<and> 2 ^ LENGTH('a) \<le> unat a + unat b then None else Some (a + b))"

definition sub_chk :: "profile \<Rightarrow> 'a::len word \<Rightarrow> 'a word \<Rightarrow> 'a word option" where
  "sub_chk p a b = (if p = Dev \<and> a < b then None else Some (a - b))"

definition mul_chk :: "profile \<Rightarrow> 'a::len word \<Rightarrow> 'a word \<Rightarrow> 'a word option" where
  "mul_chk p a b = (if p = Dev \<and> 2 ^ LENGTH('a) \<le> unat a * unat b then None else Some (a * b))"

definition checked_add_usize :: "usize \<Rightarrow> usize \<Rightarrow> usize option" where
  "checked_add_usize a b = (if a + b \<le> usize_max then Some (a + b) else None)"

definition checked_mul_usize :: "usize \<Rightarrow> usize \<Rightarrow> usize option" where
  "checked_mul_usize a b = (if a * b \<le> usize_max then Some (a * b) else None)"

definition saturating_add_usize :: "usize \<Rightarrow> usize \<Rightarrow> usize" where
  "saturating_add_usize a b = min (a + b) usize_max"

definition saturating_mul_usize :: "usize \<Rightarrow> usize \<Rightarrow> usize" where
  "saturating_mul_usize a b = min (a * b) usize_max"

text \<open>The plain operators on \<open>usize\<close>, and the zeroed vector \<^verbatim>\<open>vec![0u8; n]\<close>, which panics when \<open>n\<close> is more than
  \<^verbatim>\<open>isize::MAX\<close>.\<close>

definition add_usize :: "profile \<Rightarrow> usize \<Rightarrow> usize \<Rightarrow> usize option" where
  "add_usize p a b =
     (if a + b \<le> usize_max then Some (a + b) else if p = Dev then None else Some ((a + b) mod 2 ^ 64))"

definition mul_usize :: "profile \<Rightarrow> usize \<Rightarrow> usize \<Rightarrow> usize option" where
  "mul_usize p a b =
     (if a * b \<le> usize_max then Some (a * b) else if p = Dev then None else Some ((a * b) mod 2 ^ 64))"

definition vec_zeros :: "usize \<Rightarrow> u8 list option" where
  "vec_zeros n = (if n \<le> 2 ^ 63 - 1 then Some (replicate n 0) else None)"

definition of_bool8 :: "bool \<Rightarrow> u8" where
  "of_bool8 b = (if b then 1 else 0)"

section \<open>Slices, indexing and vectors\<close>

text \<open>\<open>xs[i]\<close>, \<open>&xs[i..j]\<close> and \<open>xs[i..j].copy_from_slice(ys)\<close> with their panics, and the total
  in-place copy they perform when they do not panic.\<close>

definition index_at :: "'a list \<Rightarrow> nat \<Rightarrow> 'a option" where
  "index_at xs i = (if i < length xs then Some (xs ! i) else None)"

definition set_at :: "'a list \<Rightarrow> nat \<Rightarrow> 'a \<Rightarrow> 'a list option" where
  "set_at xs i v = (if i < length xs then Some (xs[i := v]) else None)"

definition slice_of :: "'a list \<Rightarrow> nat \<Rightarrow> nat \<Rightarrow> 'a list option" where
  "slice_of xs i j = (if i \<le> j \<and> j \<le> length xs then Some (take (j - i) (drop i xs)) else None)"

definition copy_at :: "'a list \<Rightarrow> nat \<Rightarrow> 'a list \<Rightarrow> 'a list" where
  "copy_at xs i ys = take i xs @ ys @ drop (i + length ys) xs"

definition put_slice :: "'a list \<Rightarrow> nat \<Rightarrow> nat \<Rightarrow> 'a list \<Rightarrow> 'a list option" where
  "put_slice xs i j ys =
     (if i \<le> j \<and> j \<le> length xs \<and> length ys = j - i then Some (copy_at xs i ys) else None)"

definition vec_resize :: "'a list \<Rightarrow> nat \<Rightarrow> 'a \<Rightarrow> 'a list" where
  "vec_resize xs n v = take n xs @ replicate (n - length xs) v"

section \<open>Little-endian encodings\<close>

primrec to_le :: "nat \<Rightarrow> 'a::len word \<Rightarrow> u8 list" where
  "to_le 0 w = []"
| "to_le (Suc n) w = ucast w # to_le n (drop_bit 8 w)"

primrec from_le :: "u8 list \<Rightarrow> 'a::len word" where
  "from_le [] = 0"
| "from_le (b # bs) = ucast b OR push_bit 8 (from_le bs)"

abbreviation le16 :: "u16 \<Rightarrow> u8 list" where "le16 w \<equiv> to_le 2 w"
abbreviation le32 :: "u32 \<Rightarrow> u8 list" where "le32 w \<equiv> to_le 4 w"
abbreviation le64 :: "u64 \<Rightarrow> u8 list" where "le64 w \<equiv> to_le 8 w"

section \<open>Collections of rewrite rules\<close>

named_theorems panic_defs \<open>definitions of the checked arithmetic and of indexing\<close>
named_theorems machine_simps \<open>rewrite rules on components that the proofs share\<close>

declare add_chk_def [panic_defs] sub_chk_def [panic_defs] mul_chk_def [panic_defs]
  index_at_def [panic_defs] set_at_def [panic_defs] slice_of_def [panic_defs]
  put_slice_def [panic_defs]

section \<open>Lemmas: option monad\<close>

lemma bind_SomeE:
  assumes "m \<bind> f = Some y"
  obtains x where "m = Some x" "f x = Some y"
  using assms by (cases m) auto

section \<open>Lemmas: checked arithmetic\<close>

lemma add_chk_fits: "unat a + unat b < 2 ^ LENGTH('a) \<Longrightarrow> add_chk p a b = Some (a + b)"
  for a b :: "'a::len word"
  by (simp add: add_chk_def)

lemma sub_chk_fits: "b \<le> a \<Longrightarrow> sub_chk p a b = Some (a - b)"
  by (auto simp: sub_chk_def)

lemma add_chk_SomeD: "add_chk p a b = Some c \<Longrightarrow> c = a + b"
  by (auto simp: add_chk_def split: if_splits)

lemma sub_chk_SomeD: "sub_chk p a b = Some c \<Longrightarrow> c = a - b"
  by (auto simp: sub_chk_def split: if_splits)

lemma add_chk_Release [simp]: "add_chk Release a b = Some (a + b)"
  by (simp add: add_chk_def)

lemma sub_chk_Release [simp]: "sub_chk Release a b = Some (a - b)"
  by (simp add: sub_chk_def)

lemma mul_chk_Release [simp]: "mul_chk Release a b = Some (a * b)"
  by (simp add: mul_chk_def)

lemma usize_fits:
  "a + b \<le> usize_max \<Longrightarrow> add_usize p a b = Some (a + b)" "a * b \<le> usize_max \<Longrightarrow> mul_usize p a b = Some (a * b)"
  "n < 2 ^ 63 \<Longrightarrow> vec_zeros n = Some (replicate n 0)"
  by (simp_all add: add_usize_def mul_usize_def vec_zeros_def)

lemma unat_add_fits: "unat a + unat b < 2 ^ LENGTH('a) \<Longrightarrow> unat (a + b) = unat a + unat b"
  for a b :: "'a::len word"
  by (simp add: unat_word_ariths)

lemma unat_sub_le: "b \<le> a \<Longrightarrow> unat (a - b) = unat a - unat b"
  for a b :: "'a::len word"
  by (simp add: unat_sub)

lemma unat_of_nat_less: "n < 2 ^ LENGTH('a) \<Longrightarrow> unat (of_nat n :: 'a::len word) = n"
  by (simp add: unat_of_nat take_bit_nat_eq_self)

lemma ucast_unat: "ucast x = of_nat (unat x)"
  by (simp add: word_eq_iff_unsigned unsigned_ucast_eq unat_of_nat)

lemma unat_less_length: "unat x < 2 ^ LENGTH('a)" for x :: "'a::len word"
  by (rule unsigned_less)

lemma unat_eq_0_iff [simp]: "unat x = 0 \<longleftrightarrow> x = 0"
  by (rule unat_eq_zero)

lemma unat_ucast_up: "LENGTH('a) \<le> LENGTH('b) \<Longrightarrow> unat (ucast x :: 'b::len word) = unat x"
  for x :: "'a::len word"
proof -
  assume "LENGTH('a) \<le> LENGTH('b)"
  then have "unat x < 2 ^ LENGTH('b)"
    using unat_less_length [of x] by (meson order_less_le_trans power_increasing one_le_numeral)
  then show ?thesis by (simp add: unsigned_ucast_eq take_bit_nat_eq_self)
qed

section \<open>Lemmas: slices and vectors\<close>

lemma length_copy_at [simp]: "i + length ys \<le> length xs \<Longrightarrow> length (copy_at xs i ys) = length xs"
  by (simp add: copy_at_def)

lemma copy_at_same: "i + length ys \<le> length xs \<Longrightarrow> take (length ys) (drop i (copy_at xs i ys)) = ys"
  by (simp add: copy_at_def)

lemma nth_copy_at:
  assumes "i + length ys \<le> length xs" "k < length xs"
  shows "copy_at xs i ys ! k = (if i \<le> k \<and> k < i + length ys then ys ! (k - i) else xs ! k)"
  using assms by (auto simp: copy_at_def nth_append min_def)

lemma copy_at_disjoint:
  assumes "i + length ys \<le> length xs" "j + n \<le> length xs"
    and "\<And>k. j \<le> k \<Longrightarrow> k < j + n \<Longrightarrow> i \<le> k \<Longrightarrow> \<not> k < i + length ys"
  shows "take n (drop j (copy_at xs i ys)) = take n (drop j xs)"
proof (rule nth_equalityI)
  fix k assume "k < length (take n (drop j (copy_at xs i ys)))"
  with assms show "take n (drop j (copy_at xs i ys)) ! k = take n (drop j xs) ! k"
    using assms(3) [of "j + k"] by (auto simp: nth_copy_at)
qed (use assms in simp)

lemma copy_at_Nil [simp]: "copy_at xs i [] = xs"
  by (simp add: copy_at_def)

lemma length_vec_resize [simp]: "length (vec_resize xs n v) = n"
  by (simp add: vec_resize_def)

lemma nth_vec_resize: "k < n \<Longrightarrow> vec_resize xs n v ! k = (if k < length xs then xs ! k else v)"
  by (auto simp: vec_resize_def nth_append)

lemma slice_of_SomeD: "slice_of xs i j = Some ys \<Longrightarrow> length ys = j - i"
  by (auto simp: slice_of_def split: if_splits)

lemma put_slice_length: "put_slice xs i j ys = Some zs \<Longrightarrow> length zs = length xs"
  by (auto simp: put_slice_def split: if_splits)

lemma set_at_length: "set_at xs i v = Some zs \<Longrightarrow> length zs = length xs"
  by (auto simp: set_at_def split: if_splits)

section \<open>Lemmas: little-endian encodings\<close>

lemma length_to_le [simp]: "length (to_le n w) = n"
  by (induction n arbitrary: w) auto

lemma from_le_to_le: "from_le (to_le n w) = take_bit (8 * n) w"
proof (induction n arbitrary: w)
  case (Suc n)
  show ?case
    by (rule bit_eqI) (auto simp: Suc bit_simps)
qed simp

lemma from_le_to_le_full [simp]: "LENGTH('a) \<le> 8 * n \<Longrightarrow> from_le (to_le n w) = w"
  for w :: "'a::len word"
  by (simp add: from_le_to_le take_bit_word_eq_self)

lemma ucast_low_byte: "ucast (ucast b OR push_bit 8 x :: 'a::len word) = b"
  if "8 \<le> LENGTH('a)" for b :: u8
  by (rule bit_word_eqI) (use that in \<open>auto simp: bit_simps\<close>)

lemma drop_low_byte:
  "drop_bit 8 (ucast b OR push_bit 8 x :: 'a::len word) = take_bit (LENGTH('a) - 8) x" for b :: u8
  by (rule bit_word_eqI) (auto simp: bit_simps dest: bit_imp_le_length)

lemma bit_from_le_bound: "bit (from_le bs :: 'a::len word) i \<Longrightarrow> i < 8 * length bs"
proof (induction bs arbitrary: i)
  case (Cons b bs)
  then show ?case
    by (fastforce simp: bit_simps dest: bit_imp_le_length Cons.IH)
qed simp

lemma to_le_from_le: "8 * length bs \<le> LENGTH('a) \<Longrightarrow> to_le (length bs) (from_le bs :: 'a::len word) = bs"
proof (induction bs)
  case (Cons b bs)
  have "take_bit (LENGTH('a) - 8) (from_le bs :: 'a word) = from_le bs"
    by (rule bit_word_eqI) (use Cons.prems in \<open>auto simp: bit_simps dest: bit_from_le_bound\<close>)
  with Cons show ?case
    by (simp add: ucast_low_byte drop_low_byte del: drop_bit_or)
qed simp

lemma to_le_2: "to_le 2 w = [ucast w, ucast (drop_bit 8 w)]"
  by (simp add: numeral_2_eq_2)

lemma to_le_4: "to_le 4 w = [ucast w, ucast (drop_bit 8 w), ucast (drop_bit 16 w), ucast (drop_bit 24 w)]"
  by (simp add: numeral_eq_Suc)

lemma to_le_8: "to_le 8 w = to_le 4 w @ to_le 4 (drop_bit 32 w)"
  by (simp add: numeral_eq_Suc)

lemma to_le_zero [simp]: "to_le n 0 = replicate n 0"
  by (induction n) auto

end
