(* ===== verification/Guest_Memory.thy ===== *)
theory Guest_Memory
  imports Ferrum_Prelude
begin

text \<open>
  Guest RAM as the host sees it: \<^verbatim>\<open>src/machine_config/memory_region.rs\<close> (one mmapped region and its
  bounds check) and the accessors of \<^verbatim>\<open>VirtioGuestMemoryHandle\<close> in \<^verbatim>\<open>src/devices/virtio/virtio.rs\<close>
  (scan the regions, then read or write). The mutex around the regions and the memory fences are
  not modelled: each access is one atomic step.

  The host block behind a region is its list of bytes, \<open>None\<close> for a null pointer. An access outside
  the block would be undefined behaviour of the \<^verbatim>\<open>unsafe\<close> code and is \<open>None\<close> in the model; the theorems
  show that the bounds check excludes it.
\<close>

section \<open>One region\<close>

record mem_region =
  ptr :: "u8 list option"
  mem_size :: u64
  mem_offset :: u64

type_synonym guest_memory = "mem_region list"

definition new_region :: "u8 list option \<Rightarrow> u64 \<Rightarrow> u64 \<Rightarrow> mem_region" where
  "new_region blk sz off = \<lparr>ptr = blk, mem_size = sz, mem_offset = off\<rparr>"

definition in_bounds :: "mem_region \<Rightarrow> u64 \<Rightarrow> usize \<Rightarrow> bool" where
  "in_bounds r addr len \<longleftrightarrow>
     ptr r \<noteq> None \<and> addr \<le> mem_size r \<and> len \<le> unat (mem_size r - addr)"

definition region_write :: "mem_region \<Rightarrow> u8 list \<Rightarrow> u64 \<Rightarrow> mem_region option" where
  "region_write r data addr =
     (if \<not> in_bounds r addr (length data) then Some r
      else case ptr r of
          None \<Rightarrow> None
        | Some blk \<Rightarrow>
            if unat addr + length data \<le> length blk
            then Some (r\<lparr>ptr := Some (copy_at blk (unat addr) data)\<rparr>)
            else None)"

definition region_read :: "mem_region \<Rightarrow> u64 \<Rightarrow> usize \<Rightarrow> u8 list option option" where
  "region_read r addr len =
     (if \<not> in_bounds r addr len then Some None
      else case ptr r of
          None \<Rightarrow> None
        | Some blk \<Rightarrow>
            if unat addr + len \<le> length blk
            then Some (Some (take len (drop (unat addr) blk)))
            else None)"

section \<open>The region scan of the guest memory handle\<close>

text \<open>The loop of \<^verbatim>\<open>read_byte\<close>, \<^verbatim>\<open>read_u16\<close>, \<^verbatim>\<open>read_u32\<close> and \<^verbatim>\<open>read_u64\<close>: the first region whose
  bounds test succeeds is read and its answer unwrapped; \<open>Some None\<close> is a scan that found none.\<close>

fun read_mapped :: "profile \<Rightarrow> usize \<Rightarrow> u64 \<Rightarrow> guest_memory \<Rightarrow> u8 list option option" where
  "read_mapped p len addr [] = Some None"
| "read_mapped p len addr (r # rs) =
     (if mem_offset r \<le> addr then
        do {
          avail \<leftarrow> sub_chk p (mem_size r) (addr - mem_offset r);
          if len \<le> unat avail then
            do {
              found \<leftarrow> region_read r (addr - mem_offset r) len;
              data \<leftarrow> found;
              Some (Some data)
            }
          else read_mapped p len addr rs
        }
      else read_mapped p len addr rs)"

definition read_word :: "profile \<Rightarrow> usize \<Rightarrow> guest_memory \<Rightarrow> u64 \<Rightarrow> 'a::len word option" where
  "read_word p len m addr =
     do {
       found \<leftarrow> read_mapped p len addr m;
       Some (case found of None \<Rightarrow> 0 | Some data \<Rightarrow> from_le data)
     }"

definition read_byte :: "profile \<Rightarrow> guest_memory \<Rightarrow> u64 \<Rightarrow> u8 option" where
  "read_byte p m addr = read_word p 1 m addr"

definition read_u16 :: "profile \<Rightarrow> guest_memory \<Rightarrow> u64 \<Rightarrow> u16 option" where
  "read_u16 p m addr = read_word p 2 m addr"

definition read_u32 :: "profile \<Rightarrow> guest_memory \<Rightarrow> u64 \<Rightarrow> u32 option" where
  "read_u32 p m addr = read_word p 4 m addr"

definition read_u64 :: "profile \<Rightarrow> guest_memory \<Rightarrow> u64 \<Rightarrow> u64 option" where
  "read_u64 p m addr = read_word p 8 m addr"

text \<open>The scan of \<^verbatim>\<open>read_guest_memory_alloc\<close>; \<^verbatim>\<open>vec![0; len]\<close> at its end panics when the length is not below
  \<^verbatim>\<open>isize::MAX\<close> plus one.\<close>

fun read_guest_scan :: "profile \<Rightarrow> usize \<Rightarrow> u64 \<Rightarrow> guest_memory \<Rightarrow> u8 list option" where
  "read_guest_scan p len addr [] = (if len < 2 ^ 63 then Some (replicate len 0) else None)"
| "read_guest_scan p len addr (r # rs) =
     (if mem_offset r \<le> addr then
        do {
          avail \<leftarrow> sub_chk p (mem_size r) (addr - mem_offset r);
          if len \<le> unat avail then
            do {
              found \<leftarrow> region_read r (addr - mem_offset r) len;
              case found of
                Some data \<Rightarrow> Some data
              | None \<Rightarrow> read_guest_scan p len addr rs
            }
          else read_guest_scan p len addr rs
        }
      else read_guest_scan p len addr rs)"

definition read_guest_memory_alloc :: "profile \<Rightarrow> guest_memory \<Rightarrow> u64 \<Rightarrow> usize \<Rightarrow> u8 list option" where
  "read_guest_memory_alloc p m addr len =
     (if len = 0 then Some [] else read_guest_scan p len addr m)"

definition read_guest_memory :: "profile \<Rightarrow> guest_memory \<Rightarrow> u64 \<Rightarrow> u8 list \<Rightarrow> u8 list option" where
  "read_guest_memory p m addr buf = read_guest_memory_alloc p m addr (length buf)"

text \<open>The loop of \<^verbatim>\<open>write_u8\<close>, \<^verbatim>\<open>write_u16\<close>, \<^verbatim>\<open>write_u32\<close> and \<^verbatim>\<open>write_guest_memory\<close>: the first region
  whose bounds test succeeds is written and the scan stops; an unmapped write is dropped.\<close>

fun write_mapped :: "profile \<Rightarrow> u64 \<Rightarrow> u8 list \<Rightarrow> guest_memory \<Rightarrow> guest_memory option" where
  "write_mapped p addr data [] = Some []"
| "write_mapped p addr data (r # rs) =
     (if mem_offset r \<le> addr then
        do {
          avail \<leftarrow> sub_chk p (mem_size r) (addr - mem_offset r);
          if length data \<le> unat avail then
            do {
              r' \<leftarrow> region_write r data (addr - mem_offset r);
              Some (r' # rs)
            }
          else do { rs' \<leftarrow> write_mapped p addr data rs; Some (r # rs') }
        }
      else do { rs' \<leftarrow> write_mapped p addr data rs; Some (r # rs') })"

definition write_u8 :: "profile \<Rightarrow> guest_memory \<Rightarrow> u64 \<Rightarrow> u8 \<Rightarrow> guest_memory option" where
  "write_u8 p m addr val = write_mapped p addr (to_le 1 val) m"

definition write_u16 :: "profile \<Rightarrow> guest_memory \<Rightarrow> u64 \<Rightarrow> u16 \<Rightarrow> guest_memory option" where
  "write_u16 p m addr val = write_mapped p addr (le16 val) m"

definition write_u32 :: "profile \<Rightarrow> guest_memory \<Rightarrow> u64 \<Rightarrow> u32 \<Rightarrow> guest_memory option" where
  "write_u32 p m addr val = write_mapped p addr (le32 val) m"

definition write_guest_memory :: "profile \<Rightarrow> guest_memory \<Rightarrow> u64 \<Rightarrow> u8 list \<Rightarrow> guest_memory option" where
  "write_guest_memory p m addr data = write_mapped p addr data m"

section \<open>Specification\<close>

text \<open>A well-formed region has a block of exactly its size, as \<^verbatim>\<open>mmap\<close> returns it. A range is backed
  when the scan reaches the region that holds all of it without passing a region that ends below
  the address, and \<open>bytes_at\<close> is what the guest sees there.\<close>

definition wf_region :: "mem_region \<Rightarrow> bool" where
  "wf_region r \<longleftrightarrow> (case ptr r of None \<Rightarrow> True | Some blk \<Rightarrow> length blk = unat (mem_size r))"

definition wf_mem :: "guest_memory \<Rightarrow> bool" where
  "wf_mem m \<longleftrightarrow> list_all wf_region m"

definition hits :: "mem_region \<Rightarrow> u64 \<Rightarrow> usize \<Rightarrow> bool" where
  "hits r a n \<longleftrightarrow> mem_offset r \<le> a \<and> a - mem_offset r \<le> mem_size r \<and>
     n \<le> unat (mem_size r - (a - mem_offset r))"

definition skips :: "mem_region \<Rightarrow> u64 \<Rightarrow> usize \<Rightarrow> bool" where
  "skips r a n \<longleftrightarrow> (mem_offset r \<le> a \<longrightarrow>
     a - mem_offset r \<le> mem_size r \<and> unat (mem_size r - (a - mem_offset r)) < n)"

fun backed :: "guest_memory \<Rightarrow> u64 \<Rightarrow> usize \<Rightarrow> bool" where
  "backed [] a n \<longleftrightarrow> False"
| "backed (r # rs) a n \<longleftrightarrow> hits r a n \<and> ptr r \<noteq> None \<or> skips r a n \<and> backed rs a n"

fun bytes_at :: "guest_memory \<Rightarrow> u64 \<Rightarrow> usize \<Rightarrow> u8 list" where
  "bytes_at [] a n = []"
| "bytes_at (r # rs) a n =
     (if hits r a n
      then case ptr r of
          None \<Rightarrow> []
        | Some blk \<Rightarrow> take n (drop (unat (a - mem_offset r)) blk)
      else bytes_at rs a n)"

text \<open>The guest addresses of a range, and what it means that a memory differs from another at most on
  a set of addresses: no region appears, disappears, moves or shrinks, and every range outside the
  set reads the same.\<close>

definition span :: "u64 \<Rightarrow> nat \<Rightarrow> nat set" where
  "span a n = {unat a..<unat a + n}"

definition modifies :: "nat set \<Rightarrow> guest_memory \<Rightarrow> guest_memory \<Rightarrow> bool" where
  "modifies S m m' \<longleftrightarrow> wf_mem m' \<and> (\<forall>b n. backed m' b n = backed m b n) \<and>
     (\<forall>b n. backed m b n \<longrightarrow> span b n \<inter> S = {} \<longrightarrow> bytes_at m' b n = bytes_at m b n)"

section \<open>Interface: a byte store\<close>

text \<open>What the rest of the development relies on: on a valid range a write succeeds and is read back,
  it keeps validity, and it leaves every disjoint range alone.\<close>

locale byte_store =
  fixes rd :: "'m \<Rightarrow> u64 \<Rightarrow> nat \<Rightarrow> u8 list option"
    and wr :: "'m \<Rightarrow> u64 \<Rightarrow> u8 list \<Rightarrow> 'm option"
    and ok :: "'m \<Rightarrow> u64 \<Rightarrow> nat \<Rightarrow> bool"
    and wf :: "'m \<Rightarrow> bool"
  assumes rd_total: "wf m \<Longrightarrow> ok m a n \<Longrightarrow> \<exists>bs. rd m a n = Some bs \<and> length bs = n"
    and wr_total: "wf m \<Longrightarrow> ok m a (length d) \<Longrightarrow> \<exists>m'. wr m a d = Some m'"
    and wr_wf: "wf m \<Longrightarrow> wr m a d = Some m' \<Longrightarrow> wf m'"
    and wr_ok: "wr m a d = Some m' \<Longrightarrow> ok m' b n = ok m b n"
    and rd_same: "wf m \<Longrightarrow> ok m a (length d) \<Longrightarrow> wr m a d = Some m' \<Longrightarrow> rd m' a (length d) = Some d"
    and rd_other: "wf m \<Longrightarrow> ok m a (length d) \<Longrightarrow> ok m b n \<Longrightarrow> span a (length d) \<inter> span b n = {} \<Longrightarrow>
      wr m a d = Some m' \<Longrightarrow> rd m' b n = rd m b n"
begin

lemma cell_write_read:
  assumes "wf m" "ok m a n" "LENGTH('w::len) \<le> 8 * n"
  obtains m' where "wr m a (to_le n (w :: 'w word)) = Some m'" "wf m'"
    "map_option from_le (rd m' a n) = Some w"
proof -
  from assms obtain m' where m': "wr m a (to_le n w) = Some m'"
    using wr_total [of m a "to_le n w"] by auto
  moreover have "rd m' a n = Some (to_le n w)"
    using rd_same [OF assms(1) _ m'] assms(2) by simp
  ultimately show thesis using assms wr_wf that by auto
qed

lemma cells_write_read:
  assumes "wf m" "ok m a n" "ok m b k" "span a n \<inter> span b k = {}"
    and "LENGTH('w::len) \<le> 8 * n" "LENGTH('v::len) \<le> 8 * k"
  obtains m1 m2 where "wr m a (to_le n (w :: 'w word)) = Some m1"
    "wr m1 b (to_le k (v :: 'v word)) = Some m2" "wf m2"
    "map_option from_le (rd m2 a n) = Some w" "map_option from_le (rd m2 b k) = Some v"
proof -
  obtain m1 where m1: "wr m a (to_le n w) = Some m1" "wf m1" "map_option from_le (rd m1 a n) = Some w"
    using cell_write_read assms(1,2,5) by blast
  then have ok1: "ok m1 a n" "ok m1 b k" using assms by (simp_all add: wr_ok)
  obtain m2 where m2: "wr m1 b (to_le k v) = Some m2" "wf m2" "map_option from_le (rd m2 b k) = Some v"
    using cell_write_read m1(2) ok1(2) assms(6) by blast
  have "rd m2 a n = rd m1 a n"
    using rd_other [OF m1(2) _ ok1(1) _ m2(1)] ok1(2) assms(4) by (simp add: Int_commute)
  with m1 m2 show thesis using that by simp
qed

end

section \<open>Regions: memory safety and round trips\<close>

lemma in_bounds_safe:
  assumes "wf_region r" "in_bounds r addr len"
  obtains blk where "ptr r = Some blk" "unat addr + len \<le> length blk" "length blk = unat (mem_size r)"
proof -
  from assms obtain blk where blk: "ptr r = Some blk" "length blk = unat (mem_size r)"
    by (auto simp: in_bounds_def wf_region_def)
  moreover have "unat addr + len \<le> unat (mem_size r)"
    using assms(2) by (auto simp: in_bounds_def unat_sub_le word_le_nat_alt)
  ultimately show thesis using that by simp
qed

lemma region_read_total: "wf_region r \<Longrightarrow> \<exists>res. region_read r addr len = Some res"
  by (auto simp: region_read_def elim!: in_bounds_safe split: option.splits)

lemma region_write_total:
  assumes "wf_region r"
  shows "\<exists>r'. region_write r data addr = Some r' \<and> wf_region r' \<and> mem_size r' = mem_size r \<and>
           mem_offset r' = mem_offset r \<and> (ptr r' = None \<longleftrightarrow> ptr r = None)"
proof (cases "in_bounds r addr (length data)")
  case True
  with assms obtain blk where "ptr r = Some blk" "unat addr + length data \<le> length blk"
    by (rule in_bounds_safe)
  with assms True show ?thesis
    by (auto simp: region_write_def wf_region_def)
qed (use assms in \<open>simp add: region_write_def\<close>)

lemma region_write_frame:
  assumes "region_write r data addr = Some r'"
  shows "mem_size r' = mem_size r" "mem_offset r' = mem_offset r" "ptr r' = None \<longleftrightarrow> ptr r = None"
  using assms by (auto simp: region_write_def split: if_splits option.splits)

lemma region_write_wf: "region_write r data addr = Some r' \<Longrightarrow> wf_region r \<Longrightarrow> wf_region r'"
  by (auto simp: region_write_def wf_region_def split: if_splits option.splits)

section \<open>The handle: backed accesses\<close>

lemma wf_mem_simps [simp]:
  "wf_mem []" "wf_mem (r # rs) \<longleftrightarrow> wf_region r \<and> wf_mem rs"
  by (auto simp: wf_mem_def)

lemma hits_not_skips: "hits r a n \<Longrightarrow> \<not> skips r a n"
  by (auto simp: hits_def skips_def)

lemma hits_block:
  assumes "wf_region r" "hits r a n" "ptr r = Some blk"
  shows "unat (a - mem_offset r) + n \<le> length blk" "unat (a - mem_offset r) = unat a - unat (mem_offset r)"
    "unat (mem_offset r) \<le> unat a"
  using assms by (auto simp: hits_def wf_region_def unat_sub_le word_le_nat_alt)

lemma region_read_hit:
  assumes "wf_region r" "hits r a n" "ptr r = Some blk"
  shows "region_read r (a - mem_offset r) n = Some (Some (take n (drop (unat (a - mem_offset r)) blk)))"
  using assms hits_block [OF assms] by (auto simp: region_read_def in_bounds_def hits_def)

lemma region_write_hit:
  assumes "wf_region r" "hits r a (length d)" "ptr r = Some blk"
  shows "region_write r d (a - mem_offset r)
    = Some (r\<lparr>ptr := Some (copy_at blk (unat (a - mem_offset r)) d)\<rparr>)"
  using assms hits_block [OF assms] by (auto simp: region_write_def in_bounds_def hits_def)

text \<open>One step of each scan, on a region that holds the range and on one that is passed over. Neither
  step depends on the build profile.\<close>

lemma scan_hit [machine_simps]:
  assumes "hits r a n"
  shows "read_mapped p n a (r # rs) =
      do { found \<leftarrow> region_read r (a - mem_offset r) n; data \<leftarrow> found; Some (Some data) }"
    and "read_guest_scan p n a (r # rs) =
      do { found \<leftarrow> region_read r (a - mem_offset r) n;
           case found of Some data \<Rightarrow> Some data | None \<Rightarrow> read_guest_scan p n a rs }"
    and "n = length d \<Longrightarrow> write_mapped p a d (r # rs) =
      do { r' \<leftarrow> region_write r d (a - mem_offset r); Some (r' # rs) }"
  using assms by (auto simp: hits_def sub_chk_fits)

lemma scan_skip [machine_simps]:
  assumes "skips r a n"
  shows "read_mapped p n a (r # rs) = read_mapped p n a rs"
    and "read_guest_scan p n a (r # rs) = read_guest_scan p n a rs"
    and "n = length d \<Longrightarrow> write_mapped p a d (r # rs) =
      do { rs' \<leftarrow> write_mapped p a d rs; Some (r # rs') }"
  using assms by (auto simp: skips_def sub_chk_fits)

lemma bytes_at_0 [simp]: "bytes_at m a 0 = []"
  by (induction m) (auto split: option.splits)

lemma backed_induct [consumes 1, case_names hit skip]:
  assumes "backed m a n"
    and hit: "\<And>r rs blk. hits r a n \<Longrightarrow> ptr r = Some blk \<Longrightarrow> P (r # rs)"
    and skip: "\<And>r rs. skips r a n \<Longrightarrow> \<not> hits r a n \<Longrightarrow> backed rs a n \<Longrightarrow> P rs \<Longrightarrow> P (r # rs)"
  shows "P m"
  using assms(1)
proof (induction m)
  case (Cons r rs)
  then show ?case using hit skip hits_not_skips by (metis backed.simps(2) option.exhaust)
qed simp

lemma length_bytes_at: "backed m a n \<Longrightarrow> wf_mem m \<Longrightarrow> length (bytes_at m a n) = n"
  by (induction m rule: backed_induct) (auto dest: hits_block(1))

lemma read_mapped_backed:
  "backed m a n \<Longrightarrow> wf_mem m \<Longrightarrow> read_mapped p n a m = Some (Some (bytes_at m a n))"
  by (induction m rule: backed_induct)
    (simp_all add: machine_simps region_read_hit del: read_mapped.simps)

lemma read_guest_scan_backed:
  "backed m a n \<Longrightarrow> wf_mem m \<Longrightarrow> read_guest_scan p n a m = Some (bytes_at m a n)"
  by (induction m rule: backed_induct)
    (simp_all add: machine_simps region_read_hit del: read_guest_scan.simps)

lemma hits_ptr [simp]: "hits (r\<lparr>ptr := x\<rparr>) a n = hits r a n"
  by (simp add: hits_def)

lemma region_write_scan:
  assumes "region_write r d c = Some r'"
  shows "hits r' a n = hits r a n" "skips r' a n = skips r a n" "ptr r' = None \<longleftrightarrow> ptr r = None"
  using region_write_frame [OF assms] by (simp_all add: hits_def skips_def)

lemma write_mapped_backed_iff: "write_mapped p a d m = Some m' \<Longrightarrow> backed m' b n = backed m b n"
  by (induction m arbitrary: m') (auto simp: region_write_scan split: if_splits elim!: bind_SomeE)

lemma write_mapped_wf: "write_mapped p a d m = Some m' \<Longrightarrow> wf_mem m \<Longrightarrow> wf_mem m'"
proof (induction m arbitrary: m')
  case (Cons r rs)
  then show ?case
    using region_write_wf [of r d "a - mem_offset r"] by (auto split: if_splits elim!: bind_SomeE)
qed simp

lemma write_mapped_total: "backed m a (length d) \<Longrightarrow> wf_mem m \<Longrightarrow> \<exists>m'. write_mapped p a d m = Some m'"
  by (induction m rule: backed_induct)
    (auto simp: machine_simps region_write_hit simp del: write_mapped.simps)

lemma bytes_at_write_same:
  "backed m a (length d) \<Longrightarrow> wf_mem m \<Longrightarrow> write_mapped p a d m = Some m' \<Longrightarrow> bytes_at m' a (length d) = d"
proof (induction m arbitrary: m' rule: backed_induct)
  case (hit r rs blk)
  then have "m' = r\<lparr>ptr := Some (copy_at blk (unat (a - mem_offset r)) d)\<rparr> # rs"
    by (simp add: machine_simps region_write_hit del: write_mapped.simps)
  with hit show ?case
    by (auto simp: copy_at_same dest: hits_block(1))
next
  case (skip r rs)
  then show ?case
    by (auto simp: machine_simps simp del: write_mapped.simps elim!: bind_SomeE)
qed

lemma bytes_at_write_disjoint:
  assumes "backed m a (length d)" "wf_mem m" "write_mapped p a d m = Some m'"
    and "backed m b n" "span a (length d) \<inter> span b n = {}"
  shows "bytes_at m' b n = bytes_at m b n"
  using assms(1-4)
proof (induction m arbitrary: m' rule: backed_induct)
  case (hit r rs blk)
  then have m': "m' = r\<lparr>ptr := Some (copy_at blk (unat (a - mem_offset r)) d)\<rparr> # rs"
    by (simp add: machine_simps region_write_hit del: write_mapped.simps)
  show ?case
  proof (cases "hits r b n")
    case True
    note bounds = hits_block [OF _ True hit(2)] hits_block [OF _ hit(1,2)]
    have "k + unat (mem_offset r) \<in> span a (length d) \<inter> span b n"
      if "unat (b - mem_offset r) \<le> k" "k < unat (b - mem_offset r) + n"
        "unat (a - mem_offset r) \<le> k" "k < unat (a - mem_offset r) + length d" for k
      using that bounds hit by (auto simp: span_def)
    then have "take n (drop (unat (b - mem_offset r)) (copy_at blk (unat (a - mem_offset r)) d))
        = take n (drop (unat (b - mem_offset r)) blk)"
      by (intro copy_at_disjoint) (use hit bounds assms(5) in auto)
    with m' True hit show ?thesis by simp
  qed (simp add: m')
next
  case (skip r rs)
  then show ?case
    by (auto simp: machine_simps simp del: write_mapped.simps elim!: bind_SomeE)
qed

lemma read_mapped_after_write:
  "wf_mem m \<Longrightarrow> write_mapped p a d m = Some m' \<Longrightarrow> backed m b n \<Longrightarrow>
    read_mapped p n b m' = Some (Some (bytes_at m' b n))"
  using write_mapped_wf write_mapped_backed_iff by (blast intro: read_mapped_backed)

interpretation gm: byte_store "\<lambda>m a n. do { found \<leftarrow> read_mapped p n a m; found }"
    "\<lambda>m a d. write_mapped p a d m" backed wf_mem for p
proof (unfold_locales, goal_cases)
  case (5 m a d m')
  then show ?case by (simp add: read_mapped_after_write bytes_at_write_same)
next
  case (6 m a d b n m')
  then show ?case
    using bytes_at_write_disjoint [of m a d p m' b n]
    by (simp add: read_mapped_after_write read_mapped_backed)
qed (auto simp: read_mapped_backed write_mapped_backed_iff length_bytes_at write_mapped_total
    intro: write_mapped_wf)

section \<open>Typed accesses and the modifies relation\<close>

lemma read_word_backed:
  "wf_mem m \<Longrightarrow> backed m a n \<Longrightarrow> read_word p n m a = Some (from_le (bytes_at m a n))"
  by (simp add: read_word_def read_mapped_backed)

lemmas read_typed_defs = read_byte_def read_u16_def read_u32_def read_u64_def
lemmas write_typed_defs = write_u8_def write_u16_def write_u32_def write_guest_memory_def

lemma modifies_refl [simp]: "wf_mem m \<Longrightarrow> modifies S m m"
  by (simp add: modifies_def)

lemma modifies_trans: "modifies S m m1 \<Longrightarrow> modifies T m1 m2 \<Longrightarrow> modifies (S \<union> T) m m2"
  by (auto simp: modifies_def Int_Un_distrib)

lemma modifies_mono: "modifies S m m' \<Longrightarrow> S \<subseteq> T \<Longrightarrow> modifies T m m'"
  by (fastforce simp: modifies_def)

lemma modifies_wf: "modifies S m m' \<Longrightarrow> wf_mem m'"
  by (simp add: modifies_def)

lemma modifies_backed: "modifies S m m' \<Longrightarrow> backed m' b n = backed m b n"
  by (simp add: modifies_def)

lemma modifies_bytes:
  "modifies S m m' \<Longrightarrow> backed m b n \<Longrightarrow> span b n \<inter> S = {} \<Longrightarrow> bytes_at m' b n = bytes_at m b n"
  by (simp add: modifies_def)

lemma write_mapped_modifies:
  assumes "wf_mem m" "backed m a (length d)" "write_mapped p a d m = Some m'"
  shows "modifies (span a (length d)) m m'"
  using assms write_mapped_backed_iff [OF assms(3)] write_mapped_wf [OF assms(3,1)]
  by (auto simp: modifies_def Int_commute intro: bytes_at_write_disjoint)

lemma write_mapped_ok:
  assumes "wf_mem m" "backed m a (length d)"
  obtains m' where "write_mapped p a d m = Some m'" "modifies (span a (length d)) m m'"
    "bytes_at m' a (length d) = d"
  using assms write_mapped_total write_mapped_modifies bytes_at_write_same by metis

section \<open>Properties\<close>

lemma alloc_backed:
  assumes "wf_mem m" "backed m a n"
  shows "read_guest_memory_alloc p m a n = Some (bytes_at m a n)"
  using read_guest_scan_backed [OF assms(2,1), of p] length_bytes_at [OF assms(2,1)]
  by (cases n) (simp_all add: read_guest_memory_alloc_def)

text \<open>No access outside the range of a store sees it: every accessor reads the same before and after.\<close>

definition reads_kept :: "profile \<Rightarrow> u64 \<Rightarrow> nat \<Rightarrow> guest_memory \<Rightarrow> guest_memory \<Rightarrow> bool" where
  "reads_kept p a n m m' \<longleftrightarrow>
     (\<forall>b k. backed m b k \<longrightarrow> span a n \<inter> span b k = {} \<longrightarrow>
        read_guest_memory_alloc p m' b k = read_guest_memory_alloc p m b k \<and>
        (k = 1 \<longrightarrow> read_byte p m' b = read_byte p m b) \<and> (k = 2 \<longrightarrow> read_u16 p m' b = read_u16 p m b) \<and>
        (k = 4 \<longrightarrow> read_u32 p m' b = read_u32 p m b) \<and> (k = 8 \<longrightarrow> read_u64 p m' b = read_u64 p m b))"

lemma modifies_reads_kept:
  assumes "wf_mem m" "modifies (span a n) m m'"
  shows "reads_kept p a n m m'"
proof -
  have "bytes_at m' b k = bytes_at m b k" "backed m' b k" if "backed m b k" "span a n \<inter> span b k = {}" for b k
    using that modifies_bytes [OF assms(2) that(1)] modifies_backed [OF assms(2)] by (simp_all add: Int_commute)
  then show ?thesis
    using assms(1) modifies_wf [OF assms(2)]
    by (auto simp: reads_kept_def alloc_backed read_typed_defs read_word_backed)
qed

lemma block_write_read:
  assumes "wf_mem m" "backed m a n" "length d = n"
  obtains m' where "write_mapped p a d m = Some m'" "wf_mem m'" "reads_kept p a n m m'"
    "backed m' a n" "bytes_at m' a n = d"
proof -
  obtain m' where m': "write_mapped p a d m = Some m'" "modifies (span a (length d)) m m'" "bytes_at m' a (length d) = d"
    using write_mapped_ok [OF assms(1), of a d p] assms(2,3) by blast
  with assms show thesis
    using modifies_wf modifies_backed modifies_reads_kept by (intro that [of m']) auto
qed

text \<open>C22: What is written to a backed range of guest memory is read back exactly, whichever accessors are used: a block
  that \<^verbatim>\<open>write_guest_memory\<close> stored is read by both block accessors, a byte, a 16-bit or a 32-bit word by the typed
  accessor of its size and, in little-endian order, by a block read, and eight stored bytes by \<^verbatim>\<open>read_u64\<close>. The
  write succeeds, and no accessor reads anything else in any other backed range, in both build profiles.\<close>

theorem guest_memory_write_read:
  assumes "wf_mem m"
  shows "(backed m a (length d) \<longrightarrow>
      (\<exists>m'. write_guest_memory p m a d = Some m' \<and> wf_mem m' \<and> read_guest_memory_alloc p m' a (length d) = Some d \<and>
        (\<forall>buf. length buf = length d \<longrightarrow> read_guest_memory p m' a buf = Some d) \<and> reads_kept p a (length d) m m')) \<and>
    (backed m a 1 \<longrightarrow> (\<exists>m'. write_u8 p m a b = Some m' \<and> wf_mem m' \<and> read_byte p m' a = Some b \<and>
      read_guest_memory_alloc p m' a 1 = Some [b] \<and> reads_kept p a 1 m m')) \<and>
    (backed m a 2 \<longrightarrow> (\<exists>m'. write_u16 p m a h = Some m' \<and> wf_mem m' \<and> read_u16 p m' a = Some h \<and>
      read_guest_memory_alloc p m' a 2 = Some (le16 h) \<and> reads_kept p a 2 m m')) \<and>
    (backed m a 4 \<longrightarrow> (\<exists>m'. write_u32 p m a w = Some m' \<and> wf_mem m' \<and> read_u32 p m' a = Some w \<and>
      read_guest_memory_alloc p m' a 4 = Some (le32 w) \<and> reads_kept p a 4 m m')) \<and>
    (backed m a 8 \<longrightarrow> (\<exists>m'. write_guest_memory p m a (le64 l) = Some m' \<and> read_u64 p m' a = Some l))"
proof (intro conjI impI)
  assume "backed m a (length d)"
  then obtain m' where "write_mapped p a d m = Some m'" "wf_mem m'" "reads_kept p a (length d) m m'"
      "backed m' a (length d)" "bytes_at m' a (length d) = d"
    by (rule block_write_read [OF assms _ refl])
  then show "\<exists>m'. write_guest_memory p m a d = Some m' \<and> wf_mem m' \<and> read_guest_memory_alloc p m' a (length d) = Some d \<and>
      (\<forall>buf. length buf = length d \<longrightarrow> read_guest_memory p m' a buf = Some d) \<and> reads_kept p a (length d) m m'"
    by (auto simp: write_guest_memory_def read_guest_memory_def alloc_backed)
next
  assume "backed m a 1"
  then obtain m' where "write_mapped p a (to_le 1 b) m = Some m'" "wf_mem m'" "reads_kept p a 1 m m'" "backed m' a 1"
      "bytes_at m' a 1 = to_le 1 b"
    by (rule block_write_read [OF assms _ length_to_le])
  then show "\<exists>m'. write_u8 p m a b = Some m' \<and> wf_mem m' \<and> read_byte p m' a = Some b \<and>
      read_guest_memory_alloc p m' a 1 = Some [b] \<and> reads_kept p a 1 m m'"
    by (auto simp: write_u8_def read_byte_def read_word_backed alloc_backed)
next
  assume "backed m a 2"
  then obtain m' where "write_mapped p a (le16 h) m = Some m'" "wf_mem m'" "reads_kept p a 2 m m'" "backed m' a 2"
      "bytes_at m' a 2 = le16 h"
    by (rule block_write_read [OF assms _ length_to_le])
  then show "\<exists>m'. write_u16 p m a h = Some m' \<and> wf_mem m' \<and> read_u16 p m' a = Some h \<and>
      read_guest_memory_alloc p m' a 2 = Some (le16 h) \<and> reads_kept p a 2 m m'"
    by (auto simp: write_u16_def read_u16_def read_word_backed alloc_backed)
next
  assume "backed m a 4"
  then obtain m' where "write_mapped p a (le32 w) m = Some m'" "wf_mem m'" "reads_kept p a 4 m m'" "backed m' a 4"
      "bytes_at m' a 4 = le32 w"
    by (rule block_write_read [OF assms _ length_to_le])
  then show "\<exists>m'. write_u32 p m a w = Some m' \<and> wf_mem m' \<and> read_u32 p m' a = Some w \<and>
      read_guest_memory_alloc p m' a 4 = Some (le32 w) \<and> reads_kept p a 4 m m'"
    by (auto simp: write_u32_def read_u32_def read_word_backed alloc_backed)
next
  assume "backed m a 8"
  then obtain m' where "write_mapped p a (le64 l) m = Some m'" "wf_mem m'" "backed m' a 8" "bytes_at m' a 8 = le64 l"
    by (rule block_write_read [OF assms _ length_to_le])
  then show "\<exists>m'. write_guest_memory p m a (le64 l) = Some m' \<and> read_u64 p m' a = Some l"
    by (auto simp: write_guest_memory_def read_u64_def read_word_backed)
qed

theorem guest_memory_write_read_witness:
  "\<exists>m'. write_u16 Dev [new_region (Some (replicate 8 0)) 8 0x1000] 0x1002 0x0907 = Some m' \<and>
     read_u16 Dev m' 0x1002 = Some 0x0907 \<and> read_guest_memory_alloc Dev m' 0x1002 2 = Some [7, 9] \<and>
     read_byte Dev m' 0x1004 = read_byte Dev [new_region (Some (replicate 8 0)) 8 0x1000] 0x1004"
proof -
  let ?m = "[new_region (Some (replicate 8 0)) 8 0x1000]"
  have bk: "wf_mem ?m" "backed ?m 0x1002 2" "backed ?m 0x1004 1"
    by (simp_all add: new_region_def wf_region_def hits_def)
  have "span 0x1002 2 \<inter> span 0x1004 1 = {}" by (simp add: span_def)
  moreover have "le16 0x0907 = [7, 9]" by code_simp
  ultimately show ?thesis
    using guest_memory_write_read [OF bk(1), of "0x1002" "[]" Dev 0 "0x0907" 0 0] bk(2,3)
    by (auto simp: reads_kept_def)
qed

text \<open>C23: The unsafe accesses of a memory region never leave the block it was created with: for every
  address and length the bounds test decides, reads and writes return, and a write keeps the region
  well formed, its place and its size.\<close>

theorem region_access_safe:
  assumes "wf_region r"
  shows "(\<exists>res. region_read r addr len = Some res) \<and>
    (\<exists>r'. region_write r data addr = Some r' \<and> wf_region r' \<and> mem_size r' = mem_size r \<and> mem_offset r' = mem_offset r)"
  using region_read_total [OF assms] region_write_total [OF assms] by blast

theorem region_access_safe_witness:
  "\<exists>r'. region_write (new_region (Some [1, 2, 3, 4]) 4 0x1000) [5, 6] 3 = Some r' \<and> wf_region r'"
  using region_access_safe [of "new_region (Some [1, 2, 3, 4]) 4 0x1000" 3 0 "[5, 6]"]
  by (auto simp: new_region_def wf_region_def)

text \<open>An address past the end of the first region makes every typed read panic, in both build
  profiles and whatever regions follow, because the test subtracts before it compares; a block read
  of such an address panics in the dev profile.\<close>

theorem read_past_first_region_panics:
  assumes "mem_offset r \<le> a" "mem_size r < a - mem_offset r" "8 \<le> unat (mem_size r)" "0 < n"
  shows "read_byte p (r # rs) a = None \<and> read_u16 p (r # rs) a = None \<and> read_u32 p (r # rs) a = None \<and>
    read_u64 p (r # rs) a = None \<and> read_guest_memory_alloc Dev (r # rs) a n = None"
proof -
  let ?o = "a - mem_offset r"
  have "unat (mem_size r - ?o) = 2 ^ 64 + unat (mem_size r) - unat ?o"
    using assms(2) by (simp add: unat_sub_if_size word_size word_less_nat_alt)
  with unat_less_length [of ?o] assms(3) have "k \<le> unat (mem_size r - ?o)" if "k \<le> 8" for k
    using that by simp
  then have "read_mapped p k a (r # rs) = None" if "k \<le> 8" for k
    using assms that by (auto simp: sub_chk_def region_read_def in_bounds_def)
  then show ?thesis
    using assms by (simp add: read_typed_defs read_word_def read_guest_memory_alloc_def sub_chk_def
        del: read_mapped.simps)
qed

end
