(* ===== verification/Virtqueue.thy ===== *)
theory Virtqueue
  imports Guest_Memory
begin

text \<open>
  The split virtqueue of \<^verbatim>\<open>src/devices/virtio/virtio.rs\<close>: the device's view of the available ring, of
  the used ring and of the descriptor table, all of them in guest memory. Address arithmetic on
  guest-chosen ring addresses is kept with its overflow behaviour. The abstract view is the list of
  descriptor heads that the driver has made available and the device has not taken yet.
\<close>

section \<open>Data\<close>

definition VIRTQ_DESC_F_NEXT :: u16 where
  "VIRTQ_DESC_F_NEXT = 1"

definition VIRTQ_DESC_F_WRITE :: u16 where
  "VIRTQ_DESC_F_WRITE = 2"

record virtq_desc =
  desc_buf :: u64
  desc_len :: u32
  desc_flags :: u16
  desc_next :: u16

record virtio_queue =
  q_size :: u16
  q_ready :: bool
  desc_addr :: u64
  avail_addr :: u64
  used_addr :: u64
  last_avail_idx :: u16
  last_used_idx :: u16

definition new_queue :: virtio_queue where
  "new_queue = \<lparr>q_size = 0, q_ready = False, desc_addr = 0, avail_addr = 0, used_addr = 0,
     last_avail_idx = 0, last_used_idx = 0\<rparr>"

section \<open>Operations\<close>

definition pop_avail ::
    "profile \<Rightarrow> virtio_queue \<Rightarrow> guest_memory \<Rightarrow> (u16 option \<times> virtio_queue) option" where
  "pop_avail p q m =
     (if q_size q = 0 then Some (None, q)
      else do {
        idx_addr \<leftarrow> add_chk p (avail_addr q) 2;
        avail_idx \<leftarrow> read_u16 p m idx_addr;
        if last_avail_idx q = avail_idx then Some (None, q)
        else do {
          let ring_idx = last_avail_idx q mod q_size q;
          let offset = 4 + (ucast ring_idx :: u64) * 2;
          head_addr \<leftarrow> add_chk p (avail_addr q) offset;
          head \<leftarrow> read_u16 p m head_addr;
          Some (Some head, q\<lparr>last_avail_idx := last_avail_idx q + 1\<rparr>)
        }
      })"

definition push_used ::
    "profile \<Rightarrow> virtio_queue \<Rightarrow> guest_memory \<Rightarrow> u16 \<Rightarrow> u32 \<Rightarrow> (virtio_queue \<times> guest_memory) option" where
  "push_used p q m head len =
     (if q_size q = 0 then Some (q, m)
      else do {
        let offset = 4 + (ucast (last_used_idx q mod q_size q) :: u64) * 8;
        id_addr \<leftarrow> add_chk p (used_addr q) offset;
        m \<leftarrow> write_u32 p m id_addr (ucast head);
        len_addr \<leftarrow> add_chk p id_addr 4;
        m \<leftarrow> write_u32 p m len_addr len;
        let q = q\<lparr>last_used_idx := last_used_idx q + 1\<rparr>;
        idx_addr \<leftarrow> add_chk p (used_addr q) 2;
        m \<leftarrow> write_u16 p m idx_addr (last_used_idx q);
        Some (q, m)
      })"

definition get_descriptor ::
    "profile \<Rightarrow> virtio_queue \<Rightarrow> guest_memory \<Rightarrow> u16 \<Rightarrow> virtq_desc option" where
  "get_descriptor p q m index =
     do {
       base \<leftarrow> add_chk p (desc_addr q) ((ucast index :: u64) * 16);
       a \<leftarrow> read_u64 p m base;
       len_addr \<leftarrow> add_chk p base 8;
       l \<leftarrow> read_u32 p m len_addr;
       flags_addr \<leftarrow> add_chk p base 12;
       f \<leftarrow> read_u16 p m flags_addr;
       next_addr \<leftarrow> add_chk p base 14;
       n \<leftarrow> read_u16 p m next_addr;
       Some \<lparr>desc_buf = a, desc_len = l, desc_flags = f, desc_next = n\<rparr>
     }"

definition read_avail_entry :: "profile \<Rightarrow> virtio_queue \<Rightarrow> guest_memory \<Rightarrow> u16 \<Rightarrow> u16 option" where
  "read_avail_entry p q m idx =
     (if q_size q = 0 then None
      else do {
        let ring_offset = 4 + (ucast (idx mod q_size q) :: u64) * 2;
        a \<leftarrow> add_chk p (avail_addr q) ring_offset;
        read_u16 p m a
      })"

text \<open>The loop \<^verbatim>\<open>while let Some(head) = queue.pop_avail(mem) { body }\<close> that the devices share. The body
  gets the device state, the queue, the memory and the head; \<open>did_work\<close> is threaded through.\<close>

type_synonym 'd loop_state = "'d \<times> virtio_queue \<times> guest_memory \<times> bool"

fun while_pop ::
    "nat \<Rightarrow> profile \<Rightarrow> (u16 \<Rightarrow> 'd loop_state \<Rightarrow> 'd loop_state option) \<Rightarrow> 'd loop_state \<Rightarrow>
     'd loop_state option" where
  "while_pop 0 p body s = None"
| "while_pop (Suc fuel) p body (d, q, m, w) =
     do {
       (popped, q) \<leftarrow> pop_avail p q m;
       case popped of
         None \<Rightarrow> Some (d, q, m, w)
       | Some head \<Rightarrow> do {
           s \<leftarrow> body head (d, q, m, w);
           while_pop fuel p body s
         }
     }"

text \<open>The same loop bounded by a batch size: \<^verbatim>\<open>while count < MAX_BATCH\<close> with a \<^verbatim>\<open>break\<close> when the ring is
  empty.\<close>

fun batch_pop ::
    "nat \<Rightarrow> profile \<Rightarrow> (u16 \<Rightarrow> 'd loop_state \<Rightarrow> 'd loop_state option) \<Rightarrow> 'd loop_state \<Rightarrow>
     'd loop_state option" where
  "batch_pop 0 p body s = Some s"
| "batch_pop (Suc n) p body (d, q, m, w) =
     do {
       (popped, q) \<leftarrow> pop_avail p q m;
       case popped of
         None \<Rightarrow> Some (d, q, m, w)
       | Some head \<Rightarrow> do {
           s \<leftarrow> body head (d, q, m, w);
           batch_pop n p body s
         }
     }"

section \<open>Specification\<close>

text \<open>A ring is placed when its whole area is backed and its addresses do not wrap.\<close>

definition avail_bytes :: "virtio_queue \<Rightarrow> nat" where
  "avail_bytes q = 4 + 2 * unat (q_size q)"

definition used_bytes :: "virtio_queue \<Rightarrow> nat" where
  "used_bytes q = 4 + 8 * unat (q_size q)"

definition avail_area :: "virtio_queue \<Rightarrow> nat set" where
  "avail_area q = span (avail_addr q) (avail_bytes q)"

definition used_area :: "virtio_queue \<Rightarrow> nat set" where
  "used_area q = span (used_addr q) (used_bytes q)"

text \<open>\<open>cells_ok m a n\<close>: every cell inside \<open>[a, a + n)\<close> is backed, and the range does not wrap.\<close>

definition cells_ok :: "guest_memory \<Rightarrow> u64 \<Rightarrow> nat \<Rightarrow> bool" where
  "cells_ok m a n \<longleftrightarrow> unat a + n \<le> 2 ^ 64 \<and> (\<forall>i k. 0 < k \<longrightarrow> i + k \<le> n \<longrightarrow> backed m (a + of_nat i) k)"

definition avail_idx :: "virtio_queue \<Rightarrow> guest_memory \<Rightarrow> u16" where
  "avail_idx q m = from_le (bytes_at m (avail_addr q + 2) 2)"

definition avail_entry :: "virtio_queue \<Rightarrow> guest_memory \<Rightarrow> u16 \<Rightarrow> u16" where
  "avail_entry q m i = from_le (bytes_at m (avail_addr q + (4 + (ucast (i mod q_size q) :: u64) * 2)) 2)"

definition pending_count :: "virtio_queue \<Rightarrow> guest_memory \<Rightarrow> nat" where
  "pending_count q m = (if q_size q = 0 then 0 else unat (avail_idx q m - last_avail_idx q))"

definition pending :: "virtio_queue \<Rightarrow> guest_memory \<Rightarrow> u16 list" where
  "pending q m = map (\<lambda>i. avail_entry q m (last_avail_idx q + of_nat i)) [0..<pending_count q m]"

definition take_head :: "virtio_queue \<Rightarrow> virtio_queue" where
  "take_head q = q\<lparr>last_avail_idx := last_avail_idx q + 1\<rparr>"

definition used_idx :: "virtio_queue \<Rightarrow> guest_memory \<Rightarrow> u16" where
  "used_idx q m = from_le (bytes_at m (used_addr q + 2) 2)"

definition used_entry :: "virtio_queue \<Rightarrow> guest_memory \<Rightarrow> u16 \<Rightarrow> u32 \<times> u32" where
  "used_entry q m i =
     (let off = 4 + (ucast (i mod q_size q) :: u64) * 8
      in (from_le (bytes_at m (used_addr q + off) 4), from_le (bytes_at m (used_addr q + off + 4) 4)))"

definition avail_ok :: "virtio_queue \<Rightarrow> guest_memory \<Rightarrow> bool" where
  "avail_ok q m \<longleftrightarrow> wf_mem m \<and> (q_size q \<noteq> 0 \<longrightarrow> cells_ok m (avail_addr q) (avail_bytes q))"

definition used_ok :: "virtio_queue \<Rightarrow> guest_memory \<Rightarrow> bool" where
  "used_ok q m \<longleftrightarrow> wf_mem m \<and> (q_size q \<noteq> 0 \<longrightarrow> cells_ok m (used_addr q) (used_bytes q))"

definition desc_base :: "virtio_queue \<Rightarrow> u16 \<Rightarrow> u64" where
  "desc_base q i = desc_addr q + (ucast i :: u64) * 16"

definition desc_ok :: "virtio_queue \<Rightarrow> guest_memory \<Rightarrow> u16 \<Rightarrow> bool" where
  "desc_ok q m i \<longleftrightarrow> wf_mem m \<and> unat (desc_addr q) + unat i * 16 < 2 ^ 64 \<and> cells_ok m (desc_base q i) 16"

definition desc_at :: "virtio_queue \<Rightarrow> guest_memory \<Rightarrow> u16 \<Rightarrow> virtq_desc" where
  "desc_at q m i =
     (let b = desc_base q i in
      \<lparr>desc_buf = from_le (bytes_at m b 8), desc_len = from_le (bytes_at m (b + 8) 4),
       desc_flags = from_le (bytes_at m (b + 12) 2), desc_next = from_le (bytes_at m (b + 14) 2)\<rparr>)"

definition desc_area :: "virtio_queue \<Rightarrow> u16 \<Rightarrow> nat set" where
  "desc_area q i = span (desc_base q i) 16"

section \<open>Lemmas: placed cells\<close>

lemma cells_okD:
  assumes "cells_ok m a n" "i + k \<le> n" "0 < k"
  shows "add_chk p a (of_nat i) = Some (a + of_nat i)" "unat (a + of_nat i) = unat a + i"
    "backed m (a + of_nat i) k"
proof -
  from assms have "unat a + i < 2 ^ 64" and "unat (of_nat i :: u64) = i"
    by (auto simp: cells_ok_def unat_of_nat_less)
  then show "add_chk p a (of_nat i) = Some (a + of_nat i)" "unat (a + of_nat i) = unat a + i"
    by (simp_all add: add_chk_def unat_add_fits)
  from assms show "backed m (a + of_nat i) k"
    by (simp add: cells_ok_def)
qed

lemma cells_ok_modifies: "modifies S m m' \<Longrightarrow> cells_ok m' a n = cells_ok m a n"
  by (simp add: cells_ok_def modifies_backed)

lemma cells_ok_sub: "cells_ok m a n \<Longrightarrow> k \<le> n \<Longrightarrow> cells_ok m a k"
  by (simp add: cells_ok_def)

text \<open>With a single region, as the machine configuration of \<^verbatim>\<open>src/main.rs\<close> has it, every range inside
  it is placed.\<close>

lemma hits_inside:
  assumes "unat (mem_offset r) \<le> unat a" "unat a + k \<le> unat (mem_offset r) + unat (mem_size r)"
  shows "hits r a k"
  using assms by (auto simp: hits_def unat_sub_le word_le_nat_alt)

lemma cells_ok_single:
  assumes "ptr r \<noteq> None" "unat (mem_offset r) \<le> unat a"
    and "unat a + n \<le> unat (mem_offset r) + unat (mem_size r)" "unat a + n \<le> 2 ^ 64"
  shows "cells_ok [r] a n"
proof -
  have "hits r (a + of_nat i) k" if "0 < k" "i + k \<le> n" for i k
  proof -
    have "unat (a + of_nat i) = unat a + i"
      using assms(4) that by (simp add: unat_add_fits unat_of_nat_less)
    then show ?thesis using assms that by (auto intro!: hits_inside)
  qed
  then show ?thesis using assms by (simp add: cells_ok_def)
qed

lemma cells_ok_within:
  assumes "cells_ok m 0 ram" "unat a + n \<le> ram"
  shows "cells_ok m a n"
  unfolding cells_ok_def
proof (intro conjI allI impI)
  show "unat a + n \<le> 2 ^ 64" using assms by (simp add: cells_ok_def)
  fix i k :: nat assume "0 < k" "i + k \<le> n"
  then have "backed m (0 + of_nat (unat a + i)) k" by (intro cells_okD(3) [OF assms(1)]) (use assms(2) in simp_all)
  then show "backed m (a + of_nat i) k" by simp
qed

lemma ring_offset: "4 + (ucast x :: u64) * c = of_nat (4 + unat x * unat c)" for x :: u16 and c :: u64
  by simp

lemma mod_size_less: "n \<noteq> 0 \<Longrightarrow> unat (i mod n) < unat n" for i n :: u16
  by (simp add: unat_mod_distrib unat_gt_0)

section \<open>Lemmas: the available ring refines a list of heads\<close>

lemma avail_cells:
  assumes "avail_ok q m" "q_size q \<noteq> 0"
  shows "add_chk p (avail_addr q) 2 = Some (avail_addr q + 2)"
    and "read_u16 p m (avail_addr q + 2) = Some (avail_idx q m)"
    and "add_chk p (avail_addr q) (4 + (ucast (i mod q_size q) :: u64) * 2)
      = Some (avail_addr q + (4 + (ucast (i mod q_size q) :: u64) * 2))"
    and "read_u16 p m (avail_addr q + (4 + (ucast (i mod q_size q) :: u64) * 2)) = Some (avail_entry q m i)"
proof -
  from assms have c: "cells_ok m (avail_addr q) (avail_bytes q)" and wf: "wf_mem m"
    by (auto simp: avail_ok_def)
  have lt: "unat (i mod q_size q) < unat (q_size q)"
    using assms(2) by (rule mod_size_less)
  note idx = cells_okD [OF c, of 2 2]
  note ent = cells_okD [OF c, of "4 + unat (i mod q_size q) * 2" 2]
  from idx lt show "add_chk p (avail_addr q) 2 = Some (avail_addr q + 2)"
    by (simp add: avail_bytes_def)
  from idx lt wf show "read_u16 p m (avail_addr q + 2) = Some (avail_idx q m)"
    by (simp add: avail_bytes_def read_u16_def read_word_backed avail_idx_def)
  from ent lt show "add_chk p (avail_addr q) (4 + (ucast (i mod q_size q) :: u64) * 2)
      = Some (avail_addr q + (4 + (ucast (i mod q_size q) :: u64) * 2))"
    by (simp add: avail_bytes_def ring_offset del: of_nat_add of_nat_mult)
  from ent lt wf show "read_u16 p m (avail_addr q + (4 + (ucast (i mod q_size q) :: u64) * 2))
      = Some (avail_entry q m i)"
    by (simp add: avail_bytes_def ring_offset read_u16_def read_word_backed avail_entry_def
        del: of_nat_add of_nat_mult)
qed

lemma pending_count_take_head:
  assumes "0 < pending_count q m"
  shows "pending_count q m = Suc (pending_count (take_head q) m)"
proof -
  from assms have "q_size q \<noteq> 0" and pos: "0 < unat (avail_idx q m - last_avail_idx q)"
    by (auto simp: pending_count_def split: if_splits)
  moreover have "unat (avail_idx q m - last_avail_idx q - 1) = unat (avail_idx q m - last_avail_idx q) - 1"
    by (rule unat_minus_one) (use pos in auto)
  ultimately show ?thesis
    by (simp add: pending_count_def take_head_def avail_idx_def algebra_simps)
qed

lemma pending_take_head:
  assumes "0 < pending_count q m"
  shows "pending q m = avail_entry q m (last_avail_idx q) # pending (take_head q) m"
proof -
  have "[0..<pending_count q m] = 0 # map Suc [0..<pending_count (take_head q) m]"
    unfolding pending_count_take_head [OF assms] by (simp add: upt_conv_Cons map_Suc_upt)
  then show ?thesis
    by (simp add: pending_def take_head_def avail_entry_def algebra_simps)
qed

lemma pop_avail_refines:
  assumes "avail_ok q m"
  shows "pop_avail p q m =
    Some (case pending q m of [] \<Rightarrow> (None, q) | h # hs \<Rightarrow> (Some h, take_head q))"
proof (cases "0 < pending_count q m")
  case True
  then have "q_size q \<noteq> 0" "last_avail_idx q \<noteq> avail_idx q m"
    by (auto simp: pending_count_def split: if_splits)
  with avail_cells [OF assms] True show ?thesis
    by (simp add: pop_avail_def pending_take_head take_head_def Let_def)
next
  case False
  then have "pending q m = []" by (simp add: pending_def)
  moreover have "q_size q = 0 \<or> last_avail_idx q = avail_idx q m"
    using False by (auto simp: pending_count_def split: if_splits)
  ultimately show ?thesis
    using avail_cells(1,2) [OF assms] by (auto simp: pop_avail_def)
qed

lemma pending_Cons:
  assumes "pending q m = h # hs"
  shows "pending (take_head q) m = hs" "h = avail_entry q m (last_avail_idx q)"
  using assms pending_take_head [of q m] by (cases "0 < pending_count q m"; simp add: pending_def)+

lemma length_pending [simp]: "length (pending q m) = pending_count q m"
  by (simp add: pending_def)

lemma pending_count_less: "pending_count q m < 2 ^ 16"
  using unat_less_length [of "avail_idx q m - last_avail_idx q"] by (simp add: pending_count_def)

lemma span_sub: "i + k \<le> n \<Longrightarrow> unat (a + of_nat i) = unat a + i \<Longrightarrow> span (a + of_nat i) k \<subseteq> span a n"
  by (auto simp: span_def)

lemma avail_stable:
  assumes "avail_ok q m" "modifies S m m'" "S \<inter> avail_area q = {}" "q_size q \<noteq> 0"
  shows "avail_idx q m' = avail_idx q m" "avail_entry q m' i = avail_entry q m i"
proof -
  from assms have c: "cells_ok m (avail_addr q) (avail_bytes q)" by (simp add: avail_ok_def)
  have lt: "unat (i mod q_size q) < unat (q_size q)"
    using assms(4) by (rule mod_size_less)
  have stable: "bytes_at m' (avail_addr q + of_nat j) 2 = bytes_at m (avail_addr q + of_nat j) 2"
    if "j + 2 \<le> avail_bytes q" for j
  proof (rule modifies_bytes [OF assms(2)])
    show "backed m (avail_addr q + of_nat j) 2" using cells_okD(3) [OF c that] by simp
    have "span (avail_addr q + of_nat j) 2 \<subseteq> avail_area q"
      unfolding avail_area_def by (rule span_sub [OF that]) (use cells_okD(2) [OF c that] in simp)
    then show "span (avail_addr q + of_nat j) 2 \<inter> S = {}" using assms(3) by blast
  qed
  from stable [of 2] lt show "avail_idx q m' = avail_idx q m"
    by (simp add: avail_idx_def avail_bytes_def)
  from stable [of "4 + unat (i mod q_size q) * 2"] lt show "avail_entry q m' i = avail_entry q m i"
    by (simp add: avail_entry_def avail_bytes_def ring_offset del: of_nat_add of_nat_mult)
qed

lemma pending_cong:
  assumes "avail_ok q m" "modifies S m m'" "S \<inter> avail_area q = {}"
    and "q_size q' = q_size q" "avail_addr q' = avail_addr q" "last_avail_idx q' = last_avail_idx q"
  shows "pending q' m' = pending q m"
proof (cases "q_size q = 0")
  case False
  note st = avail_stable [OF assms(1-3) False]
  have "avail_idx q' m' = avail_idx q m" "avail_entry q' m' i = avail_entry q m i" for i
    using st assms(4-6) by (auto simp: avail_idx_def avail_entry_def)
  then show ?thesis using assms(4-6) by (simp add: pending_def pending_count_def)
qed (use assms in \<open>simp add: pending_def pending_count_def\<close>)

section \<open>Lemmas: the used ring\<close>

lemma cell_write:
  assumes "wf_mem m" "cells_ok m a n" "length d = k" "0 < k" "i + k \<le> n"
  obtains m' where "write_mapped p (a + of_nat i) d m = Some m'" "modifies {unat a + i..<unat a + i + k} m m'"
    "bytes_at m' (a + of_nat i) k = d" "cells_ok m' a n" "wf_mem m'"
proof -
  note c = cells_okD [OF assms(2,5,4)]
  obtain m' where m': "write_mapped p (a + of_nat i) d m = Some m'"
      "modifies (span (a + of_nat i) k) m m'" "bytes_at m' (a + of_nat i) k = d"
    using write_mapped_ok [OF assms(1), of "a + of_nat i" d p] c(3) assms(3) by metis
  moreover have "span (a + of_nat i) k = {unat a + i..<unat a + i + k}"
    using c(2) by (simp add: span_def)
  ultimately show thesis
    using that assms(2) by (auto simp: cells_ok_modifies modifies_wf)
qed

lemma cell_stable:
  assumes "cells_ok m a n" "j + k \<le> n" "0 < k" "modifies {lo..<hi} m m'"
    and "hi \<le> unat a + j \<or> unat a + j + k \<le> lo"
  shows "bytes_at m' (a + of_nat j) k = bytes_at m (a + of_nat j) k"
proof (rule modifies_bytes [OF assms(4)])
  show "backed m (a + of_nat j) k" using cells_okD(3) [OF assms(1-3)] .
  show "span (a + of_nat j) k \<inter> {lo..<hi} = {}"
    using assms(5) cells_okD(2) [OF assms(1-3)] by (auto simp: span_def)
qed

definition used_off :: "virtio_queue \<Rightarrow> u16 \<Rightarrow> nat" where
  "used_off q j = 4 + unat (j mod q_size q) * 8"

lemma used_off_word: "4 + (ucast (j mod q_size q) :: u64) * 8 = of_nat (used_off q j)"
  by (simp add: used_off_def)

lemma used_off_fits: "q_size q \<noteq> 0 \<Longrightarrow> used_off q j + 8 \<le> used_bytes q" "4 \<le> used_off q j"
  using mod_size_less [of "q_size q" j] by (auto simp: used_off_def used_bytes_def)

lemma used_off_distinct:
  assumes "j mod q_size q \<noteq> i mod q_size q"
  shows "used_off q j + 8 \<le> used_off q i \<or> used_off q i + 8 \<le> used_off q j"
proof -
  have "unat (j mod q_size q) \<noteq> unat (i mod q_size q)"
    using assms by (metis word_unat_eq_iff)
  then show ?thesis by (auto simp: used_off_def)
qed

lemma used_entry_cells:
  "used_entry q m j = (from_le (bytes_at m (used_addr q + of_nat (used_off q j)) 4),
     from_le (bytes_at m (used_addr q + of_nat (used_off q j + 4)) 4))"
  by (simp add: used_entry_def used_off_word Let_def add.assoc [symmetric])

lemma used_entry_frame:
  assumes "used_ok q m" "q_size q \<noteq> 0" "modifies S m m'" "S \<inter> used_area q = {}"
  shows "used_entry q m' j = used_entry q m j"
proof -
  from assms(1,2) have c: "cells_ok m (used_addr q) (used_bytes q)" by (simp add: used_ok_def)
  have "bytes_at m' (used_addr q + of_nat i) 4 = bytes_at m (used_addr q + of_nat i) 4" if "i + 4 \<le> used_bytes q" for i
  proof (rule modifies_bytes [OF assms(3)])
    show "backed m (used_addr q + of_nat i) 4" using cells_okD(3) [OF c that] by simp
    have "span (used_addr q + of_nat i) 4 \<subseteq> used_area q"
      unfolding used_area_def by (rule span_sub [OF that]) (use cells_okD(2) [OF c that] in simp)
    then show "span (used_addr q + of_nat i) 4 \<inter> S = {}" using assms(4) by blast
  qed
  from this [of "used_off q j"] this [of "used_off q j + 4"] show ?thesis
    using used_off_fits(1) [OF assms(2), of j] by (simp add: used_entry_cells del: of_nat_add)
qed

text \<open>A ring whose size divides $2^{16}$, as every size that the specification allows does, has different entries for the
  next completions up to its size, across the wrap of the index.\<close>

lemma unat_index_mod:
  assumes "unat (q_size q) dvd 2 ^ 16"
  shows "unat ((i + of_nat k) mod q_size q) = (unat i + k) mod unat (q_size q)"
proof -
  have "unat (i + of_nat k) = (unat i + k) mod 2 ^ 16" by (simp add: unat_word_ariths unat_of_nat mod_simps)
  then show ?thesis using assms by (simp add: unat_mod_distrib mod_mod_cancel)
qed

lemma used_slots_distinct:
  assumes "unat (q_size q) dvd 2 ^ 16" "0 < k" "k < unat (q_size q)"
  shows "(i + of_nat k) mod q_size q \<noteq> i mod q_size q"
proof
  assume "(i + of_nat k) mod q_size q = i mod q_size q"
  then have "(unat i + k) mod unat (q_size q) = unat i mod unat (q_size q)"
    using unat_index_mod [OF assms(1), of i k] unat_index_mod [OF assms(1), of i 0] by simp
  then have "unat (q_size q) dvd k" using mod_eq_dvd_iff_nat [of "unat i" "unat i + k" "unat (q_size q)"] by simp
  with assms(2,3) show False by (auto dest: dvd_imp_le)
qed

text \<open>What a completion writes: its entry and the index.\<close>

definition used_cells :: "virtio_queue \<Rightarrow> nat set" where
  "used_cells q =
     (let a = unat (used_addr q); e = a + used_off q (last_used_idx q) in {e..<e + 8} \<union> {a + 2..<a + 4})"

text \<open>The three stores of \<^verbatim>\<open>push_used\<close>, in order: the id, the length, the index.\<close>

lemma push_used_stores:
  assumes "used_ok q m" "q_size q \<noteq> 0"
  defines "a \<equiv> used_addr q" and "off \<equiv> used_off q (last_used_idx q)"
  obtains m1 m2 m3 where
    "push_used p q m h l = Some (q\<lparr>last_used_idx := last_used_idx q + 1\<rparr>, m3)"
    "modifies {unat a + off..<unat a + off + 4} m m1" "cells_ok m1 a (used_bytes q)"
    "bytes_at m1 (a + of_nat off) 4 = le32 (ucast h)"
    "modifies {unat a + (off + 4)..<unat a + (off + 4) + 4} m1 m2" "cells_ok m2 a (used_bytes q)"
    "bytes_at m2 (a + of_nat (off + 4)) 4 = le32 l"
    "modifies {unat a + 2..<unat a + 2 + 2} m2 m3" "bytes_at m3 (a + of_nat 2) 2 = le16 (last_used_idx q + 1)"
proof -
  from assms(1,2) have c: "cells_ok m a (used_bytes q)" and wf: "wf_mem m"
    by (auto simp: used_ok_def a_def)
  have fit: "off + 4 \<le> used_bytes q" "off + 4 + 4 \<le> used_bytes q" "2 + 2 \<le> used_bytes q"
    using used_off_fits(1) [OF assms(2), of "last_used_idx q"] by (auto simp: off_def used_bytes_def)
  obtain m1 where m1: "write_mapped p (a + of_nat off) (le32 (ucast h)) m = Some m1"
      "modifies {unat a + off..<unat a + off + 4} m m1"
      "bytes_at m1 (a + of_nat off) 4 = le32 (ucast h)" "cells_ok m1 a (used_bytes q)" "wf_mem m1"
    by (rule cell_write [OF wf c _ _ fit(1), of "le32 (ucast h)" p]) simp_all
  obtain m2 where m2: "write_mapped p (a + of_nat (off + 4)) (le32 l) m1 = Some m2"
      "modifies {unat a + (off + 4)..<unat a + (off + 4) + 4} m1 m2"
      "bytes_at m2 (a + of_nat (off + 4)) 4 = le32 l" "cells_ok m2 a (used_bytes q)" "wf_mem m2"
    by (rule cell_write [OF m1(5,4) _ _ fit(2), of "le32 l" p]) simp_all
  obtain m3 where m3: "write_mapped p (a + of_nat 2) (le16 (last_used_idx q + 1)) m2 = Some m3"
      "modifies {unat a + 2..<unat a + 2 + 2} m2 m3"
      "bytes_at m3 (a + of_nat 2) 2 = le16 (last_used_idx q + 1)"
    by (rule cell_write [OF m2(5,4) _ _ fit(3), of "le16 (last_used_idx q + 1)" p]) simp_all
  have add4: "add_chk p (a + of_nat off) 4 = Some (a + of_nat (off + 4))"
    using c fit cells_okD(2) [OF c fit(1)] by (subst add_chk_fits) (auto simp: cells_ok_def)
  have "push_used p q m h l = Some (q\<lparr>last_used_idx := last_used_idx q + 1\<rparr>, m3)"
    using assms(2) cells_okD(1) [OF c fit(1)] cells_okD(1) [OF c fit(3)] m1(1) m2(1) m3(1) add4
    by (simp add: push_used_def used_off_word write_u32_def write_u16_def a_def off_def
        del: of_nat_add of_nat_mult)
  with m1 m2 m3 show thesis by (intro that) auto
qed

lemma push_used_spec:
  assumes "used_ok q m" "q_size q \<noteq> 0"
  obtains m' where
    "push_used p q m h l = Some (q\<lparr>last_used_idx := last_used_idx q + 1\<rparr>, m')"
    "modifies (used_area q) m m'"
    "used_entry q m' (last_used_idx q) = (ucast h, l)"
    "used_idx q m' = last_used_idx q + 1"
    "\<And>j. j mod q_size q \<noteq> last_used_idx q mod q_size q \<Longrightarrow> used_entry q m' j = used_entry q m j"
    "modifies (used_cells q) m m'"
proof -
  let ?a = "used_addr q" and ?o = "used_off q (last_used_idx q)"
  from assms have c: "cells_ok m ?a (used_bytes q)" by (auto simp: used_ok_def)
  obtain m1 m2 m3 where push: "push_used p q m h l = Some (q\<lparr>last_used_idx := last_used_idx q + 1\<rparr>, m3)"
    and m1: "modifies {unat ?a + ?o..<unat ?a + ?o + 4} m m1" "cells_ok m1 ?a (used_bytes q)"
      "bytes_at m1 (?a + of_nat ?o) 4 = le32 (ucast h)"
    and m2: "modifies {unat ?a + (?o + 4)..<unat ?a + (?o + 4) + 4} m1 m2" "cells_ok m2 ?a (used_bytes q)"
      "bytes_at m2 (?a + of_nat (?o + 4)) 4 = le32 l"
    and m3: "modifies {unat ?a + 2..<unat ?a + 2 + 2} m2 m3"
      "bytes_at m3 (?a + of_nat 2) 2 = le16 (last_used_idx q + 1)"
    by (rule push_used_stores [OF assms, of p h l]) blast
  note fits = used_off_fits(1) [OF assms(2)] used_off_fits(2)
  have stable2: "bytes_at m3 (?a + of_nat j) 4 = bytes_at m2 (?a + of_nat j) 4"
    if "4 \<le> j" "j + 4 \<le> used_bytes q" for j
    using that cell_stable [OF m2(2) _ _ m3(1), of j 4] by simp
  have stable: "bytes_at m3 (?a + of_nat j) 4 = bytes_at m (?a + of_nat j) 4"
    if "4 \<le> j" "j + 4 \<le> used_bytes q" "j + 4 \<le> ?o \<or> ?o + 8 \<le> j" for j
    using that cell_stable [OF c _ _ m1(1), of j 4] cell_stable [OF m1(2) _ _ m2(1), of j 4] stable2
    by fastforce
  have cells: "modifies (used_cells q) m m3"
    by (rule modifies_mono [OF modifies_trans [OF modifies_trans [OF m1(1) m2(1)] m3(1)]]) (auto simp: used_cells_def Let_def)
  show thesis
  proof (rule that [OF push])
    show "modifies (used_cells q) m m3" by (rule cells)
    show "modifies (used_area q) m m3"
      by (rule modifies_mono [OF cells])
        (use fits(1) [of "last_used_idx q"] fits(2) [of q "last_used_idx q"] in \<open>auto simp: used_cells_def used_area_def span_def Let_def\<close>)
    have "bytes_at m2 (?a + of_nat ?o) 4 = le32 (ucast h)"
      using m1(3) cell_stable [OF m1(2) _ _ m2(1), of ?o 4] fits(1) [of "last_used_idx q"] by simp
    then show "used_entry q m3 (last_used_idx q) = (ucast h, l)"
      using m2(3) stable2 [of ?o] stable2 [of "?o + 4"] fits(1) [of "last_used_idx q"]
        fits(2) [of q "last_used_idx q"]
      by (simp add: used_entry_cells del: of_nat_add)
    show "used_idx q m3 = last_used_idx q + 1"
      using m3(2) by (simp add: used_idx_def)
    fix j assume "j mod q_size q \<noteq> last_used_idx q mod q_size q"
    from used_off_distinct [OF this] show "used_entry q m3 j = used_entry q m j"
      using stable [of "used_off q j"] stable [of "used_off q j + 4"] fits(1) [of j] fits(2) [of q j]
      by (auto simp: used_entry_cells simp del: of_nat_add)
  qed
qed

section \<open>Lemmas: descriptors\<close>

lemma get_descriptor_spec:
  assumes "desc_ok q m i"
  shows "get_descriptor p q m i = Some (desc_at q m i)"
proof -
  from assms have c: "cells_ok m (desc_base q i) 16" and wf: "wf_mem m"
    and lt: "unat (desc_addr q) + unat i * 16 < 2 ^ 64"
    by (auto simp: desc_ok_def)
  have "unat ((ucast i :: u64) * 16) = unat i * 16"
    using unat_less_length [of i] by (simp add: unat_word_ariths unat_ucast_up)
  with lt have base: "add_chk p (desc_addr q) ((ucast i :: u64) * 16) = Some (desc_base q i)"
    by (simp add: add_chk_def desc_base_def)
  have cell: "add_chk p (desc_base q i) (of_nat j) = Some (desc_base q i + of_nat j)"
      "backed m (desc_base q i + of_nat j) k" if "j + k \<le> 16" "0 < k" for j k
    using cells_okD [OF c that] by auto
  show ?thesis
    using base cell(1) [of 8 4] cell(1) [of 12 2] cell(1) [of 14 2]
      cell(2) [of 0 8] cell(2) [of 8 4] cell(2) [of 12 2] cell(2) [of 14 2] wf
    by (simp add: get_descriptor_def desc_at_def read_typed_defs read_word_backed Let_def)
qed

lemma desc_stable:
  assumes "desc_ok q m i" "modifies S m m'" "S \<inter> desc_area q i = {}"
  shows "desc_at q m' i = desc_at q m i" "desc_ok q m' i"
proof -
  from assms have c: "cells_ok m (desc_base q i) 16" by (simp add: desc_ok_def)
  have st: "bytes_at m' (desc_base q i + of_nat j) k = bytes_at m (desc_base q i + of_nat j) k"
    if "j + k \<le> 16" "0 < k" for j k
  proof (rule modifies_bytes [OF assms(2)])
    show "backed m (desc_base q i + of_nat j) k" using cells_okD(3) [OF c that] .
    show "span (desc_base q i + of_nat j) k \<inter> S = {}"
      using span_sub [OF that(1) cells_okD(2) [OF c that]] assms(3) by (auto simp: desc_area_def)
  qed
  show "desc_at q m' i = desc_at q m i"
    using st [of 0 8] st [of 8 4] st [of 12 2] st [of 14 2] by (simp add: desc_at_def Let_def)
  show "desc_ok q m' i"
    using assms cells_ok_modifies modifies_wf by (auto simp: desc_ok_def)
qed

lemma desc_at_cong: "desc_addr q' = desc_addr q \<Longrightarrow> desc_at q' m i = desc_at q m i"
  by (simp add: desc_at_def desc_base_def)

lemma desc_ok_cong: "desc_addr q' = desc_addr q \<Longrightarrow> desc_ok q' m i = desc_ok q m i"
  by (simp add: desc_ok_def desc_base_def)

section \<open>Interface: a request handler on a queue\<close>

text \<open>What a device body promises of one popped head, given its invariant (the driver's side of the
  contract): it returns, it completes exactly one request, and it leaves the remaining heads of the
  available ring as they are. From that alone the loop drains the queue.\<close>

locale pop_handler =
  fixes p :: profile
    and body :: "u16 \<Rightarrow> 'd loop_state \<Rightarrow> 'd loop_state option"
    and Inv :: "'d \<Rightarrow> virtio_queue \<Rightarrow> guest_memory \<Rightarrow> bool"
  assumes inv_avail: "Inv d q m \<Longrightarrow> avail_ok q m"
    and body_step: "Inv d q m \<Longrightarrow> pending q m = h # hs \<Longrightarrow>
      \<exists>d' q' m' w'. body h (d, take_head q, m, w) = Some (d', q', m', w') \<and> Inv d' q' m' \<and>
        pending q' m' = hs \<and> last_used_idx q' = last_used_idx q + 1"
begin

lemma while_pop_drains:
  assumes "Inv d q m" "pending_count q m < fuel"
  shows "\<exists>d' q' m' w'. while_pop fuel p body (d, q, m, w) = Some (d', q', m', w') \<and> Inv d' q' m' \<and>
    pending q' m' = [] \<and> last_used_idx q' = last_used_idx q + of_nat (length (pending q m))"
  using assms
proof (induction fuel arbitrary: d q m w)
  case (Suc fuel)
  note pop = pop_avail_refines [OF inv_avail [OF Suc.prems(1)], of p]
  show ?case
  proof (cases "pending q m")
    case Nil
    with Suc.prems pop show ?thesis by auto
  next
    case (Cons h hs)
    from body_step [OF Suc.prems(1) Cons, of w] obtain d1 q1 m1 w1 where
      step: "body h (d, take_head q, m, w) = Some (d1, q1, m1, w1)" "Inv d1 q1 m1"
        "pending q1 m1 = hs" "last_used_idx q1 = last_used_idx q + 1" by blast
    have "pending_count q1 m1 < fuel"
      using step(3) Cons Suc.prems(2) by (metis Suc_less_eq length_Cons length_pending)
    from Suc.IH [OF step(2) this, of w1] step Cons pop show ?thesis
      by (auto simp del: length_pending)
  qed
qed simp

corollary while_pop_enough_fuel:
  assumes "Inv d q m"
  shows "\<exists>d' q' m' w'. while_pop (2 ^ 16) p body (d, q, m, w) = Some (d', q', m', w') \<and> Inv d' q' m' \<and>
    pending q' m' = [] \<and> last_used_idx q' = last_used_idx q + of_nat (length (pending q m))"
  by (rule while_pop_drains [OF assms pending_count_less])

lemma batch_pop_serves:
  assumes "Inv d q m"
  shows "\<exists>d' q' m' w'. batch_pop n p body (d, q, m, w) = Some (d', q', m', w') \<and> Inv d' q' m' \<and>
    pending q' m' = drop n (pending q m) \<and>
    last_used_idx q' = last_used_idx q + of_nat (min n (length (pending q m)))"
  using assms
proof (induction n arbitrary: d q m w)
  case (Suc n)
  note pop = pop_avail_refines [OF inv_avail [OF Suc.prems], of p]
  show ?case
  proof (cases "pending q m")
    case Nil
    with Suc.prems pop show ?thesis by auto
  next
    case (Cons h hs)
    from body_step [OF Suc.prems Cons, of w] obtain d1 q1 m1 w1 where
      step: "body h (d, take_head q, m, w) = Some (d1, q1, m1, w1)" "Inv d1 q1 m1"
        "pending q1 m1 = hs" "last_used_idx q1 = last_used_idx q + 1" by blast
    from Suc.IH [OF step(2), of w1] step Cons pop show ?thesis
      by (auto simp del: length_pending)
  qed
qed auto

end

section \<open>A queue in memory\<close>

text \<open>A queue with one entry, in a 64-byte memory: two descriptors at 0 and 16, the available ring at 32
  with one head in it, the used ring at 40, a word with value 41 at 56 and room for a word at 60. The
  examples of this and of later theories are evaluated on it.\<close>

definition demo_block :: "u8 list" where
  "demo_block =
     le64 56 @ le32 4 @ le16 3 @ le16 1 @ le64 60 @ le32 4 @ le16 2 @ le16 0 @
     le16 0 @ le16 1 @ le16 0 @ le16 0 @ replicate 16 0 @ le32 41 @ le32 0"

definition demo_mem :: guest_memory where
  "demo_mem = [new_region (Some demo_block) 64 0]"

definition demo_queue :: virtio_queue where
  "demo_queue = \<lparr>q_size = 1, q_ready = True, desc_addr = 0, avail_addr = 32, used_addr = 40,
     last_avail_idx = 0, last_used_idx = 0\<rparr>"

lemma demo_block_eq:
  "demo_block =
    [56, 0, 0, 0, 0, 0, 0, 0, 4, 0, 0, 0, 3, 0, 1, 0, 60, 0, 0, 0, 0, 0, 0, 0, 4, 0, 0, 0, 2, 0, 0, 0,
     0, 0, 1, 0, 0, 0, 0, 0, 0, 0, 0, 0, 0, 0, 0, 0, 0, 0, 0, 0, 0, 0, 0, 0, 41, 0, 0, 0, 0, 0, 0, 0]"
  by code_simp

lemma demo_wf: "wf_mem demo_mem"
  by (simp add: demo_mem_def new_region_def wf_region_def demo_block_eq)

lemma demo_cells: "unat a + n \<le> 64 \<Longrightarrow> cells_ok demo_mem a n"
  unfolding demo_mem_def by (rule cells_ok_single) (simp_all add: new_region_def)

lemma demo_backed: "unat a + n \<le> 64 \<Longrightarrow> 0 < n \<Longrightarrow> backed demo_mem a n"
  using cells_okD(3) [OF demo_cells, of a n 0 n] by simp

lemma demo_ok: "avail_ok demo_queue demo_mem" "used_ok demo_queue demo_mem" "q_size demo_queue \<noteq> 0"
  by (simp_all add: avail_ok_def used_ok_def demo_wf demo_cells demo_queue_def avail_bytes_def used_bytes_def)

lemma demo_desc_ok: "unat i < 4 \<Longrightarrow> desc_ok demo_queue demo_mem i"
proof -
  assume i: "unat i < 4"
  have "unat ((ucast i :: u64) * 16) = unat i * 16"
    using i by (simp add: unat_word_ariths unat_ucast_up)
  with i show ?thesis
    by (simp add: desc_ok_def demo_wf desc_base_def demo_queue_def demo_cells)
qed

lemma demo_pending: "pending demo_queue demo_mem = [0]"
  by code_simp

section \<open>Properties\<close>

text \<open>C20: Popping the available ring refines taking the first element of the list of pending heads:
  it returns the first head the driver has published and the device has not taken, in order, and
  nothing when there is none; the reads of the ring do not panic when the ring is backed.\<close>

theorem pop_avail_takes_next:
  assumes "avail_ok q m"
  shows "pop_avail p q m = Some (case pending q m of [] \<Rightarrow> (None, q) | h # hs \<Rightarrow> (Some h, take_head q)) \<and>
    (\<forall>h hs. pending q m = h # hs \<longrightarrow> pending (take_head q) m = hs)"
  using pop_avail_refines [OF assms] pending_Cons(1) by blast

theorem pop_avail_takes_next_witness:
  "pop_avail Dev demo_queue demo_mem = Some (Some 0, take_head demo_queue) \<and>
   pending (take_head demo_queue) demo_mem = []"
  using pop_avail_takes_next [OF demo_ok(1), of Dev] demo_pending by simp

text \<open>C21: After a completion has been pushed, the entry of the used ring that the index selects holds the id and the length,
  the index in guest memory is the incremented one, wrapping at $2^{16}$, and not a byte of guest memory other
  than these ten has changed: the flags word of the used ring and all its other entries are what they were.
  Nothing panics when the ring is backed and has a size.\<close>

theorem push_used_publishes:
  assumes "used_ok q m" "q_size q \<noteq> 0"
  shows "\<exists>m'. push_used p q m h l = Some (q\<lparr>last_used_idx := last_used_idx q + 1\<rparr>, m') \<and>
    used_entry q m' (last_used_idx q) = (ucast h, l) \<and> used_idx q m' = last_used_idx q + 1 \<and>
    (\<forall>j. j mod q_size q \<noteq> last_used_idx q mod q_size q \<longrightarrow> used_entry q m' j = used_entry q m j) \<and>
    bytes_at m' (used_addr q) 2 = bytes_at m (used_addr q) 2 \<and> modifies (used_cells q) m m'"
proof -
  obtain m' where m': "push_used p q m h l = Some (q\<lparr>last_used_idx := last_used_idx q + 1\<rparr>, m')"
      "used_entry q m' (last_used_idx q) = (ucast h, l)" "used_idx q m' = last_used_idx q + 1"
      "\<And>j. j mod q_size q \<noteq> last_used_idx q mod q_size q \<Longrightarrow> used_entry q m' j = used_entry q m j"
      "modifies (used_cells q) m m'"
    by (rule push_used_spec [OF assms, of p h l]) blast
  have "cells_ok m (used_addr q) (used_bytes q)" using assms by (simp add: used_ok_def)
  from cells_okD(3) [OF this, of 0 2] have "backed m (used_addr q) 2" by (simp add: used_bytes_def)
  then have "bytes_at m' (used_addr q) 2 = bytes_at m (used_addr q) 2"
    by (rule modifies_bytes [OF m'(5)])
      (use used_off_fits(2) [of q "last_used_idx q"] in \<open>auto simp: used_cells_def span_def Let_def\<close>)
  with m' show ?thesis by blast
qed

theorem push_used_publishes_witness:
  "\<exists>m'. push_used Dev demo_queue demo_mem 7 9 = Some (demo_queue\<lparr>last_used_idx := 1\<rparr>, m') \<and>
     used_entry demo_queue m' 0 = (7, 9) \<and> used_idx demo_queue m' = 1 \<and> modifies ({44..<52} \<union> {42..<44}) demo_mem m'"
proof -
  have "used_cells demo_queue = {44..<52} \<union> {42..<44}" by (simp add: used_cells_def used_off_def demo_queue_def)
  then show ?thesis using push_used_publishes [OF demo_ok(2,3), of Dev 7 9] by (auto simp: demo_queue_def)
qed

end
