(* ===== verification/Virtio_Device.thy ===== *)
theory Virtio_Device
  imports Virtqueue
begin

text \<open>
  The trait \<^verbatim>\<open>VirtioDevice\<close> of \<^verbatim>\<open>src/devices/virtio/virtio.rs\<close> as a table of functions over a device
  state: the model of \<^verbatim>\<open>Box<dyn VirtioDevice>\<close> is the state together with its table. A device that
  holds a guest memory handle holds a reference to the one shared memory, so \<^verbatim>\<open>tick\<close> takes the memory
  and returns it; the state only remembers whether the handle has been passed.
\<close>

record 'd virtio_ops =
  virtio_type :: "'d \<Rightarrow> u32"
  features :: "'d \<Rightarrow> u64"
  negotiate_features :: "'d \<Rightarrow> u64 \<Rightarrow> 'd"
  pass_memory :: "'d \<Rightarrow> 'd"
  dev_tick :: "'d \<Rightarrow> usize \<Rightarrow> virtio_queue \<Rightarrow> guest_memory \<Rightarrow> 'd loop_state option"
  read_config :: "'d \<Rightarrow> usize \<Rightarrow> u8 list"
  write_config :: "'d \<Rightarrow> usize \<Rightarrow> u8 list \<Rightarrow> 'd"
  dev_update :: "'d \<Rightarrow> virtio_queue list \<Rightarrow> 'd \<times> virtio_queue list \<times> bool"
  dev_reset :: "'d \<Rightarrow> 'd"

text \<open>The default methods of the trait.\<close>

definition default_negotiate_features :: "'d \<Rightarrow> u64 \<Rightarrow> 'd" where
  "default_negotiate_features d driver_features = d"

definition default_write_config :: "'d \<Rightarrow> usize \<Rightarrow> u8 list \<Rightarrow> 'd" where
  "default_write_config d offset data = d"

definition default_reset :: "'d \<Rightarrow> 'd" where
  "default_reset d = d"

text \<open>The fields of a queue that only the transport writes: a device may advance the two indices and
  nothing else.\<close>

definition same_setup :: "virtio_queue \<Rightarrow> virtio_queue \<Rightarrow> bool" where
  "same_setup q q' \<longleftrightarrow> q_size q' = q_size q \<and> q_ready q' = q_ready q \<and> desc_addr q' = desc_addr q \<and>
     avail_addr q' = avail_addr q \<and> used_addr q' = used_addr q"

lemma same_setup_refl [simp]: "same_setup q q"
  by (simp add: same_setup_def)

lemma same_setup_trans: "same_setup q q1 \<Longrightarrow> same_setup q1 q2 \<Longrightarrow> same_setup q q2"
  by (simp add: same_setup_def)

lemma pop_avail_setup: "pop_avail p q m = Some (r, q') \<Longrightarrow> same_setup q q'"
  by (auto simp: pop_avail_def same_setup_def Let_def split: if_splits elim!: bind_SomeE)

lemma push_used_setup: "push_used p q m h l = Some (q', m') \<Longrightarrow> same_setup q q'"
  by (auto simp: push_used_def same_setup_def Let_def split: if_splits elim!: bind_SomeE)

text \<open>What the loop keeps, every body keeping it.\<close>

lemma while_pop_setup:
  assumes body: "\<And>h d q m w d' q' m' w'. body h (d, q, m, w) = Some (d', q', m', w') \<Longrightarrow> same_setup q q'"
    and "while_pop fuel p body (d, q, m, w) = Some (d', q', m', w')"
  shows "same_setup q q'"
  using assms(2)
proof (induction fuel arbitrary: d q m w)
  case (Suc fuel)
  from Suc.prems obtain r q1 where pop: "pop_avail p q m = Some (r, q1)"
    by (auto elim!: bind_SomeE)
  show ?case
  proof (cases r)
    case None
    with Suc.prems pop pop_avail_setup show ?thesis by auto
  next
    case (Some h)
    with Suc.prems pop obtain d2 q2 m2 w2 where
      b: "body h (d, q1, m, w) = Some (d2, q2, m2, w2)"
        "while_pop fuel p body (d2, q2, m2, w2) = Some (d', q', m', w')"
      by (auto elim!: bind_SomeE)
    from Suc.IH [OF b(2)] body [OF b(1)] pop_avail_setup [OF pop] show ?thesis
      by (blast intro: same_setup_trans)
  qed
qed simp

lemma batch_pop_setup:
  assumes body: "\<And>h d q m w d' q' m' w'. body h (d, q, m, w) = Some (d', q', m', w') \<Longrightarrow> same_setup q q'"
    and "batch_pop n p body (d, q, m, w) = Some (d', q', m', w')"
  shows "same_setup q q'"
  using assms(2)
proof (induction n arbitrary: d q m w)
  case (Suc n)
  from Suc.prems obtain r q1 where pop: "pop_avail p q m = Some (r, q1)"
    by (auto elim!: bind_SomeE)
  show ?case
  proof (cases r)
    case None
    with Suc.prems pop pop_avail_setup show ?thesis by auto
  next
    case (Some h)
    with Suc.prems pop obtain d2 q2 m2 w2 where
      b: "body h (d, q1, m, w) = Some (d2, q2, m2, w2)"
        "batch_pop n p body (d2, q2, m2, w2) = Some (d', q', m', w')"
      by (auto elim!: bind_SomeE)
    from Suc.IH [OF b(2)] body [OF b(1)] pop_avail_setup [OF pop] show ?thesis
      by (blast intro: same_setup_trans)
  qed
qed simp

lemma while_pop_keeps:
  assumes body: "\<And>h d q m w d' q' m' w'. I d \<Longrightarrow> body h (d, q, m, w) = Some (d', q', m', w') \<Longrightarrow> I d'"
    and "I d" "while_pop fuel p body (d, q, m, w) = Some (d', q', m', w')"
  shows "I d'"
  using assms(2,3)
proof (induction fuel arbitrary: d q m w)
  case (Suc fuel)
  from Suc.prems show ?case by (auto split: option.splits elim!: bind_SomeE) (blast intro: body Suc.IH)
qed simp

text \<open>A descriptor stays what it is under stores elsewhere and under a device's use of the queue.\<close>

lemma desc_keeps:
  assumes "same_setup q q'"
  shows "desc_area q' i = desc_area q i"
    and "desc_ok q m i \<Longrightarrow> modifies S m m' \<Longrightarrow> S \<inter> desc_area q i = {} \<Longrightarrow> desc_at q' m' i = desc_at q m i"
    and "desc_ok q m i \<Longrightarrow> modifies S m m' \<Longrightarrow> S \<inter> desc_area q i = {} \<Longrightarrow> desc_ok q' m' i"
proof -
  from assms have da: "desc_addr q' = desc_addr q" by (simp add: same_setup_def)
  show "desc_area q' i = desc_area q i" by (simp add: desc_area_def desc_base_def da)
  show "desc_at q' m' i = desc_at q m i" "desc_ok q' m' i"
    if "desc_ok q m i" "modifies S m m'" "S \<inter> desc_area q i = {}"
    using desc_stable [OF that] by (simp_all add: desc_at_cong [OF da] desc_ok_cong [OF da])
qed

lemma bytes_within_stable:
  assumes "cells_ok m 0 ram" "unat a + n \<le> ram" "modifies S m m'" "S \<inter> span a n = {}"
  shows "bytes_at m' a n = bytes_at m a n"
proof (cases n)
  case (Suc k)
  have "backed m (a + of_nat 0) n" by (rule cells_okD(3) [OF cells_ok_within [OF assms(1,2)]]) (use Suc in simp_all)
  then show ?thesis using modifies_bytes [OF assms(3), of a n] assms(4) by (simp add: Int_commute)
qed simp

text \<open>What visiting one descriptor of a chain reads: the descriptor and, unless it is for writing, its buffer. The
  visit is safe when both lie in guest memory, below \<open>ram\<close>.\<close>

definition step_reads :: "virtio_queue \<Rightarrow> guest_memory \<Rightarrow> u16 \<Rightarrow> nat set" where
  "step_reads q m i = desc_area q i \<union>
     (if desc_flags (desc_at q m i) AND VIRTQ_DESC_F_WRITE \<noteq> 0 then {}
      else span (desc_buf (desc_at q m i)) (unat (desc_len (desc_at q m i))))"

definition step_ok :: "nat \<Rightarrow> virtio_queue \<Rightarrow> guest_memory \<Rightarrow> u16 \<Rightarrow> bool" where
  "step_ok ram q m i \<longleftrightarrow> desc_ok q m i \<and> unat (desc_buf (desc_at q m i)) + unat (desc_len (desc_at q m i)) \<le> ram"

lemma read_buffer:
  assumes "wf_mem m" "backed m a n"
  shows "read_guest_memory p m a (replicate n 0) = Some (bytes_at m a n)"
  using read_guest_scan_backed [OF assms(2,1)] length_bytes_at [OF assms(2,1)]
  by (cases n) (auto simp: read_guest_memory_def read_guest_memory_alloc_def)

section \<open>Interface: a virtio device\<close>

text \<open>What the transport relies on in every device: a tick leaves the setup of the queue it is given
  alone, an update leaves the setup of all queues alone, and the configuration read has the length
  that was asked for.\<close>

locale virtio_device =
  fixes ops :: "'d virtio_ops"
  assumes tick_setup: "dev_tick ops d i q m = Some (d', q', m', w) \<Longrightarrow> same_setup q q'"
    and update_setup: "dev_update ops d qs = (d', qs', w) \<Longrightarrow> list_all2 same_setup qs qs'"

locale virtio_device_config = virtio_device +
  assumes config_length: "length (read_config ops d n) = n"

section \<open>Interface: requests with footprints\<close>

text \<open>The usual shape of a device: a request is described by a descriptor head, it is well formed or
  not, serving it reads \<open>R\<close> and writes \<open>W\<close> and the used ring. Under the driver's contract (what is
  written never overlaps the available ring or what a pending request reads) the loop serves every
  pending request once and touches nothing else of the guest memory. \<open>D k d\<close> says that the state \<open>d\<close> of the
  device is good for \<open>k\<close> more requests; for most devices it does not depend on \<open>k\<close>.\<close>

definition footprints_ok ::
    "(virtio_queue \<Rightarrow> guest_memory \<Rightarrow> u16 \<Rightarrow> nat set) \<Rightarrow> (virtio_queue \<Rightarrow> guest_memory \<Rightarrow> u16 \<Rightarrow> nat set) \<Rightarrow>
     virtio_queue \<Rightarrow> guest_memory \<Rightarrow> u16 list \<Rightarrow> bool" where
  "footprints_ok R W q m hs \<longleftrightarrow> used_area q \<inter> avail_area q = {} \<and>
     (\<forall>h \<in> set hs. W q m h \<inter> avail_area q = {} \<and> used_area q \<inter> R q m h = {} \<and>
        (\<forall>h' \<in> set hs. W q m h \<inter> R q m h' = {}))"

definition driver_ok ::
    "(virtio_queue \<Rightarrow> guest_memory \<Rightarrow> u16 \<Rightarrow> bool) \<Rightarrow> (virtio_queue \<Rightarrow> guest_memory \<Rightarrow> u16 \<Rightarrow> nat set) \<Rightarrow>
     (virtio_queue \<Rightarrow> guest_memory \<Rightarrow> u16 \<Rightarrow> nat set) \<Rightarrow> virtio_queue \<Rightarrow> guest_memory \<Rightarrow> bool" where
  "driver_ok req R W q m \<longleftrightarrow> q_size q \<noteq> 0 \<and> avail_ok q m \<and> used_ok q m \<and>
     list_all (req q m) (pending q m) \<and> footprints_ok R W q m (pending q m)"

lemma same_setup_area:
  "same_setup q q' \<Longrightarrow> used_area q' = used_area q" "same_setup q q' \<Longrightarrow> avail_area q' = avail_area q"
  by (simp_all add: same_setup_def used_area_def avail_area_def used_bytes_def avail_bytes_def)

lemma rings_ok_modifies:
  assumes "modifies S m m'" "same_setup q q'"
  shows "avail_ok q m \<Longrightarrow> avail_ok q' m'" "used_ok q m \<Longrightarrow> used_ok q' m'"
  using assms
  by (auto simp: avail_ok_def used_ok_def same_setup_def avail_bytes_def used_bytes_def
      cells_ok_modifies modifies_wf)

text \<open>Completing a request after the answer has been stored: the common end of every body.\<close>

lemma push_used_after:
  assumes "used_ok q m" "q_size q \<noteq> 0" "modifies S m m1"
  obtains m' where "push_used p q m1 h l = Some (q\<lparr>last_used_idx := last_used_idx q + 1\<rparr>, m')"
    "modifies (used_area q) m1 m'" "modifies (used_area q \<union> S) m m'"
    "used_entry q m' (last_used_idx q) = (ucast h, l)" "used_idx q m' = last_used_idx q + 1"
    "\<And>j. S \<inter> used_area q = {} \<Longrightarrow> j mod q_size q \<noteq> last_used_idx q mod q_size q \<Longrightarrow>
      used_entry q m' j = used_entry q m j"
proof -
  have "used_ok q m1" using rings_ok_modifies(2) [OF assms(3) same_setup_refl] assms(1) by simp
  then obtain m' where m': "push_used p q m1 h l = Some (q\<lparr>last_used_idx := last_used_idx q + 1\<rparr>, m')"
      "modifies (used_area q) m1 m'"
      "used_entry q m' (last_used_idx q) = (ucast h, l)" "used_idx q m' = last_used_idx q + 1"
      "\<And>j. j mod q_size q \<noteq> last_used_idx q mod q_size q \<Longrightarrow> used_entry q m' j = used_entry q m1 j"
    by (rule push_used_spec [OF _ assms(2), of m1 p h l]) blast
  moreover have "modifies (used_area q \<union> S) m m'"
    using modifies_trans [OF assms(3) m'(2)] by (simp add: Un_commute)
  ultimately show thesis using used_entry_frame [OF assms] by (intro that [of m']) simp_all
qed

lemma take_head_simps [simp]:
  "same_setup q (take_head q)" "last_used_idx (take_head q) = last_used_idx q"
  "used_ok (take_head q) m = used_ok q m" "used_area (take_head q) = used_area q"
  "q_size (take_head q) = q_size q"
  by (simp_all add: take_head_def same_setup_def used_ok_def used_area_def used_bytes_def)

locale footprint_handler =
  fixes p :: profile
    and body :: "u16 \<Rightarrow> 'd loop_state \<Rightarrow> 'd loop_state option"
    and D :: "nat \<Rightarrow> 'd \<Rightarrow> bool"
    and req :: "virtio_queue \<Rightarrow> guest_memory \<Rightarrow> u16 \<Rightarrow> bool"
    and R :: "virtio_queue \<Rightarrow> guest_memory \<Rightarrow> u16 \<Rightarrow> nat set"
    and W :: "virtio_queue \<Rightarrow> guest_memory \<Rightarrow> u16 \<Rightarrow> nat set"
  assumes stable: "req q m h \<Longrightarrow> modifies S m m' \<Longrightarrow> S \<inter> R q m h = {} \<Longrightarrow> same_setup q q' \<Longrightarrow>
      req q' m' h \<and> R q' m' h = R q m h \<and> W q' m' h = W q m h"
    and serve: "D (Suc k) d \<Longrightarrow> req q m h \<Longrightarrow> used_ok q m \<Longrightarrow> q_size q \<noteq> 0 \<Longrightarrow> used_area q \<inter> R q m h = {} \<Longrightarrow>
      \<exists>d' q' m' w'. body h (d, q, m, w) = Some (d', q', m', w') \<and> D k d' \<and>
        modifies (used_area q \<union> W q m h) m m' \<and> same_setup q q' \<and>
        last_avail_idx q' = last_avail_idx q \<and> last_used_idx q' = last_used_idx q + 1"
begin

lemma stable_take_head:
  assumes "req q m h" "wf_mem m"
  shows "req (take_head q) m h" "R (take_head q) m h = R q m h" "W (take_head q) m h = W q m h"
  using stable [of q m h "{}" m "take_head q"] assms by auto

lemma serve_head:
  assumes "D (Suc k) d" "driver_ok req R W q m" "pending q m = h # hs"
  obtains d' q' m' w' where "body h (d, take_head q, m, w) = Some (d', q', m', w')" "D k d'"
    "driver_ok req R W q' m'" "pending q' m' = hs" "last_used_idx q' = last_used_idx q + 1"
    "modifies (used_area q \<union> W q m h) m m'" "same_setup q q'"
    "\<And>h'. h' \<in> set hs \<Longrightarrow> W q' m' h' = W q m h'"
proof -
  let ?q = "take_head q" and ?S = "used_area q \<union> W q m h"
  from assms(2,3) have ok: "q_size q \<noteq> 0" "avail_ok q m" "used_ok q m" "wf_mem m"
    and reqs: "\<And>h'. h' \<in> set (h # hs) \<Longrightarrow> req q m h'"
    and fp: "footprints_ok R W q m (h # hs)"
    by (auto simp: driver_ok_def list_all_iff avail_ok_def)
  note eq = stable_take_head [OF reqs ok(4)]
  obtain d' q' m' w' where b: "body h (d, ?q, m, w) = Some (d', q', m', w')" "D k d'"
      "modifies ?S m m'" "same_setup ?q q'"
      "last_avail_idx q' = last_avail_idx ?q" "last_used_idx q' = last_used_idx ?q + 1"
    using serve [of k d ?q m h w] assms(1) eq [of h] ok fp by (auto simp: footprints_ok_def)
  have su: "same_setup q q'" using b(4) same_setup_trans take_head_simps(1) by blast
  have sep: "?S \<inter> avail_area q = {}" "\<And>h'. h' \<in> set (h # hs) \<Longrightarrow> ?S \<inter> R q m h' = {}"
    using fp by (auto simp: footprints_ok_def)
  have pend: "pending q' m' = hs"
  proof -
    have "pending q' m' = pending ?q m"
      by (rule pending_cong [OF _ b(3)])
        (use ok sep b su in \<open>auto simp: avail_ok_def take_head_def same_setup_def avail_bytes_def
          avail_area_def\<close>)
    with pending_Cons(1) [OF assms(3)] show ?thesis by simp
  qed
  have st: "req q' m' h' \<and> R q' m' h' = R q m h' \<and> W q' m' h' = W q m h'" if "h' \<in> set (h # hs)" for h'
    using stable [OF reqs [OF that] b(3) sep(2) [OF that] su] .
  have "driver_ok req R W q' m'"
    using st pend ok su b(3) fp rings_ok_modifies [OF b(3) su]
    by (auto simp: driver_ok_def list_all_iff footprints_ok_def same_setup_area [OF su] same_setup_def)
  with b su pend st show thesis by (intro that [of d' q' m' w']) auto
qed

end

sublocale footprint_handler \<subseteq> pop_handler p body "\<lambda>d q m. D (pending_count q m) d \<and> driver_ok req R W q m"
proof (unfold_locales, goal_cases)
  case (1 d q m)
  then show ?case by (simp add: driver_ok_def)
next
  case (2 d q m h hs w)
  then have "pending_count q m = Suc (length hs)" by (metis length_Cons length_pending)
  with 2 show ?case using serve_head [of "length hs" d q m h hs w] by (metis length_pending)
qed

context footprint_handler
begin

lemma while_pop_confined:
  assumes "D (pending_count q m) d" "driver_ok req R W q m" "pending_count q m < fuel"
    and "while_pop fuel p body (d, q, m, w) = Some (d', q', m', w')"
  shows "modifies (used_area q \<union> (\<Union>h \<in> set (pending q m). W q m h)) m m'"
  using assms
proof (induction fuel arbitrary: d q m w)
  case (Suc fuel)
  have av: "avail_ok q m" "wf_mem m" using Suc.prems(2) by (auto simp: driver_ok_def avail_ok_def)
  note pop = pop_avail_refines [OF av(1), of p]
  show ?case
  proof (cases "pending q m")
    case Nil
    with Suc.prems pop av show ?thesis by auto
  next
    case (Cons h hs)
    have cnt: "pending_count q m = Suc (length hs)" using Cons by (metis length_Cons length_pending)
    then have D: "D (Suc (length hs)) d" using Suc.prems(1) by simp
    obtain d1 q1 m1 w1 where b: "body h (d, take_head q, m, w) = Some (d1, q1, m1, w1)" "D (pending_count q1 m1) d1"
        "driver_ok req R W q1 m1" "pending q1 m1 = hs" "modifies (used_area q \<union> W q m h) m m1"
        "same_setup q q1" "\<And>h'. h' \<in> set hs \<Longrightarrow> W q1 m1 h' = W q m h'"
      using serve_head [OF D Suc.prems(2) Cons] by (metis length_pending)
    have "pending_count q1 m1 < fuel"
      using b(4) Cons Suc.prems(3) by (metis Suc_less_eq length_Cons length_pending)
    moreover have "while_pop fuel p body (d1, q1, m1, w1) = Some (d', q', m', w')"
      using Suc.prems(4) Cons pop b(1) by simp
    ultimately have "modifies (used_area q1 \<union> (\<Union>h \<in> set hs. W q1 m1 h)) m1 m'"
      using Suc.IH [OF b(2,3)] b(4) by simp
    from modifies_trans [OF b(5) this] show ?thesis
      by (rule modifies_mono) (use b(7) Cons same_setup_area [OF b(6)] in auto)
  qed
qed simp

lemma batch_pop_confined:
  assumes "D (pending_count q m) d" "driver_ok req R W q m"
    and "batch_pop n p body (d, q, m, w) = Some (d', q', m', w')"
  shows "modifies (used_area q \<union> (\<Union>h \<in> set (take n (pending q m)). W q m h)) m m'"
  using assms
proof (induction n arbitrary: d q m w)
  case 0
  then show ?case by (simp add: driver_ok_def avail_ok_def)
next
  case (Suc n)
  have av: "avail_ok q m" "wf_mem m" using Suc.prems(2) by (auto simp: driver_ok_def avail_ok_def)
  note pop = pop_avail_refines [OF av(1), of p]
  show ?case
  proof (cases "pending q m")
    case Nil
    with Suc.prems pop av show ?thesis by auto
  next
    case (Cons h hs)
    have cnt: "pending_count q m = Suc (length hs)" using Cons by (metis length_Cons length_pending)
    then have D: "D (Suc (length hs)) d" using Suc.prems(1) by simp
    obtain d1 q1 m1 w1 where b: "body h (d, take_head q, m, w) = Some (d1, q1, m1, w1)" "D (pending_count q1 m1) d1"
        "driver_ok req R W q1 m1" "pending q1 m1 = hs" "modifies (used_area q \<union> W q m h) m m1"
        "same_setup q q1" "\<And>h'. h' \<in> set hs \<Longrightarrow> W q1 m1 h' = W q m h'"
      using serve_head [OF D Suc.prems(2) Cons] by (metis length_pending)
    have "batch_pop n p body (d1, q1, m1, w1) = Some (d', q', m', w')"
      using Suc.prems(3) Cons pop b(1) by simp
    from Suc.IH [OF b(2,3) this] have "modifies (used_area q1 \<union> (\<Union>h \<in> set (take n hs). W q1 m1 h)) m1 m'"
      using b(4) by simp
    moreover have "W q1 m1 x = W q m x" if "x \<in> set (take n hs)" for x
      using b(7) in_set_takeD [OF that] by blast
    ultimately show ?thesis
      using modifies_trans [OF b(5)] Cons same_setup_area [OF b(6)] by (fastforce intro: modifies_mono)
  qed
qed

end

section \<open>Interface: requests with an answer\<close>

text \<open>A service adds what a served request leaves in memory: a guarantee \<open>G\<close> that holds when the request
  has been served, that stores outside \<open>W\<close> do not disturb, and that depends on the request only through
  what the device reads. When the answers do not overlap, every pending request has its answer after
  the loop.\<close>

definition answers_apart ::
    "(virtio_queue \<Rightarrow> guest_memory \<Rightarrow> u16 \<Rightarrow> nat set) \<Rightarrow> virtio_queue \<Rightarrow> guest_memory \<Rightarrow> u16 list \<Rightarrow> bool" where
  "answers_apart W q m hs \<longleftrightarrow> (\<forall>h \<in> set hs. used_area q \<inter> W q m h = {}) \<and>
     sorted_wrt (\<lambda>h h'. W q m h \<inter> W q m h' = {}) hs"

locale footprint_service = footprint_handler +
  fixes G :: "virtio_queue \<Rightarrow> guest_memory \<Rightarrow> u16 \<Rightarrow> guest_memory \<Rightarrow> bool"
  assumes answer: "D (Suc k) d \<Longrightarrow> req q m h \<Longrightarrow> used_ok q m \<Longrightarrow> q_size q \<noteq> 0 \<Longrightarrow> used_area q \<inter> W q m h = {} \<Longrightarrow>
      body h (d, q, m, w) = Some (d', q', m', w') \<Longrightarrow> G q m h m'"
    and answer_frame: "req q m h \<Longrightarrow> G q m h m1 \<Longrightarrow> modifies S m m1 \<Longrightarrow> modifies T m1 m2 \<Longrightarrow> T \<inter> W q m h = {} \<Longrightarrow>
      G q m h m2"
    and answer_stable: "req q m h \<Longrightarrow> modifies S m m' \<Longrightarrow> S \<inter> R q m h = {} \<Longrightarrow> same_setup q q' \<Longrightarrow>
      G q' m' h m2 \<Longrightarrow> G q m h m2"
begin

lemma while_pop_answers:
  assumes "D (pending_count q m) d" "driver_ok req R W q m" "pending_count q m < fuel" "answers_apart W q m (pending q m)"
    and "while_pop fuel p body (d, q, m, w) = Some (d', q', m', w')"
  shows "\<forall>h \<in> set (pending q m). G q m h m'"
  using assms
proof (induction fuel arbitrary: d q m w)
  case (Suc fuel)
  have ok: "q_size q \<noteq> 0" "avail_ok q m" "used_ok q m" "wf_mem m"
    using Suc.prems(2) by (auto simp: driver_ok_def avail_ok_def)
  note pop = pop_avail_refines [OF ok(2), of p]
  show ?case
  proof (cases "pending q m")
    case (Cons h hs)
    have cnt: "pending_count q m = Suc (length hs)" using Cons by (metis length_Cons length_pending)
    then have D: "D (Suc (length hs)) d" using Suc.prems(1) by simp
    obtain d1 q1 m1 w1 where b: "body h (d, take_head q, m, w) = Some (d1, q1, m1, w1)" "D (pending_count q1 m1) d1"
        "driver_ok req R W q1 m1" "pending q1 m1 = hs" "modifies (used_area q \<union> W q m h) m m1"
        "same_setup q q1" "\<And>h'. h' \<in> set hs \<Longrightarrow> W q1 m1 h' = W q m h'"
      using serve_head [OF D Suc.prems(2) Cons] by (metis length_pending)
    have reqs: "\<And>h'. h' \<in> set (h # hs) \<Longrightarrow> req q m h'" and fp: "footprints_ok R W q m (h # hs)"
      using Suc.prems(2) Cons by (auto simp: driver_ok_def list_all_iff)
    have apart: "\<forall>h \<in> set (h # hs). used_area q \<inter> W q m h = {}" "\<forall>h' \<in> set hs. W q m h \<inter> W q m h' = {}"
      "sorted_wrt (\<lambda>h h'. W q m h \<inter> W q m h' = {}) hs"
      using Suc.prems(4) Cons by (auto simp: answers_apart_def)
    have rest: "while_pop fuel p body (d1, q1, m1, w1) = Some (d', q', m', w')"
      using Suc.prems(5) Cons pop b(1) by simp
    have less: "pending_count q1 m1 < fuel"
      using b(4) Cons Suc.prems(3) by (metis Suc_less_eq length_Cons length_pending)
    note th = stable_take_head [OF reqs [of h, simplified] ok(4)]
    have "G (take_head q) m h m1"
      by (rule answer [OF D th(1) _ _ _ b(1)]) (use ok apart th in simp_all)
    then have g1: "G q m h m1"
      using answer_stable [of q m h "{}" m "take_head q" m1] reqs ok(4) by simp
    have "modifies (used_area q \<union> (\<Union>h \<in> set hs. W q m h)) m1 m'"
      using while_pop_confined [OF b(2,3) less rest] b(4,7) same_setup_area(1) [OF b(6)] by simp
    then have "G q m h m'"
      by (rule answer_frame [OF reqs [of h, simplified] g1 b(5)]) (use apart in auto)
    moreover have "G q m h' m'" if "h' \<in> set hs" for h'
    proof -
      have "sorted_wrt (\<lambda>h h'. W q1 m1 h \<inter> W q1 m1 h' = {}) hs"
        by (rule sorted_wrt_mono_rel [OF _ apart(3)]) (use b(7) in auto)
      then have "answers_apart W q1 m1 (pending q1 m1)"
        using apart(1) b(4,7) same_setup_area(1) [OF b(6)] by (auto simp: answers_apart_def)
      from Suc.IH [OF b(2,3) less this rest] that b(4) have "G q1 m1 h' m'" by simp
      moreover have "(used_area q \<union> W q m h) \<inter> R q m h' = {}"
        using fp that by (auto simp: footprints_ok_def)
      ultimately show ?thesis
        using answer_stable [of q m h' _ m1 q1 m'] reqs [of h'] that b(5,6) by simp
    qed
    ultimately show ?thesis using Cons by simp
  qed simp
qed simp

end

section \<open>Interface: requests with an effect on the device\<close>

text \<open>The other half of a service: what a served request does to the state of the device, as a function
  \<open>E\<close> that depends on guest memory only through what the request reads. A tick then applies the effects
  of the pending requests in order.\<close>

locale footprint_effect = footprint_handler +
  fixes E :: "virtio_queue \<Rightarrow> guest_memory \<Rightarrow> u16 \<Rightarrow> 'a \<Rightarrow> 'a"
  assumes effect: "D (Suc k) d \<Longrightarrow> req q m h \<Longrightarrow> used_ok q m \<Longrightarrow> q_size q \<noteq> 0 \<Longrightarrow> used_area q \<inter> R q m h = {} \<Longrightarrow>
      body h (d, q, m, w) = Some (d', q', m', w') \<Longrightarrow> d' = E q m h d"
    and effect_stable: "req q m h \<Longrightarrow> modifies S m m' \<Longrightarrow> S \<inter> R q m h = {} \<Longrightarrow> same_setup q q' \<Longrightarrow>
      E q' m' h = E q m h"
begin

lemma effect_head:
  assumes "D (Suc k) d" "driver_ok req R W q m" "pending q m = h # hs"
    and "body h (d, take_head q, m, w) = Some (d1, q1, m1, w1)"
  shows "d1 = E q m h d"
proof -
  from assms(2,3) have ok: "q_size q \<noteq> 0" "used_ok q m" "wf_mem m" "req q m h" "used_area q \<inter> R q m h = {}"
    by (auto simp: driver_ok_def avail_ok_def footprints_ok_def)
  note th = stable_take_head [OF ok(4,3)]
  have "E (take_head q) m h = E q m h"
    using effect_stable [OF ok(4) modifies_refl [OF ok(3), of "{}"], of "take_head q"] by simp
  with effect [OF assms(1) th(1) _ _ _ assms(4)] ok th(2) show ?thesis by simp
qed

lemma effects_stable_fold:
  assumes "\<forall>h \<in> set hs. req q m h \<and> S \<inter> R q m h = {}" "modifies S m m'" "same_setup q q'"
  shows "fold (E q' m') hs d = fold (E q m) hs d"
  using assms(1)
proof (induction hs arbitrary: d)
  case (Cons h hs)
  then show ?case using effect_stable [of q m h S m' q'] assms(2,3) by simp
qed simp

lemma while_pop_effects:
  assumes "D (pending_count q m) d" "driver_ok req R W q m" "pending_count q m < fuel"
    and "while_pop fuel p body (d, q, m, w) = Some (d', q', m', w')"
  shows "d' = fold (E q m) (pending q m) d"
  using assms
proof (induction fuel arbitrary: d q m w)
  case (Suc fuel)
  have av: "avail_ok q m" using Suc.prems(2) by (auto simp: driver_ok_def)
  note pop = pop_avail_refines [OF av, of p]
  show ?case
  proof (cases "pending q m")
    case Nil
    with Suc.prems pop show ?thesis by auto
  next
    case (Cons h hs)
    have cnt: "pending_count q m = Suc (length hs)" using Cons by (metis length_Cons length_pending)
    then have D: "D (Suc (length hs)) d" using Suc.prems(1) by simp
    obtain d1 q1 m1 w1 where b: "body h (d, take_head q, m, w) = Some (d1, q1, m1, w1)" "D (pending_count q1 m1) d1"
        "driver_ok req R W q1 m1" "pending q1 m1 = hs" "modifies (used_area q \<union> W q m h) m m1" "same_setup q q1"
      using serve_head [OF D Suc.prems(2) Cons] by (metis length_pending)
    have less: "pending_count q1 m1 < fuel"
      using b(4) Cons Suc.prems(3) by (metis Suc_less_eq length_Cons length_pending)
    have "while_pop fuel p body (d1, q1, m1, w1) = Some (d', q', m', w')"
      using Suc.prems(4) Cons pop b(1) by simp
    from Suc.IH [OF b(2,3) less this] have "d' = fold (E q1 m1) hs d1" using b(4) by simp
    also have "\<dots> = fold (E q m) hs d1"
      by (rule effects_stable_fold [OF _ b(5,6)])
        (use Suc.prems(2) Cons in \<open>auto simp: driver_ok_def list_all_iff footprints_ok_def\<close>)
    finally show ?thesis using effect_head [OF D Suc.prems(2) Cons b(1)] Cons by simp
  qed
qed simp

end

section \<open>Interface: requests that are transactions\<close>

text \<open>Both halves together, for devices whose answer depends on their state: serving a request in the state \<open>d\<close> leaves
  the answer \<open>G q m h d\<close> in memory and the length \<open>L q m h d\<close> in the used ring, and changes the state by \<open>E\<close>. A
  tick is then the run of the transactions of the pending requests, in order and once each.\<close>

lemma while_pop_batch: "while_pop fuel p body s = Some s' \<Longrightarrow> batch_pop fuel p body s = Some s'"
proof (induction fuel arbitrary: s)
  case (Suc fuel)
  then show ?case by (cases s) (auto split: option.splits elim!: bind_SomeE)
qed simp

locale footprint_transaction = footprint_effect +
  fixes G :: "virtio_queue \<Rightarrow> guest_memory \<Rightarrow> u16 \<Rightarrow> 'a \<Rightarrow> guest_memory \<Rightarrow> bool"
    and L :: "virtio_queue \<Rightarrow> guest_memory \<Rightarrow> u16 \<Rightarrow> 'a \<Rightarrow> u32"
  assumes complete: "D (Suc k) d \<Longrightarrow> req q m h \<Longrightarrow> used_ok q m \<Longrightarrow> q_size q \<noteq> 0 \<Longrightarrow> used_area q \<inter> R q m h = {} \<Longrightarrow>
      used_area q \<inter> W q m h = {} \<Longrightarrow> body h (d, q, m, w) = Some (d', q', m', w') \<Longrightarrow>
      G q m h d m' \<and> used_entry q m' (last_used_idx q) = (ucast h, L q m h d) \<and>
      (\<forall>j. j mod q_size q \<noteq> last_used_idx q mod q_size q \<longrightarrow> used_entry q m' j = used_entry q m j)"
    and answer_frame: "req q m h \<Longrightarrow> G q m h d m1 \<Longrightarrow> modifies S m m1 \<Longrightarrow> modifies T m1 m2 \<Longrightarrow> T \<inter> W q m h = {} \<Longrightarrow>
      G q m h d m2"
    and answer_stable: "req q m h \<Longrightarrow> modifies S m m' \<Longrightarrow> S \<inter> R q m h = {} \<Longrightarrow> same_setup q q' \<Longrightarrow>
      L q' m' h d = L q m h d \<and> (G q' m' h d m2 \<longrightarrow> G q m h d m2)"
begin

text \<open>The state in which the \<open>i\<close>-th of the heads \<open>hs\<close> is served.\<close>

abbreviation state_at :: "virtio_queue \<Rightarrow> guest_memory \<Rightarrow> u16 list \<Rightarrow> 'a \<Rightarrow> nat \<Rightarrow> 'a" where
  "state_at q m hs d i \<equiv> fold (E q m) (take i hs) d"

lemma transaction_head:
  assumes "D (Suc k) d" "driver_ok req R W q m" "pending q m = h # hs" "used_area q \<inter> W q m h = {}"
    and "body h (d, take_head q, m, w) = Some (d1, q1, m1, w1)"
  shows "d1 = E q m h d" "G q m h d m1" "used_entry q m1 (last_used_idx q) = (ucast h, L q m h d)"
    "j mod q_size q \<noteq> last_used_idx q mod q_size q \<Longrightarrow> used_entry q m1 j = used_entry q m j"
proof -
  from assms(2,3) have ok: "q_size q \<noteq> 0" "used_ok q m" "wf_mem m" "req q m h" "used_area q \<inter> R q m h = {}"
    by (auto simp: driver_ok_def avail_ok_def footprints_ok_def)
  note th = stable_take_head [OF ok(4,3)]
  have st: "L (take_head q) m h d = L q m h d" "G (take_head q) m h d m1 \<longrightarrow> G q m h d m1"
    using answer_stable [OF ok(4) modifies_refl [OF ok(3), of "{}"], of "take_head q" d m1] by simp_all
  have e: "used_entry (take_head q) m' j = used_entry q m' j" for m' j by (simp add: used_entry_def take_head_def)
  from complete [OF assms(1) th(1) _ _ _ _ assms(5)] ok th(2,3) assms(4) st e
  show "G q m h d m1" "used_entry q m1 (last_used_idx q) = (ucast h, L q m h d)"
    "j mod q_size q \<noteq> last_used_idx q mod q_size q \<Longrightarrow> used_entry q m1 j = used_entry q m j"
    by simp_all
  show "d1 = E q m h d" by (rule effect_head [OF assms(1-3,5)])
qed

text \<open>A later request is the same transaction before and after an earlier one.\<close>

lemma transaction_stable:
  assumes "\<forall>h \<in> set hs. req q m h \<and> S \<inter> R q m h = {}" "modifies S m m1" "same_setup q q1" "i < length hs"
  shows "state_at q1 m1 hs d i = state_at q m hs d i" "L q1 m1 (hs ! i) = L q m (hs ! i)"
    "G q1 m1 (hs ! i) d m' \<Longrightarrow> G q m (hs ! i) d m'"
proof -
  have "\<forall>h \<in> set (take i hs). req q m h \<and> S \<inter> R q m h = {}" using assms(1) in_set_takeD by metis
  then show "state_at q1 m1 hs d i = state_at q m hs d i" by (rule effects_stable_fold [OF _ assms(2,3)])
  have r: "req q m (hs ! i)" "S \<inter> R q m (hs ! i) = {}" using assms(1,4) by simp_all
  note st = answer_stable [OF r(1) assms(2) r(2) assms(3)]
  show "L q1 m1 (hs ! i) = L q m (hs ! i)" by (rule ext) (rule st [THEN conjunct1])
  show "G q1 m1 (hs ! i) d m' \<Longrightarrow> G q m (hs ! i) d m'" using st by blast
qed

text \<open>The outcome of serving \<open>hs\<close>: the state, the answers and the used entries are those of the transactions in order, and
  the other used entries are as before.\<close>

definition transacted :: "virtio_queue \<Rightarrow> guest_memory \<Rightarrow> u16 list \<Rightarrow> 'a \<Rightarrow> 'a \<Rightarrow> guest_memory \<Rightarrow> bool" where
  "transacted q m hs d d' m' \<longleftrightarrow> d' = fold (E q m) hs d \<and>
     (\<forall>i < length hs. G q m (hs ! i) (state_at q m hs d i) m' \<and>
        used_entry q m' (last_used_idx q + of_nat i) = (ucast (hs ! i), L q m (hs ! i) (state_at q m hs d i))) \<and>
     (\<forall>j. (\<forall>i < length hs. j mod q_size q \<noteq> (last_used_idx q + of_nat i) mod q_size q) \<longrightarrow>
        used_entry q m' j = used_entry q m j)"

lemma transacted_tail:
  assumes "transacted q1 m1 hs d1 d' m'" "\<forall>h \<in> set hs. req q m h \<and> S \<inter> R q m h = {}" "modifies S m m1" "same_setup q q1"
    and "last_used_idx q1 = last_used_idx q + 1"
  shows "d' = fold (E q m) hs d1"
    and "i < length hs \<Longrightarrow> G q m (hs ! i) (state_at q m hs d1 i) m'"
    and "i < length hs \<Longrightarrow>
      used_entry q m' (last_used_idx q + of_nat (Suc i)) = (ucast (hs ! i), L q m (hs ! i) (state_at q m hs d1 i))"
    and "(\<And>i. i < length hs \<Longrightarrow> j mod q_size q \<noteq> (last_used_idx q + of_nat (Suc i)) mod q_size q) \<Longrightarrow>
      used_entry q m' j = used_entry q m1 j"
proof -
  have ue: "used_entry q1 x j = used_entry q x j" for x j using assms(4) by (simp add: used_entry_def same_setup_def)
  have sz: "q_size q1 = q_size q" using assms(4) by (simp add: same_setup_def)
  have idx: "last_used_idx q1 + of_nat i = last_used_idx q + of_nat (Suc i)" for i by (simp add: assms(5))
  note t = assms(1) [unfolded transacted_def ue sz idx]
  show "d' = fold (E q m) hs d1" using t effects_stable_fold [OF assms(2-4)] by simp
  note later = transaction_stable [OF assms(2-4)]
  show "G q m (hs ! i) (state_at q m hs d1 i) m'"
    "used_entry q m' (last_used_idx q + of_nat (Suc i)) = (ucast (hs ! i), L q m (hs ! i) (state_at q m hs d1 i))"
    if i: "i < length hs"
    using t [THEN conjunct2, THEN conjunct1, rule_format, OF i] later(3) [OF i] unfolding later(1,2) [OF i] by blast+
  show "used_entry q m' j = used_entry q m1 j" if "\<And>i. i < length hs \<Longrightarrow> j mod q_size q \<noteq> (last_used_idx q + of_nat (Suc i)) mod q_size q"
    using t that by blast
qed

lemma transacted_Cons:
  assumes "transacted q1 m1 hs (E q m h d) d' m'" "\<forall>h \<in> set hs. req q m h \<and> S \<inter> R q m h = {}" "modifies S m m1" "same_setup q q1"
    and "last_used_idx q1 = last_used_idx q + 1" "unat (q_size q) dvd 2 ^ 16" "length hs < unat (q_size q)"
    and "G q m h d m'" "used_entry q m1 (last_used_idx q) = (ucast h, L q m h d)"
    and "\<And>j. j mod q_size q \<noteq> last_used_idx q mod q_size q \<Longrightarrow> used_entry q m1 j = used_entry q m j"
  shows "transacted q m (h # hs) d d' m'"
proof -
  note tail = transacted_tail [OF assms(1-5)]
  have "used_entry q m' (last_used_idx q) = (ucast h, L q m h d)"
  proof -
    have "last_used_idx q mod q_size q \<noteq> (last_used_idx q + of_nat (Suc i)) mod q_size q" if "i < length hs" for i
      using used_slots_distinct [OF assms(6), of "Suc i" "last_used_idx q"] that assms(7) by simp
    from tail(4) [OF this] assms(9) show ?thesis by simp
  qed
  moreover have "used_entry q m' j = used_entry q m j"
    if j: "\<forall>i < Suc (length hs). j mod q_size q \<noteq> (last_used_idx q + of_nat i) mod q_size q" for j
  proof -
    have "used_entry q m' j = used_entry q m1 j" by (rule tail(4)) (use j in blast)
    also have "\<dots> = used_entry q m j" by (rule assms(10)) (use j [rule_format, of 0] in simp)
    finally show ?thesis .
  qed
  ultimately show ?thesis
    unfolding transacted_def using tail(1-3) assms(8) by (auto simp: less_Suc_eq_0_disj)
qed

lemma batch_pop_transacted:
  assumes "D (pending_count q m) d" "driver_ok req R W q m" "answers_apart W q m (take n (pending q m))"
    and "unat (q_size q) dvd 2 ^ 16" "min n (pending_count q m) \<le> unat (q_size q)"
    and "batch_pop n p body (d, q, m, w) = Some (d', q', m', w')"
  shows "transacted q m (take n (pending q m)) d d' m'"
  using assms
proof (induction n arbitrary: d q m w)
  case (Suc n)
  have av: "avail_ok q m" "wf_mem m" using Suc.prems(2) by (auto simp: driver_ok_def avail_ok_def)
  note pop = pop_avail_refines [OF av(1), of p]
  show ?case
  proof (cases "pending q m")
    case Nil
    with Suc.prems(6) pop show ?thesis by (auto simp: transacted_def)
  next
    case (Cons h hs)
    have cnt: "pending_count q m = Suc (length hs)" using Cons by (metis length_Cons length_pending)
    then have D: "D (Suc (length hs)) d" using Suc.prems(1) by simp
    obtain d1 q1 m1 w1 where b: "body h (d, take_head q, m, w) = Some (d1, q1, m1, w1)" "D (pending_count q1 m1) d1"
        "driver_ok req R W q1 m1" "pending q1 m1 = hs" "last_used_idx q1 = last_used_idx q + 1"
        "modifies (used_area q \<union> W q m h) m m1" "same_setup q q1" "\<And>h'. h' \<in> set hs \<Longrightarrow> W q1 m1 h' = W q m h'"
      using serve_head [OF D Suc.prems(2) Cons] by (metis length_pending)
    let ?hs = "take n hs"
    have sz: "q_size q1 = q_size q" using b(7) by (simp add: same_setup_def)
    have cnt1: "pending_count q1 m1 = length hs" using b(4) by (metis length_pending)
    have apart: "used_area q \<inter> W q m h = {}" "\<forall>h' \<in> set ?hs. used_area q \<inter> W q m h' = {} \<and> W q m h \<inter> W q m h' = {}"
      "sorted_wrt (\<lambda>h h'. W q m h \<inter> W q m h' = {}) ?hs"
      using Suc.prems(3) Cons by (auto simp: answers_apart_def)
    have W1: "\<forall>h' \<in> set ?hs. W q1 m1 h' = W q m h'" using b(8) in_set_takeD by metis
    have apart1: "answers_apart W q1 m1 (take n (pending q1 m1))"
      unfolding answers_apart_def b(4)
      using apart(2) sorted_wrt_mono_rel [OF _ apart(3), of "\<lambda>h h'. W q1 m1 h \<inter> W q1 m1 h' = {}"] W1 same_setup_area(1) [OF b(7)]
      by auto
    have rest: "batch_pop n p body (d1, q1, m1, w1) = Some (d', q', m', w')" using Suc.prems(6) Cons pop b(1) by simp
    have sep: "\<forall>h' \<in> set ?hs. req q m h' \<and> (used_area q \<union> W q m h) \<inter> R q m h' = {}"
      using Suc.prems(2) Cons by (auto simp: driver_ok_def list_all_iff footprints_ok_def dest: in_set_takeD)
    note head = transaction_head [OF D Suc.prems(2) Cons apart(1) b(1)]
    have tail: "transacted q1 m1 ?hs (E q m h d) d' m'"
      using Suc.IH [OF b(2,3) apart1 _ _ rest] Suc.prems(4,5) cnt unfolding sz b(4) cnt1 head(1) by simp
    have "modifies (used_area q \<union> (\<Union>h \<in> set ?hs. W q m h)) m1 m'"
      using batch_pop_confined [OF b(2,3) rest] W1 same_setup_area(1) [OF b(7)] unfolding b(4) by simp
    moreover have "req q m h" using Suc.prems(2) Cons by (simp add: driver_ok_def)
    ultimately have "G q m h d m'" using answer_frame [OF _ head(2) b(6)] apart(1,2) by blast
    then show ?thesis
      using transacted_Cons [OF tail sep b(6,7,5) Suc.prems(4) _ _ head(3,4)] Suc.prems(5) cnt Cons by simp
  qed
qed (simp add: transacted_def)

lemma batch_pop_transacts:
  assumes "D (pending_count q m) d" "driver_ok req R W q m" "answers_apart W q m (take n (pending q m))"
    and "unat (q_size q) dvd 2 ^ 16" "min n (pending_count q m) \<le> unat (q_size q)"
    and "batch_pop n p body (d, q, m, w) = Some (d', q', m', w')"
  shows "d' = fold (E q m) (take n (pending q m)) d \<and>
    (\<forall>i < min n (pending_count q m). G q m (pending q m ! i) (state_at q m (pending q m) d i) m' \<and>
      used_entry q m' (last_used_idx q + of_nat i) =
        (ucast (pending q m ! i), L q m (pending q m ! i) (state_at q m (pending q m) d i)))"
proof -
  let ?hs = "take n (pending q m)"
  have "length ?hs = min n (pending_count q m)" by (simp add: min.commute)
  moreover have "?hs ! i = pending q m ! i \<and> take i ?hs = take i (pending q m)" if "i < min n (pending_count q m)" for i
    using that by (simp add: min.absorb1)
  ultimately show ?thesis using batch_pop_transacted [OF assms] unfolding transacted_def by metis
qed

lemma while_pop_transacts:
  assumes "D (pending_count q m) d" "driver_ok req R W q m" "answers_apart W q m (pending q m)"
    and "unat (q_size q) dvd 2 ^ 16" "pending_count q m \<le> unat (q_size q)" "pending_count q m < fuel"
    and "while_pop fuel p body (d, q, m, w) = Some (d', q', m', w')"
  shows "d' = fold (E q m) (pending q m) d \<and>
    (\<forall>i < pending_count q m. G q m (pending q m ! i) (state_at q m (pending q m) d i) m' \<and>
      used_entry q m' (last_used_idx q + of_nat i) =
        (ucast (pending q m ! i), L q m (pending q m ! i) (state_at q m (pending q m) d i)))"
  using batch_pop_transacts [OF assms(1,2) _ assms(4) _ while_pop_batch [OF assms(7)]] assms(3,5,6) by simp

end

end
