(* ===== verification/Irq.thy ===== *)
theory Irq
  imports Ferrum_Prelude
begin

text \<open>
  Interrupt plumbing: the command queue of \<^verbatim>\<open>src/irq/handler.rs\<close> that devices fill and the tick thread
  drains, and the GSI routing table of \<^verbatim>\<open>src/irq/map.rs\<close>. A device holds the queue behind
  \<^verbatim>\<open>Option<Arc<Mutex<IRQHandler>>>\<close>; in the model the queue is passed to and returned by every
  operation that may raise an interrupt, and the device only remembers whether it has been given it.
\<close>

section \<open>The command queue\<close>

record irq_command =
  irq_line :: u32
  irq_value :: bool

definition new_irq_command :: "u32 \<Rightarrow> bool \<Rightarrow> irq_command" where
  "new_irq_command line v = \<lparr>irq_line = line, irq_value = v\<rparr>"

type_synonym irq_queue = "irq_command list"

definition new_irq_handler :: irq_queue where
  "new_irq_handler = []"

definition trigger_irq :: "irq_queue \<Rightarrow> irq_command \<Rightarrow> irq_queue" where
  "trigger_irq cmds irq = cmds @ [irq]"

definition handle_irqs :: "irq_queue \<Rightarrow> irq_queue \<times> irq_queue" where
  "handle_irqs cmds = (cmds, [])"

section \<open>The routing table\<close>

record irq_map =
  gsi :: u32
  irq_pin :: u32
  irq_chip :: u32

definition new_irq_map :: "u32 \<Rightarrow> u32 \<Rightarrow> u32 \<Rightarrow> irq_map" where
  "new_irq_map g pin chip = \<lparr>gsi = g, irq_pin = pin, irq_chip = chip\<rparr>"

definition default_map :: "irq_map list" where
  "default_map =
     (let tab =
        [new_irq_map 0 0 0, new_irq_map 1 1 0, new_irq_map 3 3 0, new_irq_map 4 4 0,
         new_irq_map 5 5 0, new_irq_map 6 6 0, new_irq_map 7 7 0, new_irq_map 9 0 1,
         new_irq_map 10 1 1]
      in tab @ map (\<lambda>e. new_irq_map (gsi e) (gsi e) 2) tab)"

section \<open>Specification: the level of a line\<close>

text \<open>Replaying commands on an interrupt controller: the level of a line is the value of the last
  command for it.\<close>

fun line_level :: "u32 \<Rightarrow> bool \<Rightarrow> irq_queue \<Rightarrow> bool" where
  "line_level l lv [] = lv"
| "line_level l lv (c # cs) = line_level l (if irq_line c = l then irq_value c else lv) cs"

lemma line_level_append [simp]: "line_level l lv (xs @ ys) = line_level l (line_level l lv xs) ys"
  by (induction xs arbitrary: lv) auto

lemma line_level_trigger [simp]:
  "line_level l lv (trigger_irq cmds c) = (if irq_line c = l then irq_value c else line_level l lv cmds)"
  by (simp add: trigger_irq_def)

lemma irq_command_sel [simp]:
  "irq_line (new_irq_command l v) = l" "irq_value (new_irq_command l v) = v"
  by (simp_all add: new_irq_command_def)

lemma line_level_handle:
  "handle_irqs cmds = (now, later) \<Longrightarrow> line_level l (line_level l lv now) later = line_level l lv cmds"
  by (auto simp: handle_irqs_def)

text \<open>What an operation has put at the end of the queue.\<close>

definition appended :: "irq_queue \<Rightarrow> irq_queue \<Rightarrow> irq_queue" where
  "appended q q' = drop (length q) q'"

lemma appended_simps [simp]: "appended q q = []" "appended [] q = q" "appended q (q @ cs) = cs" "appended q (trigger_irq q c) = [c]"
  by (simp_all add: appended_def trigger_irq_def)

text \<open>The lines a table routes to a given chip.\<close>

definition routed :: "irq_map list \<Rightarrow> u32 \<Rightarrow> u32 list" where
  "routed tab chip = map gsi (filter (\<lambda>e. irq_chip e = chip) tab)"

end
