(* ===== verification/Virtio_Mmio.thy ===== *)
theory Virtio_Mmio
  imports Virtio_Device Irq
begin

text \<open>
  The virtio-mmio transport, \<^verbatim>\<open>src/devices/virtio/transports/mmio.rs\<close>: the register file that a guest
  driver programs, queue notification, interrupt status and line, and the periodic tick. A register
  access is total except where the source indexes or slices out of range.
\<close>

section \<open>Constants and state\<close>

definition MAGIC_NUMBER :: u32 where "MAGIC_NUMBER = 0x74726976"
definition VERSION :: u32 where "VERSION = 2"
definition VENDOR_ID :: u32 where "VENDOR_ID = 0x56484B53"
definition QUEUE_NUM_MAX :: u32 where "QUEUE_NUM_MAX = 256"
definition VIRTIO_F_VERSION_1 :: u64 where "VIRTIO_F_VERSION_1 = push_bit 32 1"

definition read_u32_from_data :: "u8 list \<Rightarrow> u32 option" where
  "read_u32_from_data data =
     do {
       buf \<leftarrow> put_slice (replicate 4 0) 0 (length data) data;
       Some (from_le buf)
     }"

record 'd mmio_transport =
  device :: 'd
  queues :: "virtio_queue list"
  queue_sel :: usize
  status :: u32
  interrupt_status :: u32
  device_features_sel :: u32
  driver_features_sel :: u32
  driver_features :: u64
  shm_sel :: u32
  irq_handler :: bool
  irq_sel :: u32
  guest_memory_set :: bool

definition new_mmio_transport :: "'d \<Rightarrow> usize \<Rightarrow> u32 \<Rightarrow> 'd mmio_transport" where
  "new_mmio_transport d queue_num sel =
     \<lparr>device = d, queues = replicate queue_num new_queue, queue_sel = 0, status = 0,
      interrupt_status = 0, device_features_sel = 0, driver_features_sel = 0, driver_features = 0,
      shm_sel = 0, irq_handler = False, irq_sel = sel, guest_memory_set = False\<rparr>"

definition set_irq_line :: "'d mmio_transport \<Rightarrow> bool \<Rightarrow> irq_queue \<Rightarrow> irq_queue" where
  "set_irq_line t v irqs =
     (if irq_handler t then trigger_irq irqs (new_irq_command (irq_sel t) v) else irqs)"

section \<open>Register reads\<close>

definition read_register ::
    "'d virtio_ops \<Rightarrow> 'd mmio_transport \<Rightarrow> u64 \<Rightarrow> irq_queue \<Rightarrow> (u32 \<times> 'd mmio_transport \<times> irq_queue) option" where
  "read_register ops t addr irqs =
     (if addr = 0x000 then Some (MAGIC_NUMBER, t, irqs)
      else if addr = 0x004 then Some (VERSION, t, irqs)
      else if addr = 0x008 then Some (virtio_type ops (device t), t, irqs)
      else if addr = 0x00C then Some (VENDOR_ID, t, irqs)
      else if addr = 0x010 then
        (let feats = features ops (device t) OR VIRTIO_F_VERSION_1
         in Some (if device_features_sel t = 0 then ucast feats else ucast (drop_bit 32 feats), t, irqs))
      else if addr = 0x034 then Some (QUEUE_NUM_MAX, t, irqs)
      else if addr = 0x038 then
        do { q \<leftarrow> index_at (queues t) (queue_sel t); Some (ucast (q_size q), t, irqs) }
      else if addr = 0x044 then
        do { q \<leftarrow> index_at (queues t) (queue_sel t); Some (if q_ready q then 1 else 0, t, irqs) }
      else if addr = 0x070 then Some (status t, t, irqs)
      else if addr = 0x060 then
        (let val = interrupt_status t
         in if val \<noteq> 0
            then Some (val, t\<lparr>interrupt_status := 0\<rparr>, set_irq_line (t\<lparr>interrupt_status := 0\<rparr>) False irqs)
            else Some (val, t, irqs))
      else if addr = 0x0B0 \<or> addr = 0x0B4 then Some (NOT 0, t, irqs)
      else Some (0, t, irqs))"

definition mmio_read ::
    "'d virtio_ops \<Rightarrow> 'd mmio_transport \<Rightarrow> u64 \<Rightarrow> usize \<Rightarrow> irq_queue \<Rightarrow>
     (u8 list \<times> 'd mmio_transport \<times> irq_queue) option" where
  "mmio_read ops t addr len irqs =
     (if 0x100 \<le> addr then
        do {
          let offset = unat (addr - 0x100);
          let cfg_bytes = read_config ops (device t) (offset + len);
          bytes \<leftarrow> slice_of cfg_bytes offset (offset + len);
          Some (bytes, t, irqs)
        }
      else do {
        (val, t, irqs) \<leftarrow> read_register ops t addr irqs;
        bytes \<leftarrow> slice_of (le64 (ucast val)) 0 len;
        Some (bytes, t, irqs)
      })"

section \<open>Register writes\<close>

definition update_queue ::
    "'d mmio_transport \<Rightarrow> (virtio_queue \<Rightarrow> virtio_queue) \<Rightarrow> 'd mmio_transport option" where
  "update_queue t f =
     do {
       q \<leftarrow> index_at (queues t) (queue_sel t);
       Some (t\<lparr>queues := (queues t)[queue_sel t := f q]\<rparr>)
     }"

definition set_low :: "u64 \<Rightarrow> u32 \<Rightarrow> u64" where
  "set_low old val = (old AND 0xFFFFFFFF00000000) OR ucast val"

definition set_high :: "u64 \<Rightarrow> u32 \<Rightarrow> u64" where
  "set_high old val = (old AND 0x00000000FFFFFFFF) OR push_bit 32 (ucast val)"

definition reset_transport :: "'d virtio_ops \<Rightarrow> 'd mmio_transport \<Rightarrow> irq_queue \<Rightarrow> 'd mmio_transport \<times> irq_queue" where
  "reset_transport ops t irqs =
     (let t = t\<lparr>queues := map (\<lambda>_. new_queue) (queues t), interrupt_status := 0, queue_sel := 0,
          device_features_sel := 0, driver_features_sel := 0, driver_features := 0, shm_sel := 0\<rparr>;
          irqs = set_irq_line t False irqs
      in (t\<lparr>device := dev_reset ops (device t)\<rparr>, irqs))"

definition notify_queue ::
    "'d virtio_ops \<Rightarrow> 'd mmio_transport \<Rightarrow> usize \<Rightarrow> guest_memory \<Rightarrow> irq_queue \<Rightarrow>
     ('d mmio_transport \<times> guest_memory \<times> irq_queue) option" where
  "notify_queue ops t queue_idx m irqs =
     (if queue_idx < length (queues t) \<and> q_ready (queues t ! queue_idx) then
        do {
          (d, q, m, did_work) \<leftarrow> dev_tick ops (device t) queue_idx (queues t ! queue_idx) m;
          let t = t\<lparr>device := d, queues := (queues t)[queue_idx := q]\<rparr>;
          if did_work then
            (let t = t\<lparr>interrupt_status := interrupt_status t OR 1\<rparr>
             in Some (t, m, set_irq_line t True irqs))
          else Some (t, m, irqs)
        }
      else Some (t, m, irqs))"

definition mmio_write ::
    "'d virtio_ops \<Rightarrow> 'd mmio_transport \<Rightarrow> u64 \<Rightarrow> u8 list \<Rightarrow> guest_memory \<Rightarrow> irq_queue \<Rightarrow>
     ('d mmio_transport \<times> guest_memory \<times> irq_queue) option" where
  "mmio_write ops t addr data m irqs =
     (if addr = 0x014 then
        do { val \<leftarrow> read_u32_from_data data; Some (t\<lparr>device_features_sel := val\<rparr>, m, irqs) }
      else if addr = 0x020 then
        do {
          val \<leftarrow> read_u32_from_data data;
          let feats = (if driver_features_sel t = 0 then set_low (driver_features t) val
                       else set_high (driver_features t) val);
          Some (t\<lparr>driver_features := feats,
                  device := negotiate_features ops (device t) feats\<rparr>, m, irqs)
        }
      else if addr = 0x024 then
        do { val \<leftarrow> read_u32_from_data data; Some (t\<lparr>driver_features_sel := val\<rparr>, m, irqs) }
      else if addr = 0x0AC then
        do { val \<leftarrow> read_u32_from_data data; Some (t\<lparr>shm_sel := val\<rparr>, m, irqs) }
      else if addr = 0x028 then Some (t, m, irqs)
      else if addr = 0x030 then
        do {
          val \<leftarrow> read_u32_from_data data;
          let sel = unat val;
          Some (if sel < length (queues t) then t\<lparr>queue_sel := sel\<rparr> else t, m, irqs)
        }
      else if addr = 0x038 then
        do {
          b0 \<leftarrow> index_at data 0;
          b1 \<leftarrow> index_at data 1;
          t \<leftarrow> update_queue t (\<lambda>q. q\<lparr>q_size := from_le [b0, b1]\<rparr>);
          Some (t, m, irqs)
        }
      else if addr = 0x044 then
        do {
          b0 \<leftarrow> index_at data 0;
          t \<leftarrow> update_queue t (\<lambda>q.
            let was_ready = q_ready q;
                q = q\<lparr>q_ready := (b0 \<noteq> 0)\<rparr>
            in if \<not> was_ready \<and> b0 \<noteq> 0 then q\<lparr>last_avail_idx := 0\<rparr> else q);
          Some (t, m, irqs)
        }
      else if addr = 0x050 then
        do {
          val \<leftarrow> read_u32_from_data data;
          notify_queue ops t (unat val) m irqs
        }
      else if addr = 0x060 \<or> addr = 0x064 then
        do {
          ack \<leftarrow> read_u32_from_data data;
          let t = t\<lparr>interrupt_status := interrupt_status t AND NOT ack\<rparr>;
          Some (t, m, if interrupt_status t = 0 then set_irq_line t False irqs else irqs)
        }
      else if addr = 0x070 then
        do {
          val \<leftarrow> read_u32_from_data data;
          let (t, irqs) = (if val = 0 then reset_transport ops t irqs else (t, irqs));
          Some (t\<lparr>status := val\<rparr>, m, irqs)
        }
      else if addr = 0x080 then
        do { val \<leftarrow> read_u32_from_data data;
             t \<leftarrow> update_queue t (\<lambda>q. q\<lparr>desc_addr := set_low (desc_addr q) val\<rparr>); Some (t, m, irqs) }
      else if addr = 0x084 then
        do { val \<leftarrow> read_u32_from_data data;
             t \<leftarrow> update_queue t (\<lambda>q. q\<lparr>desc_addr := set_high (desc_addr q) val\<rparr>); Some (t, m, irqs) }
      else if addr = 0x090 then
        do { val \<leftarrow> read_u32_from_data data;
             t \<leftarrow> update_queue t (\<lambda>q. q\<lparr>avail_addr := set_low (avail_addr q) val\<rparr>); Some (t, m, irqs) }
      else if addr = 0x094 then
        do { val \<leftarrow> read_u32_from_data data;
             t \<leftarrow> update_queue t (\<lambda>q. q\<lparr>avail_addr := set_high (avail_addr q) val\<rparr>); Some (t, m, irqs) }
      else if addr = 0x0A0 then
        do { val \<leftarrow> read_u32_from_data data;
             t \<leftarrow> update_queue t (\<lambda>q. q\<lparr>used_addr := set_low (used_addr q) val\<rparr>); Some (t, m, irqs) }
      else if addr = 0x0A4 then
        do { val \<leftarrow> read_u32_from_data data;
             t \<leftarrow> update_queue t (\<lambda>q. q\<lparr>used_addr := set_high (used_addr q) val\<rparr>); Some (t, m, irqs) }
      else if 0x100 \<le> addr then
        Some (t\<lparr>device := write_config ops (device t) (unat (addr - 0x100)) data\<rparr>, m, irqs)
      else Some (t, m, irqs))"

section \<open>Memory handle, interrupt handler, tick\<close>

definition transport_pass_guest_memory :: "'d virtio_ops \<Rightarrow> 'd mmio_transport \<Rightarrow> 'd mmio_transport" where
  "transport_pass_guest_memory ops t =
     t\<lparr>guest_memory_set := True, device := pass_memory ops (device t)\<rparr>"

definition transport_irq_handler :: "'d mmio_transport \<Rightarrow> 'd mmio_transport" where
  "transport_irq_handler t = t\<lparr>irq_handler := True\<rparr>"

fun tick_queues ::
    "'d virtio_ops \<Rightarrow> usize \<Rightarrow> virtio_queue list \<Rightarrow> 'd \<Rightarrow> guest_memory \<Rightarrow> u32 \<Rightarrow>
     (virtio_queue list \<times> 'd \<times> guest_memory \<times> u32) option" where
  "tick_queues ops idx [] d m ist = Some ([], d, m, ist)"
| "tick_queues ops idx (q # qs) d m ist =
     (if q_ready q then
        do {
          (d, q, m, completions) \<leftarrow> dev_tick ops d idx q m;
          (qs, d, m, ist) \<leftarrow> tick_queues ops (Suc idx) qs d m (if completions then ist OR 1 else ist);
          Some (q # qs, d, m, ist)
        }
      else do {
        (qs, d, m, ist) \<leftarrow> tick_queues ops (Suc idx) qs d m ist;
        Some (q # qs, d, m, ist)
      })"

definition mmio_tick ::
    "'d virtio_ops \<Rightarrow> 'd mmio_transport \<Rightarrow> guest_memory \<Rightarrow> irq_queue \<Rightarrow>
     ('d mmio_transport \<times> guest_memory \<times> irq_queue) option" where
  "mmio_tick ops t m irqs =
     (if status t AND 4 = 0 then Some (t, m, irqs)
      else do {
        let was_pending = (interrupt_status t \<noteq> 0);
        (qs, d, m, ist) \<leftarrow> tick_queues ops 0 (queues t) (device t) m (interrupt_status t);
        let (d, qs, upd) = dev_update ops d qs;
        let ist = (if upd then ist OR 1 else ist);
        let t = t\<lparr>device := d, queues := qs, interrupt_status := ist\<rparr>;
        let now_pending = (ist \<noteq> 0);
        Some (t, m, if now_pending \<and> \<not> was_pending then set_irq_line t True irqs else irqs)
      })"

section \<open>The transport among its neighbours, as a step relation\<close>

text \<open>One transport, guest RAM, the interrupt queue it shares with the other devices, and the level of
  its line at the interrupt controller. The guest accesses registers in any order and stores anything
  into its RAM, the tick thread ticks the transport and drains the queue, and other devices queue
  commands for other lines.\<close>

record 'd transport_sys =
  tr :: "'d mmio_transport"
  ram :: guest_memory
  irqs :: irq_queue
  line :: bool

inductive sys_step :: "'d virtio_ops \<Rightarrow> 'd transport_sys \<Rightarrow> 'd transport_sys \<Rightarrow> bool" for ops where
  guest_read: "mmio_read ops (tr s) a n (irqs s) = Some (bs, t', i') \<Longrightarrow>
     sys_step ops s (s\<lparr>tr := t', irqs := i'\<rparr>)"
| guest_write: "mmio_write ops (tr s) a data (ram s) (irqs s) = Some (t', m', i') \<Longrightarrow>
     sys_step ops s (s\<lparr>tr := t', ram := m', irqs := i'\<rparr>)"
| guest_store: "sys_step ops s (s\<lparr>ram := m'\<rparr>)"
| tick: "mmio_tick ops (tr s) (ram s) (irqs s) = Some (t', m', i') \<Longrightarrow>
     sys_step ops s (s\<lparr>tr := t', ram := m', irqs := i'\<rparr>)"
| deliver: "handle_irqs (irqs s) = (now, later) \<Longrightarrow>
     sys_step ops s (s\<lparr>irqs := later, line := line_level (irq_sel (tr s)) (line s) now\<rparr>)"
| other_device: "irq_line c \<noteq> irq_sel (tr s) \<Longrightarrow>
     sys_step ops s (s\<lparr>irqs := trigger_irq (irqs s) c\<rparr>)"

definition start_sys :: "'d virtio_ops \<Rightarrow> 'd \<Rightarrow> usize \<Rightarrow> u32 \<Rightarrow> guest_memory \<Rightarrow> 'd transport_sys" where
  "start_sys ops d n sel m =
     \<lparr>tr = transport_pass_guest_memory ops (transport_irq_handler (new_mmio_transport d n sel)),
      ram = m, irqs = new_irq_handler, line = False\<rparr>"

inductive sys_reachable :: "'d virtio_ops \<Rightarrow> 'd transport_sys \<Rightarrow> 'd transport_sys \<Rightarrow> bool" for ops s0 where
  start: "sys_reachable ops s0 s0"
| step: "sys_reachable ops s0 s \<Longrightarrow> sys_step ops s s' \<Longrightarrow> sys_reachable ops s0 s'"

text \<open>The invariant of a transport with \<open>n\<close> queues: the selected queue exists, and the line, once the
  queued commands are delivered, is high exactly while the interrupt status is not zero.\<close>

definition transport_inv :: "usize \<Rightarrow> u32 \<Rightarrow> 'd mmio_transport \<Rightarrow> bool \<Rightarrow> irq_queue \<Rightarrow> bool" where
  "transport_inv n sel t lv cmds \<longleftrightarrow>
     length (queues t) = n \<and> queue_sel t < n \<and> irq_handler t \<and> irq_sel t = sel \<and>
     (line_level sel lv cmds \<longleftrightarrow> interrupt_status t \<noteq> 0)"

lemma or_1_neq_0 [simp]: "x OR 1 \<noteq> 0" for x :: "'a::len word"
proof
  assume "x OR 1 = 0"
  then have "bit (x OR 1) 0 = bit (0 :: 'a word) 0" by simp
  then show False by (simp add: bit_or_iff)
qed

lemma transport_inv_read:
  assumes "transport_inv n sel t lv cmds" "mmio_read ops t a k cmds = Some (bs, t', cmds')"
  shows "transport_inv n sel t' lv cmds'"
  using assms
  by (auto simp: mmio_read_def read_register_def transport_inv_def set_irq_line_def Let_def
      split: if_splits elim!: bind_SomeE)

lemma transport_inv_update_queue:
  assumes "update_queue t f = Some t'"
  shows "transport_inv n sel t' lv cmds = transport_inv n sel t lv cmds"
  using assms by (auto simp: update_queue_def transport_inv_def elim!: bind_SomeE)

lemma transport_inv_notify:
  assumes "transport_inv n sel t lv cmds" "notify_queue ops t i m cmds = Some (t', m', cmds')"
  shows "transport_inv n sel t' lv cmds'"
  using assms
  by (auto simp: notify_queue_def transport_inv_def set_irq_line_def Let_def
      split: if_splits elim!: bind_SomeE)

lemma transport_inv_reset:
  "transport_inv n sel t lv cmds \<Longrightarrow> reset_transport ops t cmds = (t', cmds') \<Longrightarrow>
    transport_inv n sel t' lv cmds'"
  by (auto simp: reset_transport_def transport_inv_def set_irq_line_def Let_def)

lemma transport_inv_write:
  assumes inv: "transport_inv n sel t lv cmds"
    and w: "mmio_write ops t a data m cmds = Some (t', m', cmds')"
  shows "transport_inv n sel t' lv cmds'"
proof -
  have st: "transport_inv n sel (t1\<lparr>status := v\<rparr>) lv c = transport_inv n sel t1 lv c" for t1 v c
    by (simp add: transport_inv_def)
  consider (notify) "a = 0x050" | (reset) "a = 0x070" | (ack) "a = 0x060 \<or> a = 0x064"
    | (queue) "a \<in> {0x038, 0x044, 0x080, 0x084, 0x090, 0x094, 0x0A0, 0x0A4}"
    | (plain) "a \<notin> {0x050, 0x070, 0x060, 0x064, 0x038, 0x044, 0x080, 0x084, 0x090, 0x094, 0x0A0, 0x0A4}"
    by auto
  then show ?thesis
  proof cases
    case notify
    with w inv show ?thesis by (auto simp: mmio_write_def elim!: bind_SomeE intro: transport_inv_notify)
  next
    case reset
    with w inv transport_inv_reset [OF inv] show ?thesis
      by (auto simp: mmio_write_def st split: if_splits prod.splits elim!: bind_SomeE)
  next
    case ack
    with w inv show ?thesis
      by (auto simp: mmio_write_def transport_inv_def set_irq_line_def Let_def
          split: if_splits elim!: bind_SomeE)
  next
    case queue
    with w inv show ?thesis
      by (auto simp: mmio_write_def transport_inv_update_queue elim!: bind_SomeE)
  next
    case plain
    with w inv show ?thesis
      by (auto simp: mmio_write_def transport_inv_def Let_def split: if_splits elim!: bind_SomeE)
  qed
qed

lemma tick_queues_keeps:
  "tick_queues ops i qs d m ist = Some (qs', d', m', ist') \<Longrightarrow>
    length qs' = length qs \<and> (ist \<noteq> 0 \<longrightarrow> ist' \<noteq> 0)"
proof (induction qs arbitrary: i d m ist qs')
  case (Cons q qs)
  then show ?case by (fastforce split: if_splits elim!: bind_SomeE)
qed simp

context virtio_device
begin

lemma transport_inv_tick:
  assumes "transport_inv n sel t lv cmds" "mmio_tick ops t m cmds = Some (t', m', cmds')"
  shows "transport_inv n sel t' lv cmds'"
proof (cases "status t AND 4 = 0")
  case False
  with assms(2) obtain qs d m1 ist where
    tq: "tick_queues ops 0 (queues t) (device t) m (interrupt_status t) = Some (qs, d, m1, ist)"
    by (auto simp: mmio_tick_def Let_def elim!: bind_SomeE)
  obtain d2 qs2 upd where upd: "dev_update ops d qs = (d2, qs2, upd)"
    by (metis prod_cases3)
  have "length qs2 = length qs"
    using update_setup [OF upd] by (simp add: list_all2_lengthD)
  with tick_queues_keeps [OF tq] assms False tq upd show ?thesis
    by (auto simp: mmio_tick_def transport_inv_def set_irq_line_def Let_def split: if_splits)
qed (use assms in \<open>simp add: mmio_tick_def\<close>)

lemma sys_step_inv:
  assumes "sys_step ops s s'" "transport_inv n sel (tr s) (line s) (irqs s)"
  shows "transport_inv n sel (tr s') (line s') (irqs s')"
  using assms
proof (induction rule: sys_step.induct)
  case (deliver s now later)
  then show ?case
    using line_level_handle [OF deliver(1)] by (simp add: transport_inv_def)
next
  case (other_device c s)
  then show ?case by (simp add: transport_inv_def)
qed (auto intro: transport_inv_read transport_inv_write transport_inv_tick)

lemma sys_reachable_inv:
  assumes "sys_reachable ops (start_sys ops d n sel m) s" "0 < n"
  shows "transport_inv n sel (tr s) (line s) (irqs s)"
  using assms(1)
proof (induction rule: sys_reachable.induct)
  case start
  then show ?case using assms(2)
    by (simp add: start_sys_def transport_inv_def transport_pass_guest_memory_def
        transport_irq_handler_def new_mmio_transport_def new_irq_handler_def)
next
  case (step s s')
  then show ?case by (blast intro: sys_step_inv)
qed

end

section \<open>Register accesses do not panic\<close>

text \<open>Without any assumption on the interrupt side: the selected queue exists, and stays in range.\<close>

definition sel_ok :: "'d mmio_transport \<Rightarrow> bool" where
  "sel_ok t \<longleftrightarrow> queue_sel t < length (queues t)"

lemma sel_ok_new: "0 < n \<Longrightarrow> sel_ok (new_mmio_transport d n sel)"
  by (simp add: sel_ok_def new_mmio_transport_def)

lemma sel_ok_read: "mmio_read ops t a k cmds = Some (bs, t', cmds') \<Longrightarrow> sel_ok t \<Longrightarrow> sel_ok t'"
  by (auto simp: mmio_read_def read_register_def sel_ok_def Let_def split: if_splits elim!: bind_SomeE)

lemma sel_ok_update_queue: "update_queue t f = Some t' \<Longrightarrow> sel_ok t' = sel_ok t"
  by (auto simp: update_queue_def sel_ok_def elim!: bind_SomeE)

lemma sel_ok_notify: "notify_queue ops t i m cmds = Some (t', m', cmds') \<Longrightarrow> sel_ok t' = sel_ok t"
  by (auto simp: notify_queue_def sel_ok_def Let_def split: if_splits elim!: bind_SomeE)

lemma sel_ok_reset: "reset_transport ops t cmds = (t', cmds') \<Longrightarrow> sel_ok t \<Longrightarrow> sel_ok t'"
  by (auto simp: reset_transport_def sel_ok_def Let_def)

lemma sel_ok_write:
  assumes ok: "sel_ok t" and w: "mmio_write ops t a data m cmds = Some (t', m', cmds')"
  shows "sel_ok t'"
proof -
  have st: "sel_ok (t1\<lparr>status := v\<rparr>) = sel_ok t1" for t1 v by (simp add: sel_ok_def)
  consider (notify) "a = 0x050" | (reset) "a = 0x070"
    | (queue) "a \<in> {0x038, 0x044, 0x080, 0x084, 0x090, 0x094, 0x0A0, 0x0A4}"
    | (plain) "a \<notin> {0x050, 0x070, 0x038, 0x044, 0x080, 0x084, 0x090, 0x094, 0x0A0, 0x0A4}"
    by auto
  then show ?thesis
  proof cases
    case notify
    with w ok show ?thesis by (auto simp: mmio_write_def sel_ok_notify elim!: bind_SomeE)
  next
    case reset
    with w ok sel_ok_reset [of ops t cmds] show ?thesis
      by (auto simp: mmio_write_def st split: if_splits prod.splits elim!: bind_SomeE)
  next
    case queue
    with w ok show ?thesis by (auto simp: mmio_write_def sel_ok_update_queue elim!: bind_SomeE)
  next
    case plain
    with w ok show ?thesis
      by (auto simp: mmio_write_def sel_ok_def Let_def split: if_splits elim!: bind_SomeE)
  qed
qed

lemma read_register_total: "sel_ok t \<Longrightarrow> \<exists>v t' c'. read_register ops t a cmds = Some (v, t', c')"
  by (auto simp: read_register_def sel_ok_def index_at_def Let_def)

lemma register_read_total:
  assumes "sel_ok t" "a < 0x100" "n \<le> 8"
  shows "\<exists>bs t' c'. mmio_read ops t a n cmds = Some (bs, t', c') \<and> length bs = n"
proof -
  obtain v t' c' where "read_register ops t a cmds = Some (v, t', c')"
    using read_register_total [OF assms(1)] by blast
  with assms(2,3) show ?thesis
    by (auto simp: mmio_read_def slice_of_def)
qed

context virtio_device_config
begin

lemma config_read_total:
  assumes "0x100 \<le> a"
  shows "\<exists>bs. mmio_read ops t a n cmds = Some (bs, t, cmds) \<and> length bs = n"
  using assms by (auto simp: mmio_read_def slice_of_def config_length Let_def)

end

context virtio_device
begin

lemma sel_ok_tick:
  assumes "sel_ok t" "mmio_tick ops t m cmds = Some (t', m', cmds')"
  shows "sel_ok t'"
proof (cases "status t AND 4 = 0")
  case False
  with assms(2) obtain qs d m1 ist where
    tq: "tick_queues ops 0 (queues t) (device t) m (interrupt_status t) = Some (qs, d, m1, ist)"
    by (auto simp: mmio_tick_def Let_def elim!: bind_SomeE)
  obtain d2 qs2 upd where upd: "dev_update ops d qs = (d2, qs2, upd)"
    by (metis prod_cases3)
  have "length qs2 = length qs"
    using update_setup [OF upd] by (simp add: list_all2_lengthD)
  with tick_queues_keeps [OF tq] assms False tq upd show ?thesis
    by (auto simp: mmio_tick_def sel_ok_def Let_def)
qed (use assms in \<open>simp add: mmio_tick_def\<close>)

end

lemma mmio_read_length: "mmio_read ops t a n cmds = Some (bs, t', cmds') \<Longrightarrow> length bs = n"
  by (auto simp: mmio_read_def Let_def slice_of_def split: if_splits elim!: bind_SomeE)

end
