(* ===== verification/Virtio_Simple.thy ===== *)
theory Virtio_Simple
  imports Virtio_Device
begin

text \<open>
  The three small virtio devices: the counter (\<^verbatim>\<open>devices/virtio/devices/counter.rs\<close>, read a word,
  answer its successor), the entropy source (\<^verbatim>\<open>rng.rs\<close>, fill a buffer) and the console stub
  (\<^verbatim>\<open>console.rs\<close>). Each provides the device interface; the first two also provide the interface of
  requests with footprints, from which the drain and confinement theorems of their queues follow.
\<close>

section \<open>Counter\<close>

record cnt_virtio =
  cnt_guest_memory :: bool

definition new_cnt :: cnt_virtio where
  "new_cnt = \<lparr>cnt_guest_memory = False\<rparr>"

definition cnt_body :: "profile \<Rightarrow> u16 \<Rightarrow> cnt_virtio loop_state \<Rightarrow> cnt_virtio loop_state option" where
  "cnt_body p head = (\<lambda>(d, q, m, did_work).
     do {
       desc \<leftarrow> get_descriptor p q m head;
       if desc_flags desc AND 2 = 0 \<or> desc_flags desc AND 1 = 0 then None
       else do {
         desc2 \<leftarrow> get_descriptor p q m (desc_next desc);
         input \<leftarrow> read_u32 p m (desc_buf desc);
         output \<leftarrow> add_chk p input 1;
         m \<leftarrow> write_u32 p m (desc_buf desc2) output;
         (q, m) \<leftarrow> push_used p q m head (desc_len desc);
         Some (d, q, m, True)
       }
     })"

definition cnt_tick ::
    "profile \<Rightarrow> cnt_virtio \<Rightarrow> usize \<Rightarrow> virtio_queue \<Rightarrow> guest_memory \<Rightarrow> cnt_virtio loop_state option" where
  "cnt_tick p d sel q m =
     (if sel \<noteq> 0 \<or> \<not> cnt_guest_memory d then Some (d, q, m, False)
      else while_pop (2 ^ 16) p (cnt_body p) (d, q, m, False))"

definition cnt_ops :: "profile \<Rightarrow> cnt_virtio virtio_ops" where
  "cnt_ops p =
     \<lparr>virtio_type = (\<lambda>d. 0x10), features = (\<lambda>d. 0), negotiate_features = default_negotiate_features,
      pass_memory = (\<lambda>d. d\<lparr>cnt_guest_memory := True\<rparr>), dev_tick = cnt_tick p,
      read_config = (\<lambda>d n. []), write_config = default_write_config,
      dev_update = (\<lambda>d qs. (d, qs, False)), dev_reset = default_reset\<rparr>"

section \<open>Entropy source\<close>

text \<open>\<^verbatim>\<open>vmm_sys_util::rand::rand_bytes\<close> is a parameter, a function of the number of bytes asked for so
  far and the length; its documented behaviour is that it returns that many bytes.\<close>

record rng_virtio =
  rng_guest_memory :: bool
  rng_drawn :: nat

type_synonym rand_source = "nat \<Rightarrow> usize \<Rightarrow> u8 list"

definition new_rng :: rng_virtio where
  "new_rng = \<lparr>rng_guest_memory = False, rng_drawn = 0\<rparr>"

definition get_random :: "rand_source \<Rightarrow> rng_virtio \<Rightarrow> usize \<Rightarrow> u8 list \<times> rng_virtio" where
  "get_random rand_bytes d len = (rand_bytes (rng_drawn d) len, d\<lparr>rng_drawn := rng_drawn d + len\<rparr>)"

definition rng_body ::
    "rand_source \<Rightarrow> profile \<Rightarrow> u16 \<Rightarrow> rng_virtio loop_state \<Rightarrow> rng_virtio loop_state option" where
  "rng_body rand_bytes p head = (\<lambda>(d, q, m, did_work).
     do {
       desc \<leftarrow> get_descriptor p q m head;
       if desc_flags desc AND 2 = 0 then None
       else do {
         let (data, d) = get_random rand_bytes d (unat (desc_len desc));
         m \<leftarrow> write_guest_memory p m (desc_buf desc) data;
         (q, m) \<leftarrow> push_used p q m head (desc_len desc);
         Some (d, q, m, True)
       }
     })"

definition rng_tick ::
    "rand_source \<Rightarrow> profile \<Rightarrow> rng_virtio \<Rightarrow> usize \<Rightarrow> virtio_queue \<Rightarrow> guest_memory \<Rightarrow>
     rng_virtio loop_state option" where
  "rng_tick rand_bytes p d sel q m =
     (if sel \<noteq> 0 \<or> \<not> rng_guest_memory d then Some (d, q, m, False)
      else while_pop (2 ^ 16) p (rng_body rand_bytes p) (d, q, m, False))"

definition rng_ops :: "rand_source \<Rightarrow> profile \<Rightarrow> rng_virtio virtio_ops" where
  "rng_ops rand_bytes p =
     \<lparr>virtio_type = (\<lambda>d. 0x04), features = (\<lambda>d. 0), negotiate_features = default_negotiate_features,
      pass_memory = (\<lambda>d. d\<lparr>rng_guest_memory := True\<rparr>), dev_tick = rng_tick rand_bytes p,
      read_config = (\<lambda>d n. []), write_config = default_write_config,
      dev_update = (\<lambda>d qs. (d, qs, False)), dev_reset = default_reset\<rparr>"

section \<open>Console\<close>

record console_virtio =
  console_guest_memory :: bool

definition new_console :: console_virtio where
  "new_console = \<lparr>console_guest_memory = False\<rparr>"

definition tick_rx_queue :: "console_virtio \<Rightarrow> virtio_queue \<Rightarrow> bool" where
  "tick_rx_queue d q = True"

definition tick_tx_queue :: "console_virtio \<Rightarrow> virtio_queue \<Rightarrow> bool" where
  "tick_tx_queue d q = True"

definition console_tick ::
    "console_virtio \<Rightarrow> usize \<Rightarrow> virtio_queue \<Rightarrow> guest_memory \<Rightarrow> console_virtio loop_state option" where
  "console_tick d sel q m =
     Some (d, q, m, if sel = 0 then tick_rx_queue d q else if sel = 1 then tick_tx_queue d q else False)"

definition console_ops :: "console_virtio virtio_ops" where
  "console_ops =
     \<lparr>virtio_type = (\<lambda>d. 0x3), features = (\<lambda>d. 0), negotiate_features = default_negotiate_features,
      pass_memory = (\<lambda>d. d\<lparr>console_guest_memory := True\<rparr>), dev_tick = console_tick,
      read_config = (\<lambda>d n. replicate n 0), write_config = default_write_config,
      dev_update = (\<lambda>d qs. (d, qs, False)), dev_reset = default_reset\<rparr>"

section \<open>The device interface\<close>

lemma cnt_body_setup: "cnt_body p h (d, q, m, w) = Some (d', q', m', w') \<Longrightarrow> same_setup q q'"
  by (auto simp: cnt_body_def split: if_splits elim!: bind_SomeE dest: push_used_setup)

lemma rng_body_setup: "rng_body rnd p h (d, q, m, w) = Some (d', q', m', w') \<Longrightarrow> same_setup q q'"
  by (auto simp: rng_body_def get_random_def split: if_splits elim!: bind_SomeE dest: push_used_setup)

lemma all_setup_refl [simp]: "list_all2 same_setup qs qs"
  by (simp add: list_all2_same)

interpretation cnt: virtio_device "cnt_ops p" for p
proof (unfold_locales, goal_cases)
  case (1 d i q m d' q' m' w)
  then show ?case
    by (auto simp: cnt_ops_def cnt_tick_def split: if_splits intro: while_pop_setup [OF cnt_body_setup])
qed (simp add: cnt_ops_def)

interpretation rng: virtio_device "rng_ops rnd p" for rnd p
proof (unfold_locales, goal_cases)
  case (1 d i q m d' q' m' w)
  then show ?case
    by (auto simp: rng_ops_def rng_tick_def split: if_splits intro: while_pop_setup [OF rng_body_setup])
qed (simp add: rng_ops_def)

interpretation console: virtio_device_config console_ops
  by unfold_locales (auto simp: console_ops_def console_tick_def)

section \<open>Requests of the counter\<close>

text \<open>A well-formed request: a readable word, chained to a writable one, and a value whose successor
  fits. The device reads the two descriptors and the word, and writes the answer.\<close>

definition cnt_in :: "virtio_queue \<Rightarrow> guest_memory \<Rightarrow> u16 \<Rightarrow> virtq_desc" where
  "cnt_in q m h = desc_at q m h"

definition cnt_out :: "virtio_queue \<Rightarrow> guest_memory \<Rightarrow> u16 \<Rightarrow> virtq_desc" where
  "cnt_out q m h = desc_at q m (desc_next (cnt_in q m h))"

definition cnt_value :: "virtio_queue \<Rightarrow> guest_memory \<Rightarrow> u16 \<Rightarrow> u32" where
  "cnt_value q m h = from_le (bytes_at m (desc_buf (cnt_in q m h)) 4)"

definition cnt_req :: "virtio_queue \<Rightarrow> guest_memory \<Rightarrow> u16 \<Rightarrow> bool" where
  "cnt_req q m h \<longleftrightarrow> desc_ok q m h \<and> desc_flags (cnt_in q m h) AND 2 \<noteq> 0 \<and>
     desc_flags (cnt_in q m h) AND 1 \<noteq> 0 \<and> desc_ok q m (desc_next (cnt_in q m h)) \<and>
     backed m (desc_buf (cnt_in q m h)) 4 \<and> backed m (desc_buf (cnt_out q m h)) 4 \<and>
     unat (cnt_value q m h) + 1 < 2 ^ 32"

definition cnt_reads :: "virtio_queue \<Rightarrow> guest_memory \<Rightarrow> u16 \<Rightarrow> nat set" where
  "cnt_reads q m h = desc_area q h \<union> desc_area q (desc_next (cnt_in q m h)) \<union>
     span (desc_buf (cnt_in q m h)) 4"

definition cnt_writes :: "virtio_queue \<Rightarrow> guest_memory \<Rightarrow> u16 \<Rightarrow> nat set" where
  "cnt_writes q m h = span (desc_buf (cnt_out q m h)) 4"

lemma cnt_stable:
  assumes "cnt_req q m h" "modifies S m m'" "S \<inter> cnt_reads q m h = {}" "same_setup q q'"
  shows "cnt_req q' m' h" "cnt_in q' m' h = cnt_in q m h" "cnt_out q' m' h = cnt_out q m h"
    "cnt_value q' m' h = cnt_value q m h" "desc_area q' i = desc_area q i"
proof -
  note keeps = desc_keeps [OF assms(4)]
  have d1: "S \<inter> desc_area q h = {}" and d2: "S \<inter> desc_area q (desc_next (cnt_in q m h)) = {}"
    and bf: "span (desc_buf (cnt_in q m h)) 4 \<inter> S = {}"
    using assms(3) by (auto simp: cnt_reads_def)
  from assms(1) have ok: "desc_ok q m h" "desc_ok q m (desc_next (cnt_in q m h))"
    and bk: "backed m (desc_buf (cnt_in q m h)) 4"
    by (auto simp: cnt_req_def)
  show i: "cnt_in q' m' h = cnt_in q m h"
    using keeps(2) [OF ok(1) assms(2) d1] by (simp add: cnt_in_def)
  show o2: "cnt_out q' m' h = cnt_out q m h"
    using keeps(2) [OF ok(2) assms(2) d2] i by (simp add: cnt_out_def)
  show v: "cnt_value q' m' h = cnt_value q m h"
    using modifies_bytes [OF assms(2) bk bf] i by (simp add: cnt_value_def)
  show "desc_area q' i = desc_area q i" by (rule keeps(1))
  show "cnt_req q' m' h"
    using assms(1) keeps(3) [OF ok(1) assms(2) d1] keeps(3) [OF ok(2) assms(2) d2]
    by (simp add: cnt_req_def i o2 v modifies_backed [OF assms(2)])
qed

lemma cnt_body_serves:
  assumes "cnt_req q m h" "used_ok q m" "q_size q \<noteq> 0"
  obtains m1 m' where
    "cnt_body p h (d, q, m, w) = Some (d, q\<lparr>last_used_idx := last_used_idx q + 1\<rparr>, m', True)"
    "modifies (cnt_writes q m h) m m1" "modifies (used_area q) m1 m'"
    "bytes_at m1 (desc_buf (cnt_out q m h)) 4 = le32 (cnt_value q m h + 1)"
    "used_entry q m' (last_used_idx q) = (ucast h, desc_len (cnt_in q m h))"
    "used_idx q m' = last_used_idx q + 1"
proof -
  from assms have wf: "wf_mem m" and ok: "desc_ok q m h" "desc_ok q m (desc_next (cnt_in q m h))"
    and bk: "backed m (desc_buf (cnt_in q m h)) 4" "backed m (desc_buf (cnt_out q m h)) 4"
    and fl: "desc_flags (cnt_in q m h) AND 2 \<noteq> 0" "desc_flags (cnt_in q m h) AND 1 \<noteq> 0"
    and fit: "unat (cnt_value q m h) + 1 < 2 ^ 32"
    by (auto simp: cnt_req_def used_ok_def)
  note desc = get_descriptor_spec [OF ok(1), folded cnt_in_def] get_descriptor_spec [OF ok(2), folded cnt_out_def]
  have rd: "read_u32 p m (desc_buf (cnt_in q m h)) = Some (cnt_value q m h)"
    by (simp add: read_u32_def read_word_backed [OF wf bk(1)] cnt_value_def)
  have add: "add_chk p (cnt_value q m h) 1 = Some (cnt_value q m h + 1)"
    using fit by (simp add: add_chk_fits)
  obtain m1 where m1: "write_u32 p m (desc_buf (cnt_out q m h)) (cnt_value q m h + 1) = Some m1"
      "modifies (cnt_writes q m h) m m1"
      "bytes_at m1 (desc_buf (cnt_out q m h)) 4 = le32 (cnt_value q m h + 1)"
    using write_mapped_ok [OF wf, of "desc_buf (cnt_out q m h)" "le32 (cnt_value q m h + 1)" p] bk(2)
    by (auto simp: write_u32_def cnt_writes_def)
  obtain m' where m': "push_used p q m1 h (desc_len (cnt_in q m h))
        = Some (q\<lparr>last_used_idx := last_used_idx q + 1\<rparr>, m')"
      "modifies (used_area q) m1 m'"
      "used_entry q m' (last_used_idx q) = (ucast h, desc_len (cnt_in q m h))"
      "used_idx q m' = last_used_idx q + 1"
    by (rule push_used_after [OF assms(2,3) m1(2)])
  have "cnt_body p h (d, q, m, w) = Some (d, q\<lparr>last_used_idx := last_used_idx q + 1\<rparr>, m', True)"
    using desc rd add m1(1) m'(1) fl by (simp add: cnt_body_def)
  with m1 m' show thesis by (intro that)
qed

definition cnt_answered :: "virtio_queue \<Rightarrow> guest_memory \<Rightarrow> u16 \<Rightarrow> guest_memory \<Rightarrow> bool" where
  "cnt_answered q m h m' \<longleftrightarrow> bytes_at m' (desc_buf (cnt_out q m h)) 4 = le32 (cnt_value q m h + 1)"

interpretation cnt_loop: footprint_service p "cnt_body p" "\<lambda>_ _. True" cnt_req cnt_reads cnt_writes cnt_answered
  for p
proof (unfold_locales, goal_cases)
  case (1 q m h S m' q')
  then show ?case using cnt_stable [OF 1] by (simp add: cnt_reads_def cnt_writes_def)
next
  case (2 k d q m h w)
  obtain m1 m' where b: "cnt_body p h (d, q, m, w) = Some (d, q\<lparr>last_used_idx := last_used_idx q + 1\<rparr>, m', True)"
      "modifies (cnt_writes q m h) m m1" "modifies (used_area q) m1 m'"
    by (rule cnt_body_serves [OF 2(2-4), of p d w])
  have "modifies (used_area q \<union> cnt_writes q m h) m m'"
    using modifies_trans [OF b(2,3)] by (simp add: Un_commute)
  with b(1) show ?case by (auto simp: same_setup_def)
next
  case (3 k d q m h w d' q' m' w')
  obtain m1 m2 where b: "cnt_body p h (d, q, m, w) = Some (d, q\<lparr>last_used_idx := last_used_idx q + 1\<rparr>, m2, True)"
      "modifies (cnt_writes q m h) m m1" "modifies (used_area q) m1 m2"
      "bytes_at m1 (desc_buf (cnt_out q m h)) 4 = le32 (cnt_value q m h + 1)"
    by (rule cnt_body_serves [OF 3(2-4), of p d w])
  have "backed m1 (desc_buf (cnt_out q m h)) 4"
    using 3(2) b(2) by (simp add: cnt_req_def modifies_backed)
  from modifies_bytes [OF b(3) this] 3(5,6) b(1,4) show ?case
    by (auto simp: cnt_answered_def cnt_writes_def Int_commute)
next
  case (4 q m h m1 S T m2)
  then have "backed m1 (desc_buf (cnt_out q m h)) 4" by (simp add: cnt_req_def modifies_backed)
  from modifies_bytes [OF 4(4) this] 4(2,5) show ?case
    by (auto simp: cnt_answered_def cnt_writes_def Int_commute)
next
  case (5 q m h S m' q' m2)
  then show ?case using cnt_stable [OF 5(1-4)] by (simp add: cnt_answered_def)
qed

section \<open>Requests of the entropy source\<close>

definition rng_req :: "virtio_queue \<Rightarrow> guest_memory \<Rightarrow> u16 \<Rightarrow> bool" where
  "rng_req q m h \<longleftrightarrow> desc_ok q m h \<and> desc_flags (desc_at q m h) AND 2 \<noteq> 0 \<and>
     backed m (desc_buf (desc_at q m h)) (unat (desc_len (desc_at q m h)))"

definition rng_reads :: "virtio_queue \<Rightarrow> guest_memory \<Rightarrow> u16 \<Rightarrow> nat set" where
  "rng_reads q m h = desc_area q h"

definition rng_writes :: "virtio_queue \<Rightarrow> guest_memory \<Rightarrow> u16 \<Rightarrow> nat set" where
  "rng_writes q m h = span (desc_buf (desc_at q m h)) (unat (desc_len (desc_at q m h)))"

definition rand_ok :: "rand_source \<Rightarrow> bool" where
  "rand_ok rnd \<longleftrightarrow> (\<forall>k n. length (rnd k n) = n)"

lemma rng_stable:
  assumes "rng_req q m h" "modifies S m m'" "S \<inter> rng_reads q m h = {}" "same_setup q q'"
  shows "rng_req q' m' h" "desc_at q' m' h = desc_at q m h" "rng_reads q' m' h = rng_reads q m h"
proof -
  from assms have d: "desc_ok q m h" "S \<inter> desc_area q h = {}"
    by (auto simp: rng_req_def rng_reads_def)
  note keeps = desc_keeps [OF assms(4)]
  show e: "desc_at q' m' h = desc_at q m h" by (rule keeps(2) [OF d(1) assms(2) d(2)])
  show "rng_reads q' m' h = rng_reads q m h" by (simp add: rng_reads_def keeps(1))
  show "rng_req q' m' h"
    using assms(1) keeps(3) [OF d(1) assms(2) d(2)]
    by (simp add: rng_req_def e modifies_backed [OF assms(2)])
qed

lemma rng_body_serves:
  assumes "rand_ok rnd" "rng_req q m h" "used_ok q m" "q_size q \<noteq> 0"
  defines "desc \<equiv> desc_at q m h"
  defines "n \<equiv> unat (desc_len desc)"
  obtains m1 m' where
    "rng_body rnd p h (d, q, m, w) = Some (d\<lparr>rng_drawn := rng_drawn d + n\<rparr>,
       q\<lparr>last_used_idx := last_used_idx q + 1\<rparr>, m', True)"
    "modifies (rng_writes q m h) m m1" "modifies (used_area q) m1 m'"
    "bytes_at m1 (desc_buf desc) n = rnd (rng_drawn d) n"
    "used_entry q m' (last_used_idx q) = (ucast h, desc_len desc)"
    "used_idx q m' = last_used_idx q + 1"
proof -
  from assms have wf: "wf_mem m" and ok: "desc_ok q m h" and fl: "desc_flags desc AND 2 \<noteq> 0"
    and bk: "backed m (desc_buf desc) n" and len: "length (rnd (rng_drawn d) n) = n"
    by (auto simp: rng_req_def used_ok_def rand_ok_def)
  obtain m1 where m1: "write_guest_memory p m (desc_buf desc) (rnd (rng_drawn d) n) = Some m1"
      "modifies (rng_writes q m h) m m1" "bytes_at m1 (desc_buf desc) n = rnd (rng_drawn d) n"
    using write_mapped_ok [OF wf, of "desc_buf desc" "rnd (rng_drawn d) n" p] bk len
    by (auto simp: write_guest_memory_def rng_writes_def desc_def n_def)
  obtain m' where m': "push_used p q m1 h (desc_len desc) = Some (q\<lparr>last_used_idx := last_used_idx q + 1\<rparr>, m')"
      "modifies (used_area q) m1 m'"
      "used_entry q m' (last_used_idx q) = (ucast h, desc_len desc)"
      "used_idx q m' = last_used_idx q + 1"
    by (rule push_used_after [OF assms(3,4) m1(2)])
  have "rng_body rnd p h (d, q, m, w) = Some (d\<lparr>rng_drawn := rng_drawn d + n\<rparr>,
      q\<lparr>last_used_idx := last_used_idx q + 1\<rparr>, m', True)"
    using get_descriptor_spec [OF ok] m1(1) m'(1) fl
    by (simp add: rng_body_def get_random_def desc_def n_def)
  with m1 m' show thesis by (intro that)
qed

definition rng_answered :: "rand_source \<Rightarrow> virtio_queue \<Rightarrow> guest_memory \<Rightarrow> u16 \<Rightarrow> guest_memory \<Rightarrow> bool" where
  "rng_answered rnd q m h m' \<longleftrightarrow>
     (\<exists>k. bytes_at m' (desc_buf (desc_at q m h)) (unat (desc_len (desc_at q m h))) =
       rnd k (unat (desc_len (desc_at q m h))))"

interpretation rng_loop: footprint_service p "rng_body rnd p" "\<lambda>_ _. rand_ok rnd" rng_req rng_reads rng_writes
    "rng_answered rnd" for p rnd
proof (unfold_locales, goal_cases)
  case (1 q m h S m' q')
  then show ?case using rng_stable [OF 1] by (simp add: rng_writes_def)
next
  case (2 k d q m h w)
  obtain d' m1 m' where b:
      "rng_body rnd p h (d, q, m, w) = Some (d', q\<lparr>last_used_idx := last_used_idx q + 1\<rparr>, m', True)"
      "modifies (rng_writes q m h) m m1" "modifies (used_area q) m1 m'"
    using rng_body_serves [OF 2(1-4), of p d w] by metis
  have "modifies (used_area q \<union> rng_writes q m h) m m'"
    using modifies_trans [OF b(2,3)] by (simp add: Un_commute)
  with b(1) 2(1) show ?case by (auto simp: same_setup_def)
next
  case (3 k d q m h w d' q' m' w')
  let ?a = "desc_buf (desc_at q m h)" and ?n = "unat (desc_len (desc_at q m h))"
  obtain m1 m2 where b:
      "rng_body rnd p h (d, q, m, w) = Some (d\<lparr>rng_drawn := rng_drawn d + ?n\<rparr>,
         q\<lparr>last_used_idx := last_used_idx q + 1\<rparr>, m2, True)"
      "modifies (rng_writes q m h) m m1" "modifies (used_area q) m1 m2" "bytes_at m1 ?a ?n = rnd (rng_drawn d) ?n"
    using rng_body_serves [OF 3(1-4), of p d w] by metis
  have "backed m1 ?a ?n" using 3(2) b(2) by (simp add: rng_req_def modifies_backed)
  from modifies_bytes [OF b(3) this] 3(5,6) b(1,4) show ?case
    by (auto simp: rng_answered_def rng_writes_def Int_commute)
next
  case (4 q m h m1 S T m2)
  then have "backed m1 (desc_buf (desc_at q m h)) (unat (desc_len (desc_at q m h)))"
    by (simp add: rng_req_def modifies_backed)
  from modifies_bytes [OF 4(4) this] 4(2,5) show ?case
    by (auto simp: rng_answered_def rng_writes_def Int_commute)
next
  case (5 q m h S m' q' m2)
  then show ?case using rng_stable(2) [OF 5(1-4)] by (simp add: rng_answered_def)
qed

section \<open>The example queue, seen by the two devices\<close>

lemma demo_desc:
  "desc_at demo_queue demo_mem 0 = \<lparr>desc_buf = 56, desc_len = 4, desc_flags = 3, desc_next = 1\<rparr>"
  "desc_at demo_queue demo_mem 1 = \<lparr>desc_buf = 60, desc_len = 4, desc_flags = 2, desc_next = 0\<rparr>"
  "desc_at demo_queue demo_mem 2 = \<lparr>desc_buf = 0x10000, desc_len = 0, desc_flags = 0, desc_next = 0\<rparr>"
  "from_le (bytes_at demo_mem 56 4) = (41 :: u32)"
  by code_simp+

lemma demo_areas:
  "avail_area demo_queue = {32..<38}" "used_area demo_queue = {40..<52}"
  "desc_area demo_queue 0 = {0..<16}" "desc_area demo_queue 1 = {16..<32}"
  by (simp_all add: avail_area_def used_area_def desc_area_def desc_base_def span_def avail_bytes_def
      used_bytes_def demo_queue_def)

lemma demo_cnt:
  "cnt_reads demo_queue demo_mem 0 = {0..<16} \<union> {16..<32} \<union> {56..<60}"
  "cnt_writes demo_queue demo_mem 0 = {60..<64}" "cnt_req demo_queue demo_mem 0"
  by (simp_all add: cnt_reads_def cnt_writes_def cnt_req_def cnt_in_def cnt_out_def cnt_value_def demo_desc
      demo_areas demo_desc_ok demo_backed span_def)

lemma demo_cnt_driver: "driver_ok cnt_req cnt_reads cnt_writes demo_queue demo_mem"
  by (auto simp: driver_ok_def demo_ok demo_pending footprints_ok_def demo_cnt demo_areas)

lemma demo_rng:
  "rng_reads demo_queue demo_mem 0 = {0..<16}"
  "rng_writes demo_queue demo_mem 0 = {56..<60}" "rng_req demo_queue demo_mem 0"
  by (simp_all add: rng_reads_def rng_writes_def rng_req_def demo_desc demo_areas demo_desc_ok demo_backed span_def)

lemma demo_rng_driver: "driver_ok rng_req rng_reads rng_writes demo_queue demo_mem"
  by (auto simp: driver_ok_def demo_ok demo_pending footprints_ok_def demo_rng demo_areas)

section \<open>Properties\<close>

text \<open>C7: A tick of the counter device on a queue whose driver keeps to the contract returns, serves
  every pending request exactly once, leaves in each answer buffer the successor of the word that was
  read, and touches no guest memory but the answer buffers and the used ring.\<close>

theorem cnt_tick_answers_all:
  assumes "cnt_guest_memory d" "driver_ok cnt_req cnt_reads cnt_writes q m"
    and "answers_apart cnt_writes q m (pending q m)"
  shows "\<exists>d' q' m' w. cnt_tick p d 0 q m = Some (d', q', m', w) \<and> pending q' m' = [] \<and>
    last_used_idx q' = last_used_idx q + of_nat (length (pending q m)) \<and>
    (\<forall>h \<in> set (pending q m). cnt_answered q m h m') \<and>
    modifies (used_area q \<union> (\<Union>h \<in> set (pending q m). cnt_writes q m h)) m m'"
proof -
  obtain d' q' m' w where r: "while_pop (2 ^ 16) p (cnt_body p) (d, q, m, False) = Some (d', q', m', w)"
      "pending q' m' = []" "last_used_idx q' = last_used_idx q + of_nat (length (pending q m))"
    using cnt_loop.while_pop_enough_fuel [where d = d and q = q and m = m and p = p and w = False] assms(2) by auto
  show ?thesis
    using r assms(1) cnt_loop.while_pop_answers [OF _ assms(2) pending_count_less assms(3) r(1)]
      cnt_loop.while_pop_confined [OF _ assms(2) pending_count_less r(1)]
    by (simp add: cnt_tick_def)
qed

theorem cnt_tick_answers_all_witness:
  "\<exists>d' q' m' w. cnt_tick Dev \<lparr>cnt_guest_memory = True\<rparr> 0 demo_queue demo_mem = Some (d', q', m', w) \<and>
     pending q' m' = [] \<and> bytes_at m' 60 4 = le32 42"
proof -
  have "answers_apart cnt_writes demo_queue demo_mem (pending demo_queue demo_mem)"
    by (simp add: answers_apart_def demo_pending demo_cnt demo_areas)
  with cnt_tick_answers_all [of "\<lparr>cnt_guest_memory = True\<rparr>", OF _ demo_cnt_driver, of Dev] show ?thesis
    by (auto simp: demo_pending cnt_answered_def cnt_out_def cnt_in_def cnt_value_def demo_desc)
qed

text \<open>C8: A tick of the entropy device returns, serves every pending buffer exactly once, fills each
  with bytes of the random source and nothing else, and touches no other guest memory.\<close>

theorem rng_tick_answers_all:
  assumes "rand_ok rnd" "rng_guest_memory d" "driver_ok rng_req rng_reads rng_writes q m"
    and "answers_apart rng_writes q m (pending q m)"
  shows "\<exists>d' q' m' w. rng_tick rnd p d 0 q m = Some (d', q', m', w) \<and> pending q' m' = [] \<and>
    last_used_idx q' = last_used_idx q + of_nat (length (pending q m)) \<and>
    (\<forall>h \<in> set (pending q m). rng_answered rnd q m h m') \<and>
    modifies (used_area q \<union> (\<Union>h \<in> set (pending q m). rng_writes q m h)) m m'"
proof -
  obtain d' q' m' w where r: "while_pop (2 ^ 16) p (rng_body rnd p) (d, q, m, False) = Some (d', q', m', w)"
      "pending q' m' = []" "last_used_idx q' = last_used_idx q + of_nat (length (pending q m))"
    using rng_loop.while_pop_enough_fuel
        [where rnd = rnd and d = d and q = q and m = m and p = p and w = False] assms(1,3) by auto
  show ?thesis
    using r assms(2) rng_loop.while_pop_answers [OF assms(1,3) pending_count_less assms(4) r(1)]
      rng_loop.while_pop_confined [OF assms(1,3) pending_count_less r(1)]
    by (simp add: rng_tick_def)
qed

theorem rng_tick_answers_all_witness:
  "\<exists>d' q' m' w. rng_tick (\<lambda>k n. replicate n 7) Dev \<lparr>rng_guest_memory = True, rng_drawn = 0\<rparr> 0 demo_queue demo_mem =
     Some (d', q', m', w) \<and> pending q' m' = [] \<and> bytes_at m' 56 4 = replicate 4 7"
proof -
  have "answers_apart rng_writes demo_queue demo_mem (pending demo_queue demo_mem)"
    by (simp add: answers_apart_def demo_pending demo_rng demo_areas)
  moreover have "rand_ok (\<lambda>k n. replicate n 7)" by (simp add: rand_ok_def)
  ultimately show ?thesis
    using rng_tick_answers_all [of "\<lambda>k n. replicate n 7" "\<lparr>rng_guest_memory = True, rng_drawn = 0\<rparr>",
        OF _ _ demo_rng_driver, of Dev]
    by (auto simp: demo_pending rng_answered_def demo_desc)
qed

text \<open>A request that the guest has malformed stops the process: a head without the flags the device
  asks for, and a counter word at its maximum in the dev profile, make the body panic.\<close>

theorem malformed_request_panics:
  assumes "desc_ok q m h"
  shows "(desc_flags (desc_at q m h) AND 2 = 0 \<longrightarrow>
      cnt_body p h (d, q, m, w) = None \<and> rng_body rnd p h (d2, q, m, w) = None) \<and>
    (desc_flags (desc_at q m h) AND 1 = 0 \<longrightarrow> cnt_body p h (d, q, m, w) = None) \<and>
    (desc_ok q m (desc_next (desc_at q m h)) \<longrightarrow> backed m (desc_buf (desc_at q m h)) 4 \<longrightarrow>
      cnt_value q m h = 0xFFFFFFFF \<longrightarrow> cnt_body Dev h (d, q, m, w) = None)"
proof -
  from assms have wf: "wf_mem m" by (simp add: desc_ok_def)
  note g = get_descriptor_spec [OF assms]
  have "cnt_body Dev h (d, q, m, w) = None"
    if "desc_ok q m (desc_next (desc_at q m h))" "backed m (desc_buf (desc_at q m h)) 4"
      "cnt_value q m h = 0xFFFFFFFF"
    using that g get_descriptor_spec [OF that(1)] wf
    by (simp add: cnt_body_def read_u32_def read_word_backed cnt_value_def cnt_in_def add_chk_def)
  then show ?thesis using g by (auto simp: cnt_body_def rng_body_def)
qed

end
