(* ===== verification/Virtio_Blk.thy ===== *)
theory Virtio_Blk
  imports Virtio_Device
begin

text \<open>
  The block device, \<^verbatim>\<open>src/devices/virtio/devices/blk.rs\<close>: requests of a header, a data buffer and a
  status byte against a disk image, served in batches of at most 64. The image is its bytes and the
  file cursor; where the host may fail (a seek, a read, a write that stops part of the way) the
  outcome is a parameter.
\<close>

definition SECTOR_SIZE :: u64 where "SECTOR_SIZE = 512"
definition MAX_BATCH :: usize where "MAX_BATCH = 64"

section \<open>The disk image\<close>

record host_file =
  file_bytes :: "u8 list"
  file_pos :: nat

text \<open>\<open>seek_err\<close> and \<open>read_err\<close> say whether the call fails on the host; \<open>write_stop\<close> is \<open>None\<close> when a
  \<^verbatim>\<open>write_all\<close> succeeds and otherwise the number of bytes it has stored when it fails.\<close>

record disk_env =
  seek_err :: "u64 \<Rightarrow> bool"
  read_err :: "nat \<Rightarrow> nat \<Rightarrow> bool"
  write_stop :: "nat \<Rightarrow> u8 list \<Rightarrow> nat option"

definition file_seek :: "disk_env \<Rightarrow> host_file \<Rightarrow> u64 \<Rightarrow> bool \<times> host_file" where
  "file_seek env f off = (if seek_err env off then (False, f) else (True, f\<lparr>file_pos := unat off\<rparr>))"

definition file_read_exact :: "disk_env \<Rightarrow> host_file \<Rightarrow> usize \<Rightarrow> u8 list option \<times> host_file" where
  "file_read_exact env f n =
     (if read_err env (file_pos f) n then (None, f)
      else if n = 0 \<or> file_pos f + n \<le> length (file_bytes f)
      then (Some (take n (drop (file_pos f) (file_bytes f))), f\<lparr>file_pos := file_pos f + n\<rparr>)
      else (None, f\<lparr>file_pos := max (file_pos f) (length (file_bytes f))\<rparr>))"

definition store_bytes :: "u8 list \<Rightarrow> nat \<Rightarrow> u8 list \<Rightarrow> u8 list" where
  "store_bytes bs pos data =
     (if data = [] then bs else copy_at (bs @ replicate (pos - length bs) 0) pos data)"

definition file_write_all :: "disk_env \<Rightarrow> host_file \<Rightarrow> u8 list \<Rightarrow> bool \<times> host_file" where
  "file_write_all env f data =
     (let stop = write_stop env (file_pos f) data;
          done_bytes = (case stop of None \<Rightarrow> data | Some k \<Rightarrow> take k data)
      in (stop = None, \<lparr>file_bytes = store_bytes (file_bytes f) (file_pos f) done_bytes,
           file_pos = file_pos f + length done_bytes\<rparr>))"

section \<open>Request header and configuration space\<close>

record blk_request =
  rqst_type :: bool
  sector :: u64

definition new_blk_request :: "profile \<Rightarrow> u64 \<Rightarrow> guest_memory \<Rightarrow> blk_request option" where
  "new_blk_request p base_ptr m =
     do {
       t \<leftarrow> read_u32 p m base_ptr;
       a \<leftarrow> add_chk p base_ptr 8;
       s \<leftarrow> read_u64 p m a;
       Some \<lparr>rqst_type = (t \<noteq> 0), sector = s\<rparr>
     }"

record virtio_blk_config =
  capacity :: u64
  size_max :: u32
  seg_max :: u32
  blk_size :: u32

definition new_blk_config :: "u64 \<Rightarrow> u32 \<Rightarrow> u32 \<Rightarrow> u32 \<Rightarrow> virtio_blk_config" where
  "new_blk_config cap szm sgm bs =
     \<lparr>capacity = cap div ucast bs, size_max = szm, seg_max = sgm, blk_size = bs\<rparr>"

definition blk_config_to_bytes :: "virtio_blk_config \<Rightarrow> usize \<Rightarrow> u8 list" where
  "blk_config_to_bytes c len =
     vec_resize (le64 (capacity c) @ le32 (size_max c) @ le32 (seg_max c) @ le32 (blk_size c)) len 0"

record blk_virtio =
  blk_guest_memory :: bool
  blk_file :: host_file
  blk_config :: virtio_blk_config

definition new_blk :: "u8 list \<Rightarrow> blk_virtio" where
  "new_blk img =
     \<lparr>blk_guest_memory = False, blk_file = \<lparr>file_bytes = img, file_pos = 0\<rparr>,
      blk_config = new_blk_config (of_nat (length img)) (1024 * 1024) 128 512\<rparr>"

section \<open>Serving a request\<close>

text \<open>\<^verbatim>\<open>queue.push_used(guest_memory, head, 0); continue;\<close>\<close>

definition blk_skip :: "profile \<Rightarrow> u16 \<Rightarrow> blk_virtio loop_state \<Rightarrow> blk_virtio loop_state option" where
  "blk_skip p head = (\<lambda>(d, q, m, did_work).
     do { (q, m) \<leftarrow> push_used p q m head 0; Some (d, q, m, did_work) })"

definition blk_read ::
    "disk_env \<Rightarrow> profile \<Rightarrow> u16 \<Rightarrow> blk_request \<Rightarrow> virtq_desc \<Rightarrow> virtq_desc \<Rightarrow> blk_virtio loop_state \<Rightarrow>
     blk_virtio loop_state option" where
  "blk_read env p head request data st = (\<lambda>(d, q, m, did_work).
     do {
       off \<leftarrow> mul_chk p (sector request) SECTOR_SIZE;
       let (ok, f) = file_seek env (blk_file d) off;
       if \<not> ok then blk_skip p head (d\<lparr>blk_file := f\<rparr>, q, m, did_work)
       else do {
         let (res, f) = file_read_exact env f (unat (desc_len data));
         m \<leftarrow> (case res of
                 Some buf \<Rightarrow> do { m \<leftarrow> write_guest_memory p m (desc_buf data) buf; write_u8 p m (desc_buf st) 0 }
               | None \<Rightarrow> write_u8 p m (desc_buf st) 1);
         (q, m) \<leftarrow> push_used p q m head (desc_len data);
         Some (d\<lparr>blk_file := f\<rparr>, q, m, True)
       }
     })"

definition blk_write ::
    "disk_env \<Rightarrow> profile \<Rightarrow> u16 \<Rightarrow> blk_request \<Rightarrow> virtq_desc \<Rightarrow> virtq_desc \<Rightarrow> blk_virtio loop_state \<Rightarrow>
     blk_virtio loop_state option" where
  "blk_write env p head request data st = (\<lambda>(d, q, m, did_work).
     do {
       buf \<leftarrow> read_guest_memory p m (desc_buf data) (replicate (unat (desc_len data)) 0);
       off \<leftarrow> mul_chk p (sector request) 512;
       let (ok, f) = file_seek env (blk_file d) off;
       if \<not> ok then blk_skip p head (d\<lparr>blk_file := f\<rparr>, q, m, did_work)
       else do {
         let (stored, f) = file_write_all env f buf;
         m \<leftarrow> write_u8 p m (desc_buf st) (if stored then 0 else 1);
         (q, m) \<leftarrow> push_used p q m head (desc_len data);
         Some (d\<lparr>blk_file := f\<rparr>, q, m, True)
       }
     })"

definition blk_body ::
    "disk_env \<Rightarrow> profile \<Rightarrow> u16 \<Rightarrow> blk_virtio loop_state \<Rightarrow> blk_virtio loop_state option" where
  "blk_body env p head = (\<lambda>(d, q, m, did_work).
     do {
       header \<leftarrow> get_descriptor p q m head;
       if desc_flags header AND 1 = 0 \<or> desc_len header \<noteq> 16 then blk_skip p head (d, q, m, did_work)
       else do {
         request \<leftarrow> new_blk_request p (desc_buf header) m;
         data_section \<leftarrow> get_descriptor p q m (desc_next header);
         let flags_ok = (if rqst_type request then desc_flags data_section AND 2 = 0
                         else desc_flags data_section AND 2 \<noteq> 0);
         if \<not> flags_ok then blk_skip p head (d, q, m, did_work)
         else do {
           status_byte \<leftarrow> get_descriptor p q m (desc_next data_section);
           if desc_flags status_byte AND 2 = 0 then blk_skip p head (d, q, m, did_work)
           else if rqst_type request
           then blk_write env p head request data_section status_byte (d, q, m, did_work)
           else blk_read env p head request data_section status_byte (d, q, m, did_work)
         }
       }
     })"

definition blk_tick ::
    "disk_env \<Rightarrow> profile \<Rightarrow> blk_virtio \<Rightarrow> usize \<Rightarrow> virtio_queue \<Rightarrow> guest_memory \<Rightarrow>
     blk_virtio loop_state option" where
  "blk_tick env p d sel q m =
     (if sel \<noteq> 0 then Some (d, q, m, False)
      else if \<not> blk_guest_memory d then Some (d, q, m, False)
      else batch_pop MAX_BATCH p (blk_body env p) (d, q, m, False))"

definition blk_ops :: "disk_env \<Rightarrow> profile \<Rightarrow> blk_virtio virtio_ops" where
  "blk_ops env p =
     \<lparr>virtio_type = (\<lambda>d. 0x02), features = (\<lambda>d. 0), negotiate_features = default_negotiate_features,
      pass_memory = (\<lambda>d. d\<lparr>blk_guest_memory := True\<rparr>), dev_tick = blk_tick env p,
      read_config = (\<lambda>d n. blk_config_to_bytes (blk_config d) n), write_config = default_write_config,
      dev_update = (\<lambda>d qs. (d, qs, False)), dev_reset = default_reset\<rparr>"

section \<open>The device interface\<close>

lemma blk_skip_setup: "blk_skip p h (d, q, m, w) = Some (d', q', m', w') \<Longrightarrow> same_setup q q'"
  by (auto simp: blk_skip_def elim!: bind_SomeE dest: push_used_setup)

lemma blk_read_setup: "blk_read env p h r a s (d, q, m, w) = Some (d', q', m', w') \<Longrightarrow> same_setup q q'"
  by (auto simp: blk_read_def split: if_splits prod.splits elim!: bind_SomeE
      dest: push_used_setup blk_skip_setup)

lemma blk_write_setup: "blk_write env p h r a s (d, q, m, w) = Some (d', q', m', w') \<Longrightarrow> same_setup q q'"
  by (auto simp: blk_write_def split: if_splits prod.splits elim!: bind_SomeE
      dest: push_used_setup blk_skip_setup)

lemma blk_body_setup: "blk_body env p h (d, q, m, w) = Some (d', q', m', w') \<Longrightarrow> same_setup q q'"
  by (auto simp: blk_body_def Let_def split: if_splits elim!: bind_SomeE
      dest!: blk_skip_setup blk_read_setup blk_write_setup)

interpretation blk: virtio_device_config "blk_ops env p" for env p
proof (unfold_locales, goal_cases)
  case (1 d i q m d' q' m' w)
  then show ?case
    by (auto simp: blk_ops_def blk_tick_def split: if_splits intro: batch_pop_setup [OF blk_body_setup])
qed (simp_all add: blk_ops_def blk_config_to_bytes_def list_all2_same)

section \<open>Specification: what a head asks for\<close>

text \<open>The request behind a head, read off the memory: either one that the device gives back unserved, or
  a transfer between the image and the guest, with its data buffer and its status byte.\<close>

datatype blk_plan = Skip | Transfer (to_disk: bool) (first_sector: u64) (data_buf: virtq_desc) (status_at: u64)

definition blk_header :: "guest_memory \<Rightarrow> u64 \<Rightarrow> blk_request" where
  "blk_header m a = \<lparr>rqst_type = (from_le (bytes_at m a 4) \<noteq> (0 :: u32)), sector = from_le (bytes_at m (a + 8) 8)\<rparr>"

definition blk_plan :: "virtio_queue \<Rightarrow> guest_memory \<Rightarrow> u16 \<Rightarrow> blk_plan" where
  "blk_plan q m h =
     (let hd = desc_at q m h; rq = blk_header m (desc_buf hd); dat = desc_at q m (desc_next hd);
          st = desc_at q m (desc_next dat)
      in if desc_flags hd AND 1 = 0 \<or> desc_len hd \<noteq> 16 then Skip
         else if rqst_type rq \<longleftrightarrow> desc_flags dat AND 2 \<noteq> 0 then Skip
         else if desc_flags st AND 2 = 0 then Skip
         else Transfer (rqst_type rq) (sector rq) dat (desc_buf st))"

text \<open>The driver's obligations: what the device has to look at is backed, buffers too, and the sector's
  byte offset fits.\<close>

definition blk_chain :: "virtio_queue \<Rightarrow> guest_memory \<Rightarrow> u16 \<Rightarrow> bool" where
  "blk_chain q m h \<longleftrightarrow> desc_flags (desc_at q m h) AND 1 \<noteq> 0 \<and> desc_len (desc_at q m h) = 16"

definition blk_req :: "virtio_queue \<Rightarrow> guest_memory \<Rightarrow> u16 \<Rightarrow> bool" where
  "blk_req q m h \<longleftrightarrow> desc_ok q m h \<and>
     (blk_chain q m h \<longrightarrow>
       (let hd = desc_at q m h; dat = desc_at q m (desc_next hd) in
        desc_ok q m (desc_next hd) \<and> desc_ok q m (desc_next dat) \<and> cells_ok m (desc_buf hd) 16)) \<and>
     (case blk_plan q m h of
        Skip \<Rightarrow> True
      | Transfer wr s b st \<Rightarrow> backed m (desc_buf b) (unat (desc_len b)) \<and> backed m st 1 \<and> unat s * 512 < 2 ^ 64)"

text \<open>What the device reads for a request: its descriptors, its header and the data that goes to the disk.\<close>

definition blk_source :: "virtio_queue \<Rightarrow> guest_memory \<Rightarrow> u16 \<Rightarrow> nat set" where
  "blk_source q m h =
     (case blk_plan q m h of
        Skip \<Rightarrow> {}
      | Transfer wr s b st \<Rightarrow> if wr then span (desc_buf b) (unat (desc_len b)) else {})"

definition blk_reads :: "virtio_queue \<Rightarrow> guest_memory \<Rightarrow> u16 \<Rightarrow> nat set" where
  "blk_reads q m h =
     (let hd = desc_at q m h; dat = desc_at q m (desc_next hd) in
      desc_area q h \<union>
      (if blk_chain q m h
       then desc_area q (desc_next hd) \<union> desc_area q (desc_next dat) \<union> span (desc_buf hd) 16 else {}) \<union>
      blk_source q m h)"

definition blk_writes :: "virtio_queue \<Rightarrow> guest_memory \<Rightarrow> u16 \<Rightarrow> nat set" where
  "blk_writes q m h =
     (case blk_plan q m h of
        Skip \<Rightarrow> {}
      | Transfer wr s b st \<Rightarrow> (if wr then {} else span (desc_buf b) (unat (desc_len b))) \<union> span st 1)"

text \<open>What a transfer does, stated on the image, the buffer and the status byte alone.\<close>

definition blk_effect ::
    "disk_env \<Rightarrow> bool \<Rightarrow> u64 \<Rightarrow> host_file \<Rightarrow> u8 list \<Rightarrow> (host_file \<times> u8 list \<times> u8) option" where
  "blk_effect env wr s f buf =
     (let (ok, f) = file_seek env f (s * 512) in
      if \<not> ok then None
      else if wr then (let (stored, f) = file_write_all env f buf in Some (f, buf, if stored then 0 else 1))
      else case file_read_exact env f (length buf) of
          (Some bs, f) \<Rightarrow> Some (f, bs, 0)
        | (None, f) \<Rightarrow> Some (f, buf, 1))"

section \<open>Requests are stable\<close>

lemma header_stable:
  assumes "cells_ok m a 16" "modifies S m m'" "S \<inter> span a 16 = {}"
  shows "blk_header m' a = blk_header m a"
proof -
  have "bytes_at m' (a + of_nat i) k = bytes_at m (a + of_nat i) k" if "i + k \<le> 16" "0 < k" for i k
  proof (rule modifies_bytes [OF assms(2)])
    show "backed m (a + of_nat i) k" using cells_okD(3) [OF assms(1) that] .
    show "span (a + of_nat i) k \<inter> S = {}"
      using span_sub [OF that(1) cells_okD(2) [OF assms(1) that]] assms(3) by auto
  qed
  from this [of 0 4] this [of 8 8] show ?thesis by (simp add: blk_header_def)
qed

lemma blk_plan_chain: "\<not> blk_chain q m h \<Longrightarrow> blk_plan q m h = Skip"
  by (auto simp: blk_chain_def blk_plan_def Let_def)

lemma blk_stable_chain:
  assumes "blk_req q m h" "modifies S m m'" "S \<inter> blk_reads q m h = {}" "same_setup q q'" "blk_chain q m h"
    and hd: "desc_at q' m' h = desc_at q m h" "desc_ok q' m' h"
  shows "blk_req q' m' h \<and> blk_plan q' m' h = blk_plan q m h \<and> blk_reads q' m' h = blk_reads q m h"
proof -
  note keeps = desc_keeps [OF assms(4)]
  let ?hd = "desc_at q m h" and ?dat = "desc_at q m (desc_next (desc_at q m h))"
  from assms(1,5) have ok: "desc_ok q m (desc_next ?hd)" "desc_ok q m (desc_next ?dat)"
    and c: "cells_ok m (desc_buf ?hd) 16"
    by (auto simp: blk_req_def Let_def)
  from assms(3,5) have dis: "S \<inter> desc_area q (desc_next ?hd) = {}" "S \<inter> desc_area q (desc_next ?dat) = {}"
    "S \<inter> span (desc_buf ?hd) 16 = {}"
    by (auto simp: blk_reads_def Let_def)
  note eq = hd(1) keeps(2) [OF ok(1) assms(2) dis(1)] keeps(2) [OF ok(2) assms(2) dis(2)]
    header_stable [OF c assms(2) dis(3)]
  have plan: "blk_plan q' m' h = blk_plan q m h"
    unfolding blk_plan_def Let_def eq ..
  have ch: "blk_chain q' m' h" using assms(5) by (simp add: blk_chain_def eq)
  have "blk_req q' m' h"
    using assms(1,5) hd keeps(3) [OF ok(1) assms(2) dis(1)] keeps(3) [OF ok(2) assms(2) dis(2)] ch
    by (simp add: blk_req_def Let_def eq plan cells_ok_modifies [OF assms(2)] modifies_backed [OF assms(2)]
        split: blk_plan.splits)
  moreover have "blk_reads q' m' h = blk_reads q m h"
    using assms(5) ch by (simp add: blk_reads_def blk_source_def Let_def eq plan keeps(1))
  ultimately show ?thesis using plan by simp
qed

lemma blk_stable:
  assumes "blk_req q m h" "modifies S m m'" "S \<inter> blk_reads q m h = {}" "same_setup q q'"
  shows "blk_req q' m' h \<and> blk_plan q' m' h = blk_plan q m h \<and> blk_reads q' m' h = blk_reads q m h"
proof -
  note keeps = desc_keeps [OF assms(4)]
  have ok: "desc_ok q m h" "S \<inter> desc_area q h = {}"
    using assms by (auto simp: blk_req_def blk_reads_def Let_def)
  note hd = keeps(2,3) [OF ok(1) assms(2) ok(2)]
  show ?thesis
  proof (cases "blk_chain q m h")
    case True
    show ?thesis by (rule blk_stable_chain [OF assms True hd])
  next
    case False
    then have "\<not> blk_chain q' m' h" by (simp add: blk_chain_def hd)
    with False show ?thesis
      by (simp add: blk_plan_chain blk_req_def blk_reads_def blk_source_def Let_def hd keeps(1))
  qed
qed

section \<open>Serving refines the specification\<close>

lemma new_blk_request_spec:
  assumes "wf_mem m" "cells_ok m a 16"
  shows "new_blk_request p a m = Some (blk_header m a)"
  using assms cells_okD(3) [OF assms(2), of 0 4] cells_okD(1,3) [OF assms(2), of 8 8]
  by (simp add: new_blk_request_def read_typed_defs read_word_backed blk_header_def)

lemma blk_body_plan:
  assumes "blk_req q m h" "wf_mem m"
  shows "blk_body env p h (d, q, m, w) =
    (case blk_plan q m h of
       Skip \<Rightarrow> blk_skip p h (d, q, m, w)
     | Transfer wr s b st \<Rightarrow>
         (let rq = blk_header m (desc_buf (desc_at q m h)); sb = desc_at q m (desc_next b)
          in if wr then blk_write env p h rq b sb (d, q, m, w) else blk_read env p h rq b sb (d, q, m, w)))"
  using assms
  by (cases "blk_chain q m h")
    (auto simp: blk_body_def blk_plan_def blk_req_def blk_chain_def get_descriptor_spec new_blk_request_spec Let_def)

lemma blk_plan_Transfer:
  assumes "blk_plan q m h = Transfer wr s b st"
  shows "b = desc_at q m (desc_next (desc_at q m h))" "st = desc_buf (desc_at q m (desc_next b))"
    "blk_header m (desc_buf (desc_at q m h)) = \<lparr>rqst_type = wr, sector = s\<rparr>"
  using assms by (auto simp: blk_plan_def Let_def split: if_splits)

lemma blk_req_Transfer:
  assumes "blk_req q m h" "blk_plan q m h = Transfer wr s b st"
  shows "backed m (desc_buf b) (unat (desc_len b))" "backed m st 1" "mul_chk p s 512 = Some (s * 512)"
  using assms by (auto simp: blk_req_def Let_def mul_chk_def)

lemma blk_body_gives_back:
  assumes "blk_req q m h" "used_ok q m" "q_size q \<noteq> 0"
    and "case blk_plan q m h of Skip \<Rightarrow> True | Transfer wr s b st \<Rightarrow> seek_err env (s * 512)"
  obtains m' where "blk_body env p h (d, q, m, w) = Some (d, q\<lparr>last_used_idx := last_used_idx q + 1\<rparr>, m', w)"
    "modifies (used_area q) m m'" "used_entry q m' (last_used_idx q) = (ucast h, 0)"
    "\<And>j. j mod q_size q \<noteq> last_used_idx q mod q_size q \<Longrightarrow> used_entry q m' j = used_entry q m j"
proof -
  from assms(2) have wf: "wf_mem m" by (simp add: used_ok_def)
  obtain m' where m': "push_used p q m h 0 = Some (q\<lparr>last_used_idx := last_used_idx q + 1\<rparr>, m')"
      "modifies (used_area q) m m'" "used_entry q m' (last_used_idx q) = (ucast h, 0)"
      "\<And>j. j mod q_size q \<noteq> last_used_idx q mod q_size q \<Longrightarrow> used_entry q m' j = used_entry q m j"
    by (rule push_used_after [OF assms(2,3) modifies_refl [OF wf, of "{}"], of p h 0]) simp
  have "blk_body env p h (d, q, m, w) = Some (d, q\<lparr>last_used_idx := last_used_idx q + 1\<rparr>, m', w)"
  proof (cases "blk_plan q m h")
    case Skip
    with m' show ?thesis by (simp add: blk_body_plan [OF assms(1) wf] blk_skip_def)
  next
    case (Transfer wr s b st)
    note pl = blk_plan_Transfer [OF Transfer]
    note r = blk_req_Transfer [OF assms(1) Transfer]
    from assms(4) Transfer have "seek_err env (s * 512)" by simp
    with Transfer m' show ?thesis
      by (simp add: blk_body_plan [OF assms(1) wf] blk_skip_def blk_read_def blk_write_def pl(3) Let_def
          r SECTOR_SIZE_def file_seek_def read_buffer [OF wf r(1)])
  qed
  with m' show thesis by (intro that)
qed

text \<open>The store of the answer: the buffer when data goes to the guest, then the status byte.\<close>

lemma store_status:
  assumes "wf_mem m" "backed m st 1"
  obtains m1 where "write_u8 p m st c = Some m1" "modifies (span st 1) m m1" "bytes_at m1 st 1 = [c]"
proof -
  have "to_le 1 c = [c]" by simp
  then show thesis
    using write_mapped_ok [OF assms(1), of st "to_le 1 c" p] assms(2) that
    by (auto simp: write_u8_def)
qed

lemma store_data_status:
  assumes "wf_mem m" "backed m a (length bs)" "backed m st 1"
  obtains m0 m1 where "write_guest_memory p m a bs = Some m0" "write_u8 p m0 st c = Some m1"
    "modifies (span a (length bs) \<union> span st 1) m m1" "bytes_at m1 st 1 = [c]"
    "span a (length bs) \<inter> span st 1 = {} \<Longrightarrow> bytes_at m1 a (length bs) = bs"
proof -
  obtain m0 where m0: "write_guest_memory p m a bs = Some m0" "modifies (span a (length bs)) m m0"
      "bytes_at m0 a (length bs) = bs"
    using write_mapped_ok [OF assms(1,2), of p] by (auto simp: write_guest_memory_def)
  have ok: "wf_mem m0" "backed m0 st 1" "backed m0 a (length bs)"
    using assms m0(2) by (auto simp: modifies_wf modifies_backed)
  obtain m1 where m1: "write_u8 p m0 st c = Some m1" "modifies (span st 1) m0 m1" "bytes_at m1 st 1 = [c]"
    by (rule store_status [OF ok(1,2)])
  show thesis
    by (rule that [OF m0(1) m1(1) modifies_trans [OF m0(2) m1(2)] m1(3)])
      (simp add: modifies_bytes [OF m1(2) ok(3)] m0(3))
qed

lemma blk_body_transfers:
  assumes "blk_req q m h" "used_ok q m" "q_size q \<noteq> 0" "blk_plan q m h = Transfer wr s b st"
    and eff: "blk_effect env wr s (blk_file d) (bytes_at m (desc_buf b) (unat (desc_len b))) = Some (f', bs', c)"
  obtains m1 m' where
    "blk_body env p h (d, q, m, w) =
       Some (d\<lparr>blk_file := f'\<rparr>, q\<lparr>last_used_idx := last_used_idx q + 1\<rparr>, m', True)"
    "modifies (blk_writes q m h) m m1" "modifies (used_area q) m1 m'"
    "modifies (used_area q \<union> blk_writes q m h) m m'"
    "span (desc_buf b) (unat (desc_len b)) \<inter> span st 1 = {} \<Longrightarrow>
       bytes_at m1 (desc_buf b) (unat (desc_len b)) = bs'"
    "bytes_at m1 st 1 = [c]" "used_entry q m' (last_used_idx q) = (ucast h, desc_len b)"
    "\<And>j. blk_writes q m h \<inter> used_area q = {} \<Longrightarrow> j mod q_size q \<noteq> last_used_idx q mod q_size q \<Longrightarrow>
       used_entry q m' j = used_entry q m j"
proof -
  let ?n = "unat (desc_len b)" and ?a = "desc_buf b"
  from assms(2) have wf: "wf_mem m" by (simp add: used_ok_def)
  note pl = blk_plan_Transfer [OF assms(4)] and r = blk_req_Transfer [OF assms(1,4)]
  note len = length_bytes_at [OF r(1) wf]
  note body = blk_body_plan [OF assms(1) wf, of env p d w, unfolded assms(4), simplified Let_def, simplified,
    unfolded pl(3)] pl(2) [symmetric]
  let ?serve = "\<lambda>m1. \<forall>m'. push_used p q m1 h (desc_len b) = Some (q\<lparr>last_used_idx := last_used_idx q + 1\<rparr>, m') \<longrightarrow>
     blk_body env p h (d, q, m, w) = Some (d\<lparr>blk_file := f'\<rparr>, q\<lparr>last_used_idx := last_used_idx q + 1\<rparr>, m', True)"
  have "\<exists>m1. modifies (blk_writes q m h) m m1 \<and> bytes_at m1 st 1 = [c] \<and>
      (span ?a ?n \<inter> span st 1 = {} \<longrightarrow> bytes_at m1 ?a ?n = bs') \<and> ?serve m1"
  proof (cases "wr \<or> bs' = bytes_at m ?a ?n \<and> c = 1")
    case True
    obtain m1 where m1: "write_u8 p m st c = Some m1" "modifies (span st 1) m m1" "bytes_at m1 st 1 = [c]"
      by (rule store_status [OF wf r(2)])
    have "modifies (blk_writes q m h) m m1"
      by (rule modifies_mono [OF m1(2)]) (auto simp: blk_writes_def assms(4))
    moreover have "span ?a ?n \<inter> span st 1 = {} \<longrightarrow> bytes_at m1 ?a ?n = bs'"
      using True modifies_bytes [OF m1(2) r(1)] eff
      by (auto simp: blk_effect_def file_seek_def split: if_splits prod.splits)
    moreover have "?serve m1"
      using True m1(1) eff
      by (auto simp: body blk_read_def blk_write_def blk_effect_def
          r SECTOR_SIZE_def file_seek_def read_buffer [OF wf r(1)] len
          split: if_splits prod.splits option.splits)
    ultimately show ?thesis using m1(3) by blast
  next
    case False
    then have rd: "file_read_exact env ((blk_file d)\<lparr>file_pos := unat (s * 512)\<rparr>) ?n = (Some bs', f')"
        and c: "c = 0" and seek: "\<not> seek_err env (s * 512)"
      using eff len by (auto simp: blk_effect_def file_seek_def split: if_splits prod.splits option.splits)
    from rd have lb: "length bs' = ?n" by (auto simp: file_read_exact_def split: if_splits)
    obtain m0 m1 where m1: "write_guest_memory p m ?a bs' = Some m0" "write_u8 p m0 st c = Some m1"
        "modifies (span ?a ?n \<union> span st 1) m m1" "bytes_at m1 st 1 = [c]"
        "span ?a ?n \<inter> span st 1 = {} \<Longrightarrow> bytes_at m1 ?a ?n = bs'"
      using store_data_status [OF wf, of ?a bs' st p c] r(1,2) lb by metis
    have "modifies (blk_writes q m h) m m1"
      using False m1(3) by (simp add: blk_writes_def assms(4))
    moreover have "?serve m1"
      using False m1(1,2) rd seek c by (simp add: body blk_read_def r SECTOR_SIZE_def file_seek_def)
    ultimately show ?thesis using m1(4,5) by blast
  qed
  then obtain m1 where m1: "modifies (blk_writes q m h) m m1" "bytes_at m1 st 1 = [c]"
      "span ?a ?n \<inter> span st 1 = {} \<Longrightarrow> bytes_at m1 ?a ?n = bs'" "?serve m1"
    by blast
  obtain m' where m': "push_used p q m1 h (desc_len b) = Some (q\<lparr>last_used_idx := last_used_idx q + 1\<rparr>, m')"
      "modifies (used_area q) m1 m'" "modifies (used_area q \<union> blk_writes q m h) m m'"
      "used_entry q m' (last_used_idx q) = (ucast h, desc_len b)"
      "\<And>j. blk_writes q m h \<inter> used_area q = {} \<Longrightarrow> j mod q_size q \<noteq> last_used_idx q mod q_size q \<Longrightarrow>
        used_entry q m' j = used_entry q m j"
    by (rule push_used_after [OF assms(2,3) m1(1), of p h "desc_len b"]) blast
  with m1 show thesis by (intro that [of m' m1]) auto
qed

lemma blk_effect_None: "blk_effect env wr s f buf = None \<longleftrightarrow> seek_err env (s * 512)"
  by (auto simp: blk_effect_def file_seek_def split: prod.splits option.splits)

text \<open>The outcome of a request on an image: the image afterwards, the bytes that go to the guest and the status byte;
  \<open>None\<close> when the device gives the request back.\<close>

definition blk_outcome ::
    "disk_env \<Rightarrow> virtio_queue \<Rightarrow> guest_memory \<Rightarrow> u16 \<Rightarrow> host_file \<Rightarrow> (host_file \<times> u8 list \<times> u8) option" where
  "blk_outcome env q m h f =
     (case blk_plan q m h of
        Skip \<Rightarrow> None
      | Transfer wr s b st \<Rightarrow>
          map_option (\<lambda>(f, bs, c). (f, if wr \<or> c \<noteq> 0 then [] else bs, c))
            (blk_effect env wr s f (bytes_at m (desc_buf b) (unat (desc_len b)))))"

definition blk_image :: "disk_env \<Rightarrow> virtio_queue \<Rightarrow> guest_memory \<Rightarrow> u16 \<Rightarrow> host_file \<Rightarrow> host_file" where
  "blk_image env q m h f = (case blk_outcome env q m h f of None \<Rightarrow> f | Some (f', bs, c) \<Rightarrow> f')"

definition blk_used_len :: "disk_env \<Rightarrow> virtio_queue \<Rightarrow> guest_memory \<Rightarrow> u16 \<Rightarrow> host_file \<Rightarrow> u32" where
  "blk_used_len env q m h f = (case blk_outcome env q m h f of None \<Rightarrow> 0 | Some _ \<Rightarrow> desc_len (data_buf (blk_plan q m h)))"

text \<open>What a served request leaves in guest memory: the status byte, and the data of a read that succeeded unless
  the driver has put the status byte into the data buffer.\<close>

definition blk_answered :: "disk_env \<Rightarrow> virtio_queue \<Rightarrow> guest_memory \<Rightarrow> u16 \<Rightarrow> host_file \<Rightarrow> guest_memory \<Rightarrow> bool" where
  "blk_answered env q m h f m' \<longleftrightarrow>
     (case (blk_plan q m h, blk_outcome env q m h f) of
        (Transfer wr s b st, Some (f', bs, c)) \<Rightarrow>
          bytes_at m' st 1 = [c] \<and>
          (\<not> wr \<and> c = 0 \<and> span (desc_buf b) (unat (desc_len b)) \<inter> span st 1 = {} \<longrightarrow>
            bytes_at m' (desc_buf b) (unat (desc_len b)) = bs)
      | _ \<Rightarrow> True)"

definition blk_after :: "disk_env \<Rightarrow> virtio_queue \<Rightarrow> guest_memory \<Rightarrow> u16 \<Rightarrow> blk_virtio \<Rightarrow> blk_virtio" where
  "blk_after env q m h d = d\<lparr>blk_file := blk_image env q m h (blk_file d)\<rparr>"

lemma fold_blk_after:
  "fold (blk_after env q m) hs d = d\<lparr>blk_file := fold (blk_image env q m) hs (blk_file d)\<rparr>"
  by (induction hs arbitrary: d) (simp_all add: blk_after_def)

text \<open>A read depends on the buffer of the guest only through its length.\<close>

lemma effect_read_length:
  assumes "length buf' = length buf"
  shows "map_option (\<lambda>(f, bs, c). (f, if False \<or> c \<noteq> 0 then [] else bs, c)) (blk_effect env False s f buf') =
    map_option (\<lambda>(f, bs, c). (f, if False \<or> c \<noteq> 0 then [] else bs, c)) (blk_effect env False s f buf)"
  using assms by (auto simp: blk_effect_def file_seek_def split: prod.splits option.splits)

lemma blk_outcome_stable:
  assumes "blk_req q m h" "modifies S m m'" "S \<inter> blk_reads q m h = {}" "same_setup q q'"
  shows "blk_outcome env q' m' h = blk_outcome env q m h"
proof (cases "blk_plan q m h")
  case Skip
  with blk_stable [OF assms] show ?thesis by (simp add: blk_outcome_def fun_eq_iff)
next
  case (Transfer wr s b st)
  have wf: "wf_mem m" "wf_mem m'" using assms(1,2) by (auto simp: blk_req_def desc_ok_def modifies_wf)
  note bk = blk_req_Transfer(1) [OF assms(1) Transfer]
  have bk': "backed m' (desc_buf b) (unat (desc_len b))" using bk modifies_backed [OF assms(2)] by simp
  have plan: "blk_plan q' m' h = Transfer wr s b st" using blk_stable [OF assms] Transfer by simp
  show ?thesis
  proof (cases wr)
    case True
    then have "span (desc_buf b) (unat (desc_len b)) \<inter> S = {}"
      using assms(3) Transfer by (auto simp: blk_reads_def blk_source_def Let_def)
    then show ?thesis
      using modifies_bytes [OF assms(2) bk] by (simp add: blk_outcome_def fun_eq_iff plan Transfer)
  next
    case False
    have "length (bytes_at m' (desc_buf b) (unat (desc_len b))) = length (bytes_at m (desc_buf b) (unat (desc_len b)))"
      using length_bytes_at [OF bk wf(1)] length_bytes_at [OF bk' wf(2)] by simp
    from effect_read_length [OF this] False show ?thesis by (simp add: blk_outcome_def fun_eq_iff plan Transfer)
  qed
qed

lemma blk_answered_frame:
  assumes "blk_req q m h" "blk_answered env q m h f m1" "modifies S m m1" "modifies T m1 m2" "T \<inter> blk_writes q m h = {}"
  shows "blk_answered env q m h f m2"
proof (cases "blk_plan q m h")
  case (Transfer wr s b st)
  let ?a = "desc_buf b" and ?n = "unat (desc_len b)"
  have bk: "backed m1 st 1" "backed m1 ?a ?n"
    using blk_req_Transfer(1,2) [OF assms(1) Transfer] assms(3) by (simp_all add: modifies_backed)
  have "bytes_at m2 st 1 = bytes_at m1 st 1"
    by (rule modifies_bytes [OF assms(4) bk(1)]) (use assms(5) Transfer in \<open>auto simp: blk_writes_def\<close>)
  moreover have "bytes_at m2 ?a ?n = bytes_at m1 ?a ?n" if "\<not> wr"
    by (rule modifies_bytes [OF assms(4) bk(2)]) (use assms(5) Transfer that in \<open>auto simp: blk_writes_def\<close>)
  ultimately show ?thesis using assms(2) Transfer by (auto simp: blk_answered_def split: option.splits)
qed (simp add: blk_answered_def)

text \<open>Serving one request is its transaction, whatever the request and the host.\<close>

lemma blk_body_transacts:
  assumes "blk_req q m h" "used_ok q m" "q_size q \<noteq> 0"
  obtains m' w' where "blk_body env p h (d, q, m, w) =
      Some (blk_after env q m h d, q\<lparr>last_used_idx := last_used_idx q + 1\<rparr>, m', w')"
    "modifies (used_area q \<union> blk_writes q m h) m m'"
    "used_area q \<inter> blk_writes q m h = {} \<Longrightarrow> blk_answered env q m h (blk_file d) m'"
    "used_entry q m' (last_used_idx q) = (ucast h, blk_used_len env q m h (blk_file d))"
    "\<And>j. used_area q \<inter> blk_writes q m h = {} \<Longrightarrow> j mod q_size q \<noteq> last_used_idx q mod q_size q \<Longrightarrow>
      used_entry q m' j = used_entry q m j"
proof (cases "case blk_plan q m h of Skip \<Rightarrow> True | Transfer wr s b st \<Rightarrow> seek_err env (s * 512)")
  case True
  then have none: "blk_outcome env q m h (blk_file d) = None"
    by (simp add: blk_outcome_def blk_effect_None split: blk_plan.splits)
  obtain m' where m': "blk_body env p h (d, q, m, w) = Some (d, q\<lparr>last_used_idx := last_used_idx q + 1\<rparr>, m', w)"
      "modifies (used_area q) m m'" "used_entry q m' (last_used_idx q) = (ucast h, 0)"
      "\<And>j. j mod q_size q \<noteq> last_used_idx q mod q_size q \<Longrightarrow> used_entry q m' j = used_entry q m j"
    by (rule blk_body_gives_back [OF assms True, of p d w]) blast
  have "modifies (used_area q \<union> blk_writes q m h) m m'" by (rule modifies_mono [OF m'(2)]) simp
  with m' none show thesis
    by (intro that [of m' w])
      (simp_all add: blk_after_def blk_image_def blk_used_len_def blk_answered_def split: blk_plan.splits)
next
  case False
  then obtain wr s b st where pl: "blk_plan q m h = Transfer wr s b st" "\<not> seek_err env (s * 512)"
    by (auto split: blk_plan.splits)
  let ?a = "desc_buf b" and ?n = "unat (desc_len b)"
  obtain f' bs' c where eff: "blk_effect env wr s (blk_file d) (bytes_at m ?a ?n) = Some (f', bs', c)"
    using blk_effect_None [of env wr s] pl(2) by (metis option.exhaust surj_pair)
  obtain m1 m' where b: "blk_body env p h (d, q, m, w) =
       Some (d\<lparr>blk_file := f'\<rparr>, q\<lparr>last_used_idx := last_used_idx q + 1\<rparr>, m', True)"
      "modifies (blk_writes q m h) m m1" "modifies (used_area q) m1 m'" "modifies (used_area q \<union> blk_writes q m h) m m'"
      "span ?a ?n \<inter> span st 1 = {} \<Longrightarrow> bytes_at m1 ?a ?n = bs'" "bytes_at m1 st 1 = [c]"
      "used_entry q m' (last_used_idx q) = (ucast h, desc_len b)"
      "\<And>j. blk_writes q m h \<inter> used_area q = {} \<Longrightarrow> j mod q_size q \<noteq> last_used_idx q mod q_size q \<Longrightarrow>
         used_entry q m' j = used_entry q m j"
    by (rule blk_body_transfers [OF assms pl(1) eff, of p w]) blast
  have out: "blk_outcome env q m h (blk_file d) = Some (f', if wr \<or> c \<noteq> 0 then [] else bs', c)"
    by (simp add: blk_outcome_def pl(1) eff)
  have "blk_answered env q m h (blk_file d) m1" using b(5,6) by (auto simp: blk_answered_def pl(1) out)
  then have "blk_answered env q m h (blk_file d) m'" if "used_area q \<inter> blk_writes q m h = {}"
    by (rule blk_answered_frame [OF assms(1) _ b(2,3) that])
  with b(1,4,7,8) show thesis
    by (intro that [of m' True]) (simp_all add: blk_after_def blk_image_def blk_used_len_def out pl(1) Int_commute)
qed

interpretation blk_loop: footprint_transaction p "blk_body env p" "\<lambda>_ _. True" blk_req blk_reads blk_writes
    "blk_after env" "\<lambda>q m h d. blk_answered env q m h (blk_file d)" "\<lambda>q m h d. blk_used_len env q m h (blk_file d)" for p env
proof (unfold_locales, goal_cases)
  case (1 q m h S m' q')
  then show ?case using blk_stable [OF 1] by (simp add: blk_writes_def)
next
  case (2 k d q m h w)
  obtain m' w' where "blk_body env p h (d, q, m, w) =
      Some (blk_after env q m h d, q\<lparr>last_used_idx := last_used_idx q + 1\<rparr>, m', w')"
      "modifies (used_area q \<union> blk_writes q m h) m m'"
    by (rule blk_body_transacts [OF 2(2-4), of env p d w]) blast
  then show ?case by (auto simp: same_setup_def)
next
  case (3 k d q m h w d' q' m' w')
  obtain m1 w1 where "blk_body env p h (d, q, m, w) =
      Some (blk_after env q m h d, q\<lparr>last_used_idx := last_used_idx q + 1\<rparr>, m1, w1)"
    by (rule blk_body_transacts [OF 3(2-4), of env p d w]) blast
  with 3(6) show ?case by simp
next
  case (4 q m h S m' q')
  show ?case using blk_outcome_stable [OF 4] by (simp add: blk_after_def blk_image_def fun_eq_iff)
next
  case (5 k d q m h w d' q' m' w')
  obtain m1 w1 where "blk_body env p h (d, q, m, w) =
      Some (blk_after env q m h d, q\<lparr>last_used_idx := last_used_idx q + 1\<rparr>, m1, w1)"
      "used_area q \<inter> blk_writes q m h = {} \<Longrightarrow> blk_answered env q m h (blk_file d) m1"
      "used_entry q m1 (last_used_idx q) = (ucast h, blk_used_len env q m h (blk_file d))"
      "\<And>j. used_area q \<inter> blk_writes q m h = {} \<Longrightarrow> j mod q_size q \<noteq> last_used_idx q mod q_size q \<Longrightarrow>
        used_entry q m1 j = used_entry q m j"
    by (rule blk_body_transacts [OF 5(2-4), of env p d w]) blast
  with 5(6,7) show ?case by simp
next
  case (6 q m h d m1 S T m2)
  then show ?case by (rule blk_answered_frame)
next
  case (7 q m h S m' q' d m2)
  note same = blk_outcome_stable [OF 7] blk_stable [OF 7, THEN conjunct2, THEN conjunct1]
  show ?case by (simp add: blk_used_len_def blk_answered_def same cong: option.case_cong)
qed

section \<open>The disk image as storage\<close>

lemma store_bytes_read: "take (length bs) (drop pos (store_bytes img pos bs)) = bs"
  by (auto simp: store_bytes_def copy_at_def)

lemma store_bytes_other:
  assumes "k < length img" "\<not> (pos \<le> k \<and> k < pos + length bs)"
  shows "store_bytes img pos bs ! k = img ! k"
  using assms by (auto simp: store_bytes_def copy_at_def nth_append min_def)

lemma length_store_bytes: "length (store_bytes img pos bs) =
    (if bs = [] then length img else max (length img) (pos + length bs))"
  by (auto simp: store_bytes_def copy_at_def)

text \<open>A host on which no file operation fails.\<close>

definition error_free :: "disk_env \<Rightarrow> bool" where
  "error_free env \<longleftrightarrow> (\<forall>a. \<not> seek_err env a) \<and> (\<forall>pos n. \<not> read_err env pos n) \<and> (\<forall>pos n. write_stop env pos n = None)"

lemma effect_write_then_read:
  assumes "blk_effect env True s f buf = Some (f1, buf1, 0)"
    and "\<not> read_err env (unat (s * 512)) (length buf)" "length buf0 = length buf"
  shows "(\<exists>f2. blk_effect env False s f1 buf0 = Some (f2, buf, 0) \<and> file_bytes f2 = file_bytes f1) \<and>
    (\<forall>k < length (file_bytes f). \<not> (unat (s * 512) \<le> k \<and> k < unat (s * 512) + length buf) \<longrightarrow>
      file_bytes f1 ! k = file_bytes f ! k)"
proof -
  let ?o = "unat (s * 512)"
  from assms(1) have w: "\<not> seek_err env (s * 512)" "file_bytes f1 = store_bytes (file_bytes f) ?o buf"
    by (auto simp: blk_effect_def file_seek_def file_write_all_def Let_def split: if_splits)
  have "buf = [] \<or> ?o + length buf \<le> length (file_bytes f1)"
    using length_store_bytes [of "file_bytes f" ?o buf] w(2) by auto
  moreover have "take (length buf) (drop ?o (file_bytes f1)) = buf"
    by (simp add: w(2) store_bytes_read)
  ultimately have "file_read_exact env (f1\<lparr>file_pos := ?o\<rparr>) (length buf) =
      (Some buf, f1\<lparr>file_pos := ?o + length buf\<rparr>)"
    using assms(2) by (auto simp: file_read_exact_def)
  then have "blk_effect env False s f1 buf0 = Some (f1\<lparr>file_pos := ?o + length buf\<rparr>, buf, 0)"
    using w(1) assms(3) by (simp add: blk_effect_def file_seek_def)
  then show ?thesis using store_bytes_other [of _ "file_bytes f" ?o buf] w(2) by auto
qed

lemma blk_body_effect:
  assumes "blk_req q m h" "used_ok q m" "q_size q \<noteq> 0" "blk_plan q m h = Transfer wr s b st"
    and "blk_effect env wr s (blk_file d) (bytes_at m (desc_buf b) (unat (desc_len b))) = Some (f', bs', c)"
    and "span (desc_buf b) (unat (desc_len b)) \<inter> span st 1 = {}"
    and "used_area q \<inter> (span (desc_buf b) (unat (desc_len b)) \<union> span st 1) = {}"
  shows "\<exists>m'. blk_body env p h (d, q, m, w) =
      Some (d\<lparr>blk_file := f'\<rparr>, q\<lparr>last_used_idx := last_used_idx q + 1\<rparr>, m', True) \<and>
    bytes_at m' (desc_buf b) (unat (desc_len b)) = bs' \<and> bytes_at m' st 1 = [c] \<and>
    used_entry q m' (last_used_idx q) = (ucast h, desc_len b)"
proof -
  let ?a = "desc_buf b" and ?n = "unat (desc_len b)"
  obtain m1 m' where b: "blk_body env p h (d, q, m, w) =
       Some (d\<lparr>blk_file := f'\<rparr>, q\<lparr>last_used_idx := last_used_idx q + 1\<rparr>, m', True)"
      "modifies (blk_writes q m h) m m1" "modifies (used_area q) m1 m'"
      "span ?a ?n \<inter> span st 1 = {} \<Longrightarrow> bytes_at m1 ?a ?n = bs'" "bytes_at m1 st 1 = [c]"
      "used_entry q m' (last_used_idx q) = (ucast h, desc_len b)"
    by (rule blk_body_transfers [OF assms(1-5), of p w]) blast
  note r = blk_req_Transfer(1,2) [OF assms(1,4)]
  have "backed m1 ?a ?n" "backed m1 st 1" using r b(2) by (simp_all add: modifies_backed)
  then have "bytes_at m' ?a ?n = bytes_at m1 ?a ?n" "bytes_at m' st 1 = bytes_at m1 st 1"
    using assms(7) by (auto intro!: modifies_bytes [OF b(3)])
  with b assms(6) show ?thesis by auto
qed

section \<open>A block request in memory\<close>

text \<open>A 176-byte memory with two pending requests for sector 0, first a write and then a read: descriptors
  from 0, the request headers at 96 and 112, the rings at 128 and 140, the data to write at 160, the
  buffer of the read at 164 and the two status bytes at 168.\<close>

definition blk_demo_block :: "u8 list" where
  "blk_demo_block =
     le64 96 @ le32 16 @ le16 1 @ le16 1 @ le64 160 @ le32 4 @ le16 1 @ le16 2 @
     le64 168 @ le32 1 @ le16 2 @ le16 0 @
     le64 112 @ le32 16 @ le16 1 @ le16 4 @ le64 164 @ le32 4 @ le16 3 @ le16 5 @
     le64 169 @ le32 1 @ le16 2 @ le16 0 @
     le32 1 @ replicate 12 0 @ replicate 16 0 @
     le16 0 @ le16 2 @ le16 0 @ le16 3 @ replicate 4 0 @ replicate 20 0 @
     [9, 8, 7, 6] @ replicate 4 0 @ [255, 255] @ replicate 6 0"

definition blk_demo_mem :: guest_memory where
  "blk_demo_mem = [new_region (Some blk_demo_block) 176 0]"

definition blk_demo_queue :: virtio_queue where
  "blk_demo_queue = \<lparr>q_size = 2, q_ready = True, desc_addr = 0, avail_addr = 128, used_addr = 140,
     last_avail_idx = 0, last_used_idx = 0\<rparr>"

definition good_disk :: disk_env where
  "good_disk = \<lparr>seek_err = (\<lambda>_. False), read_err = (\<lambda>_ _. False), write_stop = (\<lambda>_ _. None)\<rparr>"

lemma blk_demo_length: "length blk_demo_block = 176"
  by (simp add: blk_demo_block_def)

lemma blk_demo_wf: "wf_mem blk_demo_mem"
  by (simp add: blk_demo_mem_def new_region_def wf_region_def blk_demo_length)

lemma blk_demo_cells: "unat a + n \<le> 176 \<Longrightarrow> cells_ok blk_demo_mem a n"
  unfolding blk_demo_mem_def by (rule cells_ok_single) (simp_all add: new_region_def)

lemma blk_demo_backed: "unat a + n \<le> 176 \<Longrightarrow> 0 < n \<Longrightarrow> backed blk_demo_mem a n"
  using cells_okD(3) [OF blk_demo_cells, of a n 0 n] by simp

lemma blk_demo_ok:
  "avail_ok blk_demo_queue blk_demo_mem" "used_ok blk_demo_queue blk_demo_mem" "q_size blk_demo_queue \<noteq> 0"
  by (simp_all add: avail_ok_def used_ok_def blk_demo_wf blk_demo_cells blk_demo_queue_def avail_bytes_def
      used_bytes_def)

lemma blk_demo_desc_ok: "unat i < 6 \<Longrightarrow> desc_ok blk_demo_queue blk_demo_mem i"
proof -
  assume i: "unat i < 6"
  have "unat ((ucast i :: u64) * 16) = unat i * 16"
    using i by (simp add: unat_word_ariths unat_ucast_up)
  with i show ?thesis
    by (simp add: desc_ok_def blk_demo_wf desc_base_def blk_demo_queue_def blk_demo_cells)
qed

abbreviation blk_demo_out :: virtq_desc where
  "blk_demo_out \<equiv> \<lparr>desc_buf = 160, desc_len = 4, desc_flags = 1, desc_next = 2\<rparr>"

abbreviation blk_demo_in :: virtq_desc where
  "blk_demo_in \<equiv> \<lparr>desc_buf = 164, desc_len = 4, desc_flags = 3, desc_next = 5\<rparr>"

lemma blk_demo_values:
  "pending blk_demo_queue blk_demo_mem = [0, 3]"
  "desc_at blk_demo_queue blk_demo_mem 0 = \<lparr>desc_buf = 96, desc_len = 16, desc_flags = 1, desc_next = 1\<rparr>"
  "desc_at blk_demo_queue blk_demo_mem 1 = blk_demo_out"
  "desc_at blk_demo_queue blk_demo_mem 2 = \<lparr>desc_buf = 168, desc_len = 1, desc_flags = 2, desc_next = 0\<rparr>"
  "desc_at blk_demo_queue blk_demo_mem 3 = \<lparr>desc_buf = 112, desc_len = 16, desc_flags = 1, desc_next = 4\<rparr>"
  "desc_at blk_demo_queue blk_demo_mem 4 = blk_demo_in"
  "desc_at blk_demo_queue blk_demo_mem 5 = \<lparr>desc_buf = 169, desc_len = 1, desc_flags = 2, desc_next = 0\<rparr>"
  "blk_header blk_demo_mem 96 = \<lparr>rqst_type = True, sector = 0\<rparr>"
  "blk_header blk_demo_mem 112 = \<lparr>rqst_type = False, sector = 0\<rparr>"
  "bytes_at blk_demo_mem 160 4 = [9, 8, 7, 6]" "bytes_at blk_demo_mem 164 4 = [0, 0, 0, 0]"
  by code_simp+

lemma blk_demo_plan:
  "blk_plan blk_demo_queue blk_demo_mem 0 = Transfer True 0 blk_demo_out 168"
  "blk_plan blk_demo_queue blk_demo_mem 3 = Transfer False 0 blk_demo_in 169"
  by (simp_all add: blk_plan_def Let_def blk_demo_values)

lemma blk_demo_req: "blk_req blk_demo_queue blk_demo_mem 0" "blk_req blk_demo_queue blk_demo_mem 3"
  by (simp_all add: blk_req_def blk_demo_plan blk_demo_values blk_demo_desc_ok blk_demo_cells blk_demo_backed)

lemma blk_demo_areas:
  "avail_area blk_demo_queue = {128..<136}" "used_area blk_demo_queue = {140..<160}"
  "blk_writes blk_demo_queue blk_demo_mem 0 = {168..<169}"
  "blk_writes blk_demo_queue blk_demo_mem 3 = {164..<168} \<union> {169..<170}"
  "blk_reads blk_demo_queue blk_demo_mem 0 = {0..<16} \<union> ({16..<32} \<union> {32..<48} \<union> {96..<112}) \<union> {160..<164}"
  "blk_reads blk_demo_queue blk_demo_mem 3 = {48..<64} \<union> ({64..<80} \<union> {80..<96} \<union> {112..<128})"
  by (simp_all add: avail_area_def used_area_def desc_area_def desc_base_def span_def avail_bytes_def
      used_bytes_def blk_demo_plan blk_writes_def blk_reads_def blk_source_def blk_chain_def blk_demo_values)
    (auto simp: blk_demo_queue_def)

lemma blk_demo_counts: "pending_count blk_demo_queue blk_demo_mem = 2" "last_used_idx blk_demo_queue = 0"
proof -
  show "pending_count blk_demo_queue blk_demo_mem = 2"
    using arg_cong [OF blk_demo_values(1), of length] by simp
  show "last_used_idx blk_demo_queue = 0" by (simp add: blk_demo_queue_def)
qed

lemma blk_demo_driver:
  "driver_ok blk_req blk_reads blk_writes blk_demo_queue blk_demo_mem"
  "answers_apart blk_writes blk_demo_queue blk_demo_mem (pending blk_demo_queue blk_demo_mem)"
  by (auto simp: driver_ok_def blk_demo_ok blk_demo_values blk_demo_req footprints_ok_def answers_apart_def blk_demo_areas)

section \<open>Properties\<close>

text \<open>C4: A tick of the block device serves the first 64 pending requests, in order and exactly once each: it returns, and
  afterwards the disk image is the one that the effects of these requests leave when they are applied one after the
  other, the used ring has, one entry per request and in their order, the head and the length of each (0 for a
  request that is given back), the status byte of every transfer is the one of its effect on the image that
  the earlier requests left, and the buffer of every successful read holds the bytes of that image. Later requests stay
  pending, and no guest memory but the used ring, the buffers of reads and the status bytes is touched. The
  driver keeps to the contract of the queue: no two answers overlap, nothing that is written is also read, and at most as many
  requests are in flight as the ring has entries, whose number divides $2^{16}$.\<close>

theorem blk_tick_serves_batch:
  assumes "blk_guest_memory d" "driver_ok blk_req blk_reads blk_writes q m"
    and "answers_apart blk_writes q m (take 64 (pending q m))"
    and "unat (q_size q) dvd 2 ^ 16" "length (pending q m) \<le> unat (q_size q)"
  shows "\<exists>q' m' w. blk_tick env p d 0 q m =
      Some (d\<lparr>blk_file := fold (blk_image env q m) (take 64 (pending q m)) (blk_file d)\<rparr>, q', m', w) \<and>
    pending q' m' = drop 64 (pending q m) \<and>
    last_used_idx q' = last_used_idx q + of_nat (min 64 (length (pending q m))) \<and>
    (\<forall>i < min 64 (length (pending q m)).
      let h = pending q m ! i; f = fold (blk_image env q m) (take i (pending q m)) (blk_file d)
      in used_entry q m' (last_used_idx q + of_nat i) = (ucast h, blk_used_len env q m h f) \<and>
         blk_answered env q m h f m') \<and>
    modifies (used_area q \<union> (\<Union>h \<in> set (take 64 (pending q m)). blk_writes q m h)) m m'"
proof -
  obtain d' q' m' w where r: "batch_pop 64 p (blk_body env p) (d, q, m, False) = Some (d', q', m', w)"
      "pending q' m' = drop 64 (pending q m)"
      "last_used_idx q' = last_used_idx q + of_nat (min 64 (length (pending q m)))"
    using blk_loop.batch_pop_serves [where env = env and d = d and q = q and m = m and n = 64 and p = p and w = False]
      assms(2) by auto
  have "min 64 (pending_count q m) \<le> unat (q_size q)" using assms(5) by simp
  from blk_loop.batch_pop_transacts [OF TrueI assms(2,3,4) this r(1)] show ?thesis
    using r assms(1) blk_loop.batch_pop_confined [OF TrueI assms(2) r(1)]
    by (simp add: blk_tick_def MAX_BATCH_def fold_blk_after Let_def)
qed

text \<open>The write of four bytes and then the read of the same sector.\<close>

theorem blk_tick_serves_batch_witness:
  "\<exists>q' m' w. blk_tick good_disk Dev ((new_blk [1, 2, 3, 4])\<lparr>blk_guest_memory := True\<rparr>) 0 blk_demo_queue blk_demo_mem =
     Some ((new_blk [1, 2, 3, 4])\<lparr>blk_guest_memory := True, blk_file := \<lparr>file_bytes = [9, 8, 7, 6], file_pos = 4\<rparr>\<rparr>, q', m', w) \<and>
     pending q' m' = [] \<and> used_entry blk_demo_queue m' 0 = (0, 4) \<and> used_entry blk_demo_queue m' 1 = (3, 4) \<and>
     bytes_at m' 168 1 = [0] \<and> bytes_at m' 169 1 = [0] \<and> bytes_at m' 164 4 = [9, 8, 7, 6]"
proof -
  let ?d = "(new_blk [1, 2, 3, 4])\<lparr>blk_guest_memory := True\<rparr>"
  let ?old = "\<lparr>file_bytes = [1, 2, 3, 4], file_pos = 0\<rparr>" and ?f = "\<lparr>file_bytes = [9, 8, 7, 6], file_pos = 4\<rparr>"
  have img: "blk_file ?d = ?old" by (simp add: new_blk_def)
  have out: "blk_outcome good_disk blk_demo_queue blk_demo_mem 0 ?old = Some (?f, [], 0)"
    "blk_outcome good_disk blk_demo_queue blk_demo_mem 3 ?f = Some (?f, [9, 8, 7, 6], 0)"
    by (simp_all add: blk_outcome_def blk_demo_plan blk_effect_def file_seek_def file_write_all_def file_read_exact_def
        store_bytes_def copy_at_def good_disk_def blk_demo_values)
  have p: "take 64 (pending blk_demo_queue blk_demo_mem) = [0, 3]" "length (pending blk_demo_queue blk_demo_mem) = 2"
    "drop 64 (pending blk_demo_queue blk_demo_mem) = []"
    by (simp_all only: blk_demo_values) simp_all
  have sz: "unat (q_size blk_demo_queue) = 2" by (simp add: blk_demo_queue_def)
  have two: "(\<forall>i < min 64 (2 :: nat). P i) \<longleftrightarrow> P 0 \<and> P 1" for P by (auto simp: less_Suc_eq numeral_2_eq_2)
  have "answers_apart blk_writes blk_demo_queue blk_demo_mem (take 64 (pending blk_demo_queue blk_demo_mem))"
    using blk_demo_driver(2) by (simp add: blk_demo_values(1))
  from blk_tick_serves_batch [of ?d, OF _ blk_demo_driver(1) this, of good_disk Dev]
  show ?thesis
    unfolding p sz two img blk_demo_counts
    by (auto simp: blk_image_def out blk_used_len_def blk_answered_def blk_demo_plan blk_demo_values span_def Let_def)
qed

text \<open>C5: Serving one transfer refines its effect on the disk image: the image afterwards, the bytes in
  the guest's buffer and the status byte are those of the effect, and the used ring reports the head
  with the length of the buffer.\<close>

theorem blk_transfer_refines:
  assumes "blk_req q m h" "used_ok q m" "q_size q \<noteq> 0" "blk_plan q m h = Transfer wr s b st"
    and "blk_effect env wr s (blk_file d) (bytes_at m (desc_buf b) (unat (desc_len b))) = Some (f', bs', c)"
    and "span (desc_buf b) (unat (desc_len b)) \<inter> span st 1 = {}"
    and "used_area q \<inter> (span (desc_buf b) (unat (desc_len b)) \<union> span st 1) = {}"
  shows "\<exists>m'. blk_body env p h (d, q, m, w) =
      Some (d\<lparr>blk_file := f'\<rparr>, q\<lparr>last_used_idx := last_used_idx q + 1\<rparr>, m', True) \<and>
    bytes_at m' (desc_buf b) (unat (desc_len b)) = bs' \<and> bytes_at m' st 1 = [c] \<and>
    used_entry q m' (last_used_idx q) = (ucast h, desc_len b)"
  by (rule blk_body_effect [OF assms])

theorem blk_transfer_refines_witness:
  "\<exists>m'. blk_body good_disk Dev 3 (new_blk [1, 2, 3, 4], blk_demo_queue, blk_demo_mem, False) =
      Some ((new_blk [1, 2, 3, 4])\<lparr>blk_file := \<lparr>file_bytes = [1, 2, 3, 4], file_pos = 4\<rparr>\<rparr>,
        blk_demo_queue\<lparr>last_used_idx := 1\<rparr>, m', True) \<and>
    bytes_at m' 164 4 = [1, 2, 3, 4] \<and> bytes_at m' 169 1 = [0]"
proof -
  have eff: "blk_effect good_disk False 0 (blk_file (new_blk [1, 2, 3, 4])) [0, 0, 0, 0] =
      Some (\<lparr>file_bytes = [1, 2, 3, 4], file_pos = 4\<rparr>, [1, 2, 3, 4], 0)"
    by (simp add: blk_effect_def file_seek_def file_read_exact_def good_disk_def new_blk_def)
  have "{140..<160} \<inter> ({164..<168} \<union> {169..<170 :: nat}) = {}" by auto
  then show ?thesis
    using blk_transfer_refines [OF blk_demo_req(2) blk_demo_ok(2,3) blk_demo_plan(2),
        of good_disk "new_blk [1, 2, 3, 4]" _ _ _ Dev False] eff
    by (auto simp: blk_demo_values blk_demo_areas blk_demo_counts span_def)
qed

text \<open>C6: The image is storage: when a guest's write request and then a read request of the same sector and
  length are served on a host without I/O errors, both report success, the bytes in the buffer of the
  read are those that the guest wrote, and no byte of the image outside the written range has
  changed.\<close>

theorem blk_write_then_read:
  assumes "blk_req q m h1" "blk_req q m h2" "used_ok q m" "q_size q \<noteq> 0"
    and "blk_plan q m h1 = Transfer True s b1 st1" "blk_plan q m h2 = Transfer False s b2 st2"
    and "desc_len b2 = desc_len b1" "error_free env"
    and "(used_area q \<union> blk_writes q m h1) \<inter> blk_reads q m h2 = {}"
    and "span (desc_buf b2) (unat (desc_len b2)) \<inter> span st2 1 = {}"
    and "used_area q \<inter> (span (desc_buf b2) (unat (desc_len b2)) \<union> span st2 1) = {}"
  shows "\<exists>d1 q1 m1 d2 q2 m2. blk_body env p h1 (d, q, m, w) = Some (d1, q1, m1, True) \<and>
    blk_body env p h2 (d1, q1, m1, True) = Some (d2, q2, m2, True) \<and>
    bytes_at m2 (desc_buf b2) (unat (desc_len b2)) = bytes_at m (desc_buf b1) (unat (desc_len b1)) \<and>
    bytes_at m2 st2 1 = [0] \<and> (used_area q \<inter> span st1 1 = {} \<longrightarrow> bytes_at m1 st1 1 = [0]) \<and>
    (\<forall>k < length (file_bytes (blk_file d)).
      \<not> (unat (s * 512) \<le> k \<and> k < unat (s * 512) + unat (desc_len b1)) \<longrightarrow>
      file_bytes (blk_file d2) ! k = file_bytes (blk_file d) ! k)"
proof -
  let ?n = "unat (desc_len b1)" and ?q1 = "q\<lparr>last_used_idx := last_used_idx q + 1\<rparr>"
  let ?buf = "bytes_at m (desc_buf b1) ?n"
  from assms(3) have wf: "wf_mem m" by (simp add: used_ok_def)
  note len = length_bytes_at [OF blk_req_Transfer(1) [OF assms(1,5)] wf]
  obtain f1 where eff1: "blk_effect env True s (blk_file d) ?buf = Some (f1, ?buf, 0)"
    using assms(8) by (auto simp: blk_effect_def file_seek_def file_write_all_def error_free_def Let_def)
  obtain ma m1 where b1: "blk_body env p h1 (d, q, m, w) = Some (d\<lparr>blk_file := f1\<rparr>, ?q1, m1, True)"
      "modifies (used_area q \<union> blk_writes q m h1) m m1"
      "modifies (blk_writes q m h1) m ma" "modifies (used_area q) ma m1" "bytes_at ma st1 1 = [0]"
    by (rule blk_body_transfers [OF assms(1,3,4,5) eff1, of p w])
  have "backed ma st1 1" using blk_req_Transfer(2) [OF assms(1,5)] b1(3) by (simp add: modifies_backed)
  from modifies_bytes [OF b1(4) this] b1(5) have st1: "used_area q \<inter> span st1 1 = {} \<longrightarrow> bytes_at m1 st1 1 = [0]"
    by (auto simp: Int_commute)
  have ss: "same_setup q ?q1" by (simp add: same_setup_def)
  have st: "blk_req ?q1 m1 h2" "blk_plan ?q1 m1 h2 = Transfer False s b2 st2"
    using blk_stable [OF assms(2) b1(2) assms(9) ss] assms(6) by simp_all
  have ok1: "used_ok ?q1 m1" by (rule rings_ok_modifies(2) [OF b1(2) ss assms(3)])
  have wf1: "wf_mem m1" by (rule modifies_wf [OF b1(2)])
  note len2 = length_bytes_at [OF blk_req_Transfer(1) [OF st] wf1]
  note wr = effect_write_then_read [OF eff1, of "bytes_at m1 (desc_buf b2) (unat (desc_len b2))"]
  obtain f2 where eff2: "blk_effect env False s f1 (bytes_at m1 (desc_buf b2) (unat (desc_len b2))) = Some (f2, ?buf, 0)"
      "file_bytes f2 = file_bytes f1"
    using wr assms(7,8) len len2 by (auto simp: error_free_def)
  obtain m2 where "blk_body env p h2 (d\<lparr>blk_file := f1\<rparr>, ?q1, m1, True) =
        Some (d\<lparr>blk_file := f1, blk_file := f2\<rparr>, ?q1\<lparr>last_used_idx := last_used_idx ?q1 + 1\<rparr>, m2, True)"
      "bytes_at m2 (desc_buf b2) (unat (desc_len b2)) = ?buf" "bytes_at m2 st2 1 = [0]"
    using blk_body_effect [OF st(1) ok1 _ st(2), of env "d\<lparr>blk_file := f1\<rparr>" f2 ?buf 0 p True]
      eff2(1) assms(4,10,11) by (auto simp: same_setup_area [OF ss])
  moreover have "\<forall>k < length (file_bytes (blk_file d)). \<not> (unat (s * 512) \<le> k \<and> k < unat (s * 512) + ?n) \<longrightarrow>
      file_bytes f2 ! k = file_bytes (blk_file d) ! k"
    using wr assms(7,8) len len2 eff2(2) by (auto simp: error_free_def)
  ultimately show ?thesis using b1(1) st1 by (intro exI conjI) (auto simp: assms(7))
qed

theorem blk_write_then_read_witness:
  "\<exists>d1 q1 m1 d2 q2 m2. blk_body good_disk Dev 0 (new_blk [1, 2, 3, 4, 5], blk_demo_queue, blk_demo_mem, False) = Some (d1, q1, m1, True) \<and>
    blk_body good_disk Dev 3 (d1, q1, m1, True) = Some (d2, q2, m2, True) \<and> bytes_at m2 164 4 = [9, 8, 7, 6]"
proof -
  have "{140..<160} \<inter> ({164..<168} \<union> {169..<170 :: nat}) = {}"
    "({140..<160} \<union> {168..<169 :: nat}) \<inter> ({48..<64} \<union> ({64..<80} \<union> {80..<96} \<union> {112..<128})) = {}" by auto
  then show ?thesis
    using blk_write_then_read [OF blk_demo_req blk_demo_ok(2,3) blk_demo_plan, of good_disk Dev "new_blk [1, 2, 3, 4, 5]" False]
    by (fastforce simp: blk_demo_values blk_demo_areas span_def error_free_def good_disk_def)
qed

text \<open>A request that the block device gives back unserved is completed in the used ring with length
  zero, but when it is the only one pending the tick reports no work, so the driver is sent no
  interrupt for the completion.\<close>

theorem blk_skipped_request_is_silent:
  assumes "blk_guest_memory d" "avail_ok q m" "used_ok q m" "q_size q \<noteq> 0" "pending q m = [h]"
    and "blk_req q m h" "blk_plan q m h = Skip" "used_area q \<inter> avail_area q = {}"
  shows "\<exists>m'. blk_tick env p d 0 q m = Some (d, (take_head q)\<lparr>last_used_idx := last_used_idx q + 1\<rparr>, m', False) \<and>
    used_entry q m' (last_used_idx q) = (ucast h, 0)"
proof -
  let ?q = "take_head q"
  have wf: "wf_mem m" using assms(3) by (simp add: used_ok_def)
  note st = blk_loop.stable_take_head [OF assms(6) wf]
  have pl: "blk_plan ?q m h = Skip"
    using blk_stable [OF assms(6) modifies_refl [OF wf, of "{}"], of ?q] assms(7) by simp
  obtain m' where m': "blk_body env p h (d, ?q, m, False) =
       Some (d, ?q\<lparr>last_used_idx := last_used_idx ?q + 1\<rparr>, m', False)"
      "modifies (used_area ?q) m m'" "used_entry ?q m' (last_used_idx ?q) = (ucast h, 0)"
    by (rule blk_body_gives_back [OF st(1), of env p d False]) (use assms pl in simp_all)
  let ?q' = "?q\<lparr>last_used_idx := last_used_idx q + 1\<rparr>"
  have av: "avail_ok ?q' m'"
    by (rule rings_ok_modifies(1) [OF m'(2) _ assms(2)]) (simp add: same_setup_def take_head_def)
  have "pending ?q' m' = pending ?q m"
    by (rule pending_cong [OF _ m'(2)])
      (use assms in \<open>auto simp: avail_ok_def take_head_def avail_bytes_def avail_area_def used_area_def used_bytes_def\<close>)
  then have nil: "pending ?q' m' = []" using pending_Cons(1) [OF assms(5)] by simp
  have "batch_pop (Suc (Suc n)) p (blk_body env p) (d, q, m, False) = Some (d, ?q', m', False)" for n
    using pop_avail_refines [OF assms(2), of p] assms(5) m'(1) pop_avail_refines [OF av, of p] nil by simp
  from this [of 62] have "batch_pop 64 p (blk_body env p) (d, q, m, False) = Some (d, ?q', m', False)" by simp
  moreover have "used_entry q m' (last_used_idx q) = used_entry ?q m' (last_used_idx ?q)"
    by (simp add: used_entry_def take_head_def)
  ultimately show ?thesis using m'(3) assms(1) by (auto simp: blk_tick_def MAX_BATCH_def)
qed

end
