(* ===== verification/Virtio_Net.thy ===== *)
theory Virtio_Net
  imports Virtio_Device
begin

text \<open>
  The network device, \<^verbatim>\<open>devices/virtio/devices/net.rs\<close>, and the packet side of the TAP device,
  \<^verbatim>\<open>platform/networking/tap.rs\<close>. What the host's network answers to \<^verbatim>\<open>recv\<close> and \<^verbatim>\<open>send\<close> is a parameter, a
  function of the number of calls so far. The creation of the interface is not modelled.
\<close>

section \<open>The TAP device\<close>

datatype tap_reply = Packet "u8 list" | WouldBlock | RecvError

record tap_host =
  tap_recv :: "nat \<Rightarrow> tap_reply"
  tap_send_ok :: "nat \<Rightarrow> u8 list \<Rightarrow> bool"

record tap_device =
  packet_recive_queue :: "u8 list list"
  tap_polls :: nat
  tap_sent :: "u8 list list"

definition new_tap :: tap_device where
  "new_tap = \<lparr>packet_recive_queue = [], tap_polls = 0, tap_sent = []\<rparr>"

definition get_next_packet :: "tap_device \<Rightarrow> u8 list option \<times> tap_device" where
  "get_next_packet t =
     (case packet_recive_queue t of
        [] \<Rightarrow> (None, t)
      | fr # frs \<Rightarrow> (Some fr, t\<lparr>packet_recive_queue := frs\<rparr>))"

definition add_packet_font :: "tap_device \<Rightarrow> u8 list \<Rightarrow> tap_device" where
  "add_packet_font t packet = t\<lparr>packet_recive_queue := packet # packet_recive_queue t\<rparr>"

text \<open>The result says whether the host took the packet; \<open>tap_sent\<close> are the packets it was given.\<close>

definition send_packet :: "tap_host \<Rightarrow> tap_device \<Rightarrow> u8 list \<Rightarrow> bool \<times> tap_device" where
  "send_packet host t packet =
     (tap_send_ok host (length (tap_sent t)) packet, t\<lparr>tap_sent := tap_sent t @ [packet]\<rparr>)"

definition tap_update :: "tap_host \<Rightarrow> tap_device \<Rightarrow> tap_device" where
  "tap_update host t =
     (let reply = tap_recv host (tap_polls t);
          t = t\<lparr>tap_polls := tap_polls t + 1\<rparr>
      in case reply of
           Packet packet \<Rightarrow> t\<lparr>packet_recive_queue := packet_recive_queue t @ [packet]\<rparr>
         | WouldBlock \<Rightarrow> t
         | RecvError \<Rightarrow> t)"

section \<open>The device\<close>

definition VIRTIO_NET_F_MAC :: nat where "VIRTIO_NET_F_MAC = 5"
definition VIRTIO_NET_F_STATUS :: nat where "VIRTIO_NET_F_STATUS = 16"

record net_virtio_config =
  net_mac :: "u8 list"
  net_status :: u16

definition new_net_config :: "u8 list \<Rightarrow> u16 \<Rightarrow> net_virtio_config" where
  "new_net_config mac st = \<lparr>net_mac = mac, net_status = st\<rparr>"

definition net_config_to_bytes :: "net_virtio_config \<Rightarrow> usize \<Rightarrow> u8 list" where
  "net_config_to_bytes c len = vec_resize (net_mac c @ le16 (net_status c)) len 0"

record net_virtio =
  net_guest_memory :: bool
  net_tap :: tap_device
  net_config :: net_virtio_config

definition new_net :: "tap_device \<Rightarrow> net_virtio" where
  "new_net t = \<lparr>net_guest_memory = False, net_tap = t,
     net_config = new_net_config [0x02, 0x00, 0x00, 0x00, 0x00, 0x01] 1\<rparr>"

text \<open>The receive queue: packets from the TAP device into guest buffers, until either runs out.\<close>

function net_rx :: "profile \<Rightarrow> tap_device \<Rightarrow> virtio_queue \<Rightarrow> guest_memory \<Rightarrow> bool \<Rightarrow> tap_device loop_state option" where
  "net_rx p t q m did_work =
     (case get_next_packet t of
        (None, t) \<Rightarrow> Some (t, q, m, did_work)
      | (Some eth_frame, t) \<Rightarrow>
          do {
            (popped, q) \<leftarrow> pop_avail p q m;
            case popped of
              None \<Rightarrow> Some (add_packet_font t eth_frame, q, m, did_work)
            | Some head \<Rightarrow>
                do {
                  desc \<leftarrow> get_descriptor p q m head;
                  if unat (desc_len desc) < length eth_frame + 12 then
                    do { (q, m) \<leftarrow> push_used p q m head 0; net_rx p t q m did_work }
                  else do {
                    m \<leftarrow> write_guest_memory p m (desc_buf desc) (replicate 12 0);
                    body \<leftarrow> add_chk p (desc_buf desc) 12;
                    m \<leftarrow> write_guest_memory p m body eth_frame;
                    (q, m) \<leftarrow> push_used p q m head (of_nat (12 + length eth_frame));
                    net_rx p t q m True
                  }
                }
          })"
  by pat_completeness auto
termination
  by (relation "measure (\<lambda>(p, t, q, m, w). length (packet_recive_queue t))") (auto simp: get_next_packet_def split: list.splits)

declare net_rx.simps [simp del]

text \<open>The transmit queue: one guest buffer.\<close>

definition net_tx_body :: "tap_host \<Rightarrow> profile \<Rightarrow> u16 \<Rightarrow> tap_device loop_state \<Rightarrow> tap_device loop_state option" where
  "net_tx_body host p head = (\<lambda>(t, q, m, did_work).
     do {
       desc \<leftarrow> get_descriptor p q m head;
       if desc_len desc < 12 then do { (q, m) \<leftarrow> push_used p q m head 0; Some (t, q, m, did_work) }
       else do {
         n \<leftarrow> sub_chk p (desc_len desc) 12;
         a \<leftarrow> add_chk p (desc_buf desc) 12;
         eth_frame \<leftarrow> read_guest_memory p m a (replicate (unat n) 0);
         let (sent, t) = send_packet host t eth_frame;
         (q, m) \<leftarrow> push_used p q m head (desc_len desc);
         Some (t, q, m, True)
       }
     })"

definition net_tick ::
    "tap_host \<Rightarrow> profile \<Rightarrow> net_virtio \<Rightarrow> usize \<Rightarrow> virtio_queue \<Rightarrow> guest_memory \<Rightarrow> net_virtio loop_state option" where
  "net_tick host p d sel q m =
     (if sel = 0 then
        (if \<not> net_guest_memory d then Some (d, q, m, False)
         else do { (t, q, m, w) \<leftarrow> net_rx p (net_tap d) q m False; Some (d\<lparr>net_tap := t\<rparr>, q, m, w) })
      else if sel = 1 then
        (if \<not> net_guest_memory d then Some (d, q, m, False)
         else do {
           (t, q, m, w) \<leftarrow> while_pop (2 ^ 16) p (net_tx_body host p) (net_tap d, q, m, False);
           Some (d\<lparr>net_tap := t\<rparr>, q, m, w)
         })
      else Some (d, q, m, False))"

definition net_ops :: "tap_host \<Rightarrow> profile \<Rightarrow> net_virtio virtio_ops" where
  "net_ops host p =
     \<lparr>virtio_type = (\<lambda>d. 0x01),
      features = (\<lambda>d. push_bit VIRTIO_NET_F_MAC 1 OR push_bit VIRTIO_NET_F_STATUS 1),
      negotiate_features = default_negotiate_features,
      pass_memory = (\<lambda>d. d\<lparr>net_guest_memory := True\<rparr>), dev_tick = net_tick host p,
      read_config = (\<lambda>d n. net_config_to_bytes (net_config d) n), write_config = default_write_config,
      dev_update = (\<lambda>d qs. (d\<lparr>net_tap := tap_update host (net_tap d)\<rparr>, qs, False)),
      dev_reset = (\<lambda>d. d\<lparr>net_tap := (net_tap d)\<lparr>packet_recive_queue := []\<rparr>\<rparr>)\<rparr>"

section \<open>The device interface\<close>

lemma net_tx_setup: "net_tx_body host p h (d, q, m, w) = Some (d', q', m', w') \<Longrightarrow> same_setup q q'"
  by (auto simp: net_tx_body_def Let_def split: if_splits prod.splits elim!: bind_SomeE dest!: push_used_setup)

text \<open>The receive loop, seen as a loop over guest buffers: as many as there are packets, each taking the
  next packet. Without a packet a buffer would be given back empty; the loop never gets there.\<close>

definition net_rx_body :: "profile \<Rightarrow> u16 \<Rightarrow> tap_device loop_state \<Rightarrow> tap_device loop_state option" where
  "net_rx_body p head = (\<lambda>(t, q, m, did_work).
     case get_next_packet t of
       (None, t) \<Rightarrow> do { (q, m) \<leftarrow> push_used p q m head 0; Some (t, q, m, did_work) }
     | (Some eth_frame, t) \<Rightarrow>
         do {
           desc \<leftarrow> get_descriptor p q m head;
           if unat (desc_len desc) < length eth_frame + 12 then
             do { (q, m) \<leftarrow> push_used p q m head 0; Some (t, q, m, did_work) }
           else do {
             m \<leftarrow> write_guest_memory p m (desc_buf desc) (replicate 12 0);
             body \<leftarrow> add_chk p (desc_buf desc) 12;
             m \<leftarrow> write_guest_memory p m body eth_frame;
             (q, m) \<leftarrow> push_used p q m head (of_nat (12 + length eth_frame));
             Some (t, q, m, True)
           }
         })"

lemma net_rx_batch:
  "net_rx p t q m w = batch_pop (length (packet_recive_queue t)) p (net_rx_body p) (t, q, m, w)"
proof (induction "packet_recive_queue t" arbitrary: t q m w)
  case Nil
  then show ?case by (subst net_rx.simps) (simp add: get_next_packet_def split: list.splits)
next
  case (Cons fr frs)
  let ?t = "t\<lparr>packet_recive_queue := frs\<rparr>"
  have nxt: "get_next_packet t = (Some fr, ?t)" by (simp add: get_next_packet_def Cons.hyps(2) [symmetric])
  have putback: "add_packet_font ?t fr = t" by (simp add: add_packet_font_def Cons.hyps(2))
  have len: "length (packet_recive_queue t) = Suc (length frs)" by (simp add: Cons.hyps(2) [symmetric])
  have IH: "net_rx p ?t q' m' w' = batch_pop (length frs) p (net_rx_body p) (?t, q', m', w')" for q' m' w'
    using Cons.hyps(1) [of ?t] by simp
  show ?case
    by (subst net_rx.simps)
      (simp add: nxt putback len IH net_rx_body_def split: option.splits bind_splits)
qed

lemma net_rx_body_setup: "net_rx_body p h (d, q, m, w) = Some (d', q', m', w') \<Longrightarrow> same_setup q q'"
  by (auto simp: net_rx_body_def split: if_splits prod.splits option.splits elim!: bind_SomeE dest!: push_used_setup)

interpretation net: virtio_device_config "net_ops host p" for host p
proof (unfold_locales, goal_cases)
  case (1 d i q m d' q' m' w)
  then show ?case
    by (auto simp: net_ops_def net_tick_def split: if_splits elim!: bind_SomeE
        simp: net_rx_batch intro: while_pop_setup [OF net_tx_setup] batch_pop_setup [OF net_rx_body_setup])
next
  case (2 d qs d' qs' w)
  then show ?case by (auto simp: net_ops_def list_all2_same)
next
  case (3 d n)
  then show ?case by (simp add: net_ops_def net_config_to_bytes_def)
qed

section \<open>Transmission\<close>

text \<open>The frame that a guest buffer holds behind its 12-byte header; a shorter buffer holds none.\<close>

definition net_frame :: "virtio_queue \<Rightarrow> guest_memory \<Rightarrow> u16 \<Rightarrow> u8 list list" where
  "net_frame q m h =
     (let d = desc_at q m h in
      if unat (desc_len d) < 12 then [] else [bytes_at m (desc_buf d + 12) (unat (desc_len d) - 12)])"

definition net_tx_req :: "virtio_queue \<Rightarrow> guest_memory \<Rightarrow> u16 \<Rightarrow> bool" where
  "net_tx_req q m h \<longleftrightarrow> desc_ok q m h \<and>
     (let d = desc_at q m h in
      12 \<le> unat (desc_len d) \<longrightarrow> unat (desc_buf d) + unat (desc_len d) < 2 ^ 64 \<and> cells_ok m (desc_buf d) (unat (desc_len d)))"

definition net_tx_reads :: "virtio_queue \<Rightarrow> guest_memory \<Rightarrow> u16 \<Rightarrow> nat set" where
  "net_tx_reads q m h = desc_area q h \<union> span (desc_buf (desc_at q m h)) (unat (desc_len (desc_at q m h)))"

definition net_tx_effect :: "virtio_queue \<Rightarrow> guest_memory \<Rightarrow> u16 \<Rightarrow> tap_device \<Rightarrow> tap_device" where
  "net_tx_effect q m h t = t\<lparr>tap_sent := tap_sent t @ net_frame q m h\<rparr>"

lemma net_tx_stable:
  assumes "net_tx_req q m h" "modifies S m m'" "S \<inter> net_tx_reads q m h = {}" "same_setup q q'"
  shows "net_tx_req q' m' h" "net_tx_reads q' m' h = net_tx_reads q m h" "net_frame q' m' h = net_frame q m h"
proof -
  let ?d = "desc_at q m h" and ?n = "unat (desc_len (desc_at q m h))"
  from assms have d: "desc_ok q m h" "S \<inter> desc_area q h = {}" "S \<inter> span (desc_buf ?d) ?n = {}"
    by (auto simp: net_tx_req_def net_tx_reads_def)
  note keeps = desc_keeps [OF assms(4)]
  have e: "desc_at q' m' h = ?d" by (rule keeps(2) [OF d(1) assms(2) d(2)])
  show "net_tx_req q' m' h"
    using assms(1) keeps(3) [OF d(1) assms(2) d(2)]
    by (simp add: net_tx_req_def e cells_ok_modifies [OF assms(2)] Let_def)
  show "net_tx_reads q' m' h = net_tx_reads q m h" by (simp add: net_tx_reads_def keeps(1) e)
  have "bytes_at m' (desc_buf ?d + 12) (?n - 12) = bytes_at m (desc_buf ?d + 12) (?n - 12)" if "12 < ?n"
  proof -
    from assms(1) that have c: "cells_ok m (desc_buf ?d) ?n" by (auto simp: net_tx_req_def Let_def)
    note k = cells_okD [OF c, of 12 "?n - 12"]
    show ?thesis
      by (rule modifies_bytes [OF assms(2)]) (use k that d(3) in \<open>auto simp: span_def\<close>)
  qed
  then show "net_frame q' m' h = net_frame q m h"
    by (cases "?n = 12") (auto simp: net_frame_def e Let_def)
qed

lemma net_tx_serves:
  assumes "net_tx_req q m h" "used_ok q m" "q_size q \<noteq> 0"
  obtains m' where "net_tx_body host p h (t, q, m, w) =
      Some (net_tx_effect q m h t, q\<lparr>last_used_idx := last_used_idx q + 1\<rparr>, m',
        w \<or> 12 \<le> unat (desc_len (desc_at q m h)))"
    "modifies (used_area q) m m'"
proof -
  let ?d = "desc_at q m h" and ?n = "unat (desc_len (desc_at q m h))"
  from assms have wf: "wf_mem m" and ok: "desc_ok q m h" by (auto simp: net_tx_req_def used_ok_def)
  note gd = get_descriptor_spec [OF ok, of p]
  have short: "desc_len ?d < 12 \<longleftrightarrow> ?n < 12" by (simp add: word_less_nat_alt)
  obtain m' where m': "push_used p q m h (if ?n < 12 then 0 else desc_len ?d) =
        Some (q\<lparr>last_used_idx := last_used_idx q + 1\<rparr>, m')" "modifies (used_area q) m m'"
    by (rule push_used_after [OF assms(2,3) modifies_refl [OF wf]])
  show thesis
  proof (cases "?n < 12")
    case True
    with m' gd short show thesis
      by (intro that [of m']) (simp_all add: net_tx_body_def net_tx_effect_def net_frame_def)
  next
    case False
    with assms(1) have b: "unat (desc_buf ?d) + ?n < 2 ^ 64" "cells_ok m (desc_buf ?d) ?n"
      by (auto simp: net_tx_req_def Let_def)
    have a: "add_chk p (desc_buf ?d) 12 = Some (desc_buf ?d + 12)"
      using b(1) False by (simp add: add_chk_def)
    have n: "sub_chk p (desc_len ?d) 12 = Some (desc_len ?d - 12)" "unat (desc_len ?d - 12) = ?n - 12"
      using False by (simp_all add: sub_chk_fits word_le_nat_alt unat_sub_le)
    have "read_guest_memory p m (desc_buf ?d + 12) (replicate (?n - 12) 0) =
        Some (bytes_at m (desc_buf ?d + 12) (?n - 12))"
      using read_buffer [OF wf, of "desc_buf ?d + 12" "?n - 12" p] cells_okD(3) [OF b(2), of 12 "?n - 12"] False
      by (cases "?n = 12") (simp_all add: read_guest_memory_def read_guest_memory_alloc_def)
    with m' gd short a n False show thesis
      by (intro that [of m']) (simp_all add: net_tx_body_def net_tx_effect_def net_frame_def send_packet_def Let_def)
  qed
qed

interpretation net_tx: footprint_effect p "net_tx_body host p" "\<lambda>_ _. True" net_tx_req net_tx_reads "\<lambda>_ _ _. {}"
    net_tx_effect for p host
proof (unfold_locales, goal_cases)
  case (1 q m h S m' q')
  then show ?case using net_tx_stable [OF 1] by simp
next
  case (2 k d q m h w)
  obtain m' where "net_tx_body host p h (d, q, m, w) =
      Some (net_tx_effect q m h d, q\<lparr>last_used_idx := last_used_idx q + 1\<rparr>, m',
        w \<or> 12 \<le> unat (desc_len (desc_at q m h)))" "modifies (used_area q) m m'"
    by (rule net_tx_serves [OF 2(2-4)])
  then show ?case by (auto simp: same_setup_def)
next
  case (3 k d q m h w d' q' m' w')
  obtain m1 where "net_tx_body host p h (d, q, m, w) =
      Some (net_tx_effect q m h d, q\<lparr>last_used_idx := last_used_idx q + 1\<rparr>, m1,
        w \<or> 12 \<le> unat (desc_len (desc_at q m h)))"
    by (rule net_tx_serves [OF 3(2-4)])
  with 3(6) show ?case by simp
next
  case (4 q m h S m' q')
  then show ?case using net_tx_stable(3) [OF 4] by (intro ext) (simp add: net_tx_effect_def)
qed

lemma fold_net_tx_effect:
  "fold (net_tx_effect q m) hs t = t\<lparr>tap_sent := tap_sent t @ concat (map (net_frame q m) hs)\<rparr>"
  by (induction hs arbitrary: t) (simp_all add: net_tx_effect_def)

section \<open>Reception\<close>

definition net_rx_req :: "virtio_queue \<Rightarrow> guest_memory \<Rightarrow> u16 \<Rightarrow> bool" where
  "net_rx_req q m h \<longleftrightarrow> desc_ok q m h \<and>
     unat (desc_buf (desc_at q m h)) + unat (desc_len (desc_at q m h)) < 2 ^ 64 \<and>
     cells_ok m (desc_buf (desc_at q m h)) (unat (desc_len (desc_at q m h)))"

definition net_rx_writes :: "virtio_queue \<Rightarrow> guest_memory \<Rightarrow> u16 \<Rightarrow> nat set" where
  "net_rx_writes q m h = span (desc_buf (desc_at q m h)) (unat (desc_len (desc_at q m h)))"

text \<open>The host delivers no empty packets.\<close>

definition tap_ok :: "tap_device \<Rightarrow> bool" where
  "tap_ok t \<longleftrightarrow> list_all (\<lambda>fr. fr \<noteq> []) (packet_recive_queue t)"

definition net_fits :: "virtio_queue \<Rightarrow> guest_memory \<Rightarrow> u16 \<Rightarrow> u8 list \<Rightarrow> bool" where
  "net_fits q m h fr \<longleftrightarrow> length fr + 12 \<le> unat (desc_len (desc_at q m h))"

text \<open>The guest finds the frame in its buffer, behind a zero header.\<close>

definition net_got :: "virtio_queue \<Rightarrow> guest_memory \<Rightarrow> u16 \<Rightarrow> u8 list \<Rightarrow> guest_memory \<Rightarrow> bool" where
  "net_got q m h fr m' \<longleftrightarrow> bytes_at m' (desc_buf (desc_at q m h)) 12 = replicate 12 0 \<and>
     bytes_at m' (desc_buf (desc_at q m h) + 12) (length fr) = fr"

lemma net_rx_stable:
  assumes "net_rx_req q m h" "modifies S m m'" "S \<inter> desc_area q h = {}" "same_setup q q'"
  shows "net_rx_req q' m' h" "desc_at q' m' h = desc_at q m h"
proof -
  from assms have d: "desc_ok q m h" by (simp add: net_rx_req_def)
  note keeps = desc_keeps [OF assms(4)]
  show e: "desc_at q' m' h = desc_at q m h" by (rule keeps(2) [OF d assms(2,3)])
  show "net_rx_req q' m' h"
    using assms(1) keeps(3) [OF d assms(2,3)] by (simp add: net_rx_req_def e cells_ok_modifies [OF assms(2)])
qed

lemma net_store:
  assumes "net_rx_req q m h" "wf_mem m" "net_fits q m h fr" "fr \<noteq> []"
  defines "a \<equiv> desc_buf (desc_at q m h)"
  obtains m0 m1 where "write_guest_memory p m a (replicate 12 0) = Some m0" "add_chk p a 12 = Some (a + 12)"
    "write_guest_memory p m0 (a + 12) fr = Some m1" "modifies (net_rx_writes q m h) m m1" "net_got q m h fr m1"
proof -
  let ?n = "unat (desc_len (desc_at q m h))" and ?k = "length fr"
  from assms have c: "cells_ok m a ?n" and fit: "0 + 12 \<le> ?n" "12 + ?k \<le> ?n" "0 < ?k"
    by (auto simp: net_rx_req_def net_fits_def)
  obtain m0 where m0: "write_mapped p (a + of_nat 0) (replicate 12 0) m = Some m0"
      "modifies {unat a + 0..<unat a + 0 + 12} m m0" "bytes_at m0 (a + of_nat 0) 12 = replicate 12 0"
      "cells_ok m0 a ?n" "wf_mem m0"
    by (rule cell_write [OF assms(2) c _ _ fit(1), of "replicate 12 0" p]) simp_all
  obtain m1 where m1: "write_mapped p (a + of_nat 12) fr m0 = Some m1"
      "modifies {unat a + 12..<unat a + 12 + ?k} m0 m1" "bytes_at m1 (a + of_nat 12) ?k = fr"
    by (rule cell_write [OF m0(5,4) refl fit(3,2), of p])
  have "bytes_at m1 (a + of_nat 0) 12 = bytes_at m0 (a + of_nat 0) 12"
    by (rule cell_stable [OF m0(4) _ _ m1(2)]) (use fit in simp_all)
  then have "net_got q m h fr m1" using m0(3) m1(3) by (simp add: net_got_def a_def)
  moreover have "modifies (net_rx_writes q m h) m m1"
    by (rule modifies_mono [OF modifies_trans [OF m0(2) m1(2)]])
      (use fit in \<open>auto simp: net_rx_writes_def span_def a_def\<close>)
  ultimately show thesis
    using m0(1) m1(1) cells_okD(1) [OF c fit(2,3), of p] by (intro that) (simp_all add: write_guest_memory_def)
qed

lemma net_rx_serves:
  assumes "tap_ok t" "net_rx_req q m h" "used_ok q m" "q_size q \<noteq> 0"
  obtains m1 m' w' where "net_rx_body p h (t, q, m, w) =
      Some (snd (get_next_packet t), q\<lparr>last_used_idx := last_used_idx q + 1\<rparr>, m', w')"
    "modifies (net_rx_writes q m h) m m1" "modifies (used_area q) m1 m'"
    "\<And>fr frs. packet_recive_queue t = fr # frs \<Longrightarrow> net_fits q m h fr \<Longrightarrow> net_got q m h fr m1"
proof -
  from assms have wf: "wf_mem m" and ok: "desc_ok q m h" by (auto simp: net_rx_req_def used_ok_def)
  note gd = get_descriptor_spec [OF ok, of p]
  show thesis
  proof (cases "\<exists>fr frs. packet_recive_queue t = fr # frs \<and> net_fits q m h fr")
    case True
    then obtain fr frs where fr: "packet_recive_queue t = fr # frs" "net_fits q m h fr" by blast
    with assms(1) have ne: "fr \<noteq> []" by (simp add: tap_ok_def)
    obtain m0 m1 where m1: "write_guest_memory p m (desc_buf (desc_at q m h)) (replicate 12 0) = Some m0"
        "add_chk p (desc_buf (desc_at q m h)) 12 = Some (desc_buf (desc_at q m h) + 12)"
        "write_guest_memory p m0 (desc_buf (desc_at q m h) + 12) fr = Some m1"
        "modifies (net_rx_writes q m h) m m1" "net_got q m h fr m1"
      by (rule net_store [OF assms(2) wf fr(2) ne])
    obtain m' where m': "push_used p q m1 h (of_nat (12 + length fr)) =
          Some (q\<lparr>last_used_idx := last_used_idx q + 1\<rparr>, m')" "modifies (used_area q) m1 m'"
      by (rule push_used_after [OF assms(3,4) m1(4)])
    show thesis
      by (rule that [of m' True m1])
        (use gd fr m1 m' in \<open>auto simp: net_rx_body_def get_next_packet_def net_fits_def\<close>)
  next
    case False
    obtain m' where m': "push_used p q m h 0 = Some (q\<lparr>last_used_idx := last_used_idx q + 1\<rparr>, m')"
        "modifies (used_area q) m m'"
      by (rule push_used_after [OF assms(3,4) modifies_refl [OF wf]])
    show thesis
      by (rule that [of m' w m])
        (use gd m' wf False in \<open>auto simp: net_rx_body_def get_next_packet_def net_fits_def not_le split: list.splits\<close>)
  qed
qed

lemma tap_ok_next: "tap_ok t \<Longrightarrow> tap_ok (snd (get_next_packet t))"
  by (auto simp: tap_ok_def get_next_packet_def split: list.splits)

interpretation net_rxq: footprint_handler p "net_rx_body p" "\<lambda>_. tap_ok" net_rx_req "\<lambda>q m h. desc_area q h" net_rx_writes
  for p
proof (unfold_locales, goal_cases)
  case (1 q m h S m' q')
  then show ?case
    using net_rx_stable [OF 1] by (simp add: net_rx_writes_def desc_keeps(1) [OF 1(4)])
next
  case (2 k d q m h w)
  obtain m1 m' w' where b: "net_rx_body p h (d, q, m, w) =
      Some (snd (get_next_packet d), q\<lparr>last_used_idx := last_used_idx q + 1\<rparr>, m', w')"
      "modifies (net_rx_writes q m h) m m1" "modifies (used_area q) m1 m'"
    using net_rx_serves [OF 2(1-4)] by metis
  have "modifies (used_area q \<union> net_rx_writes q m h) m m'"
    using modifies_trans [OF b(2,3)] by (simp add: Un_commute)
  with b(1) tap_ok_next [OF 2(1)] show ?case by (auto simp: same_setup_def)
qed

lemma net_got_frame:
  assumes "net_rx_req q m h" "net_fits q m h fr" "modifies S m m1" "net_got q m h fr m1" "modifies T m1 m2"
    and "T \<inter> net_rx_writes q m h = {}"
  shows "net_got q m h fr m2"
proof -
  let ?a = "desc_buf (desc_at q m h)" and ?n = "unat (desc_len (desc_at q m h))"
  have c: "cells_ok m1 ?a ?n" using assms(1,3) by (simp add: net_rx_req_def cells_ok_modifies)
  have "bytes_at m2 (?a + of_nat i) k = bytes_at m1 (?a + of_nat i) k" if "i + k \<le> ?n" for i k
  proof (cases k)
    case (Suc l)
    then have k: "0 < k" by simp
    have "span (?a + of_nat i) k \<subseteq> net_rx_writes q m h"
      using cells_okD(2) [OF c that k] that by (auto simp: span_def net_rx_writes_def)
    then show ?thesis using modifies_bytes [OF assms(5) cells_okD(3) [OF c that k]] assms(6) by auto
  qed simp
  from this [of 0 12] this [of 12 "length fr"] assms(2,4) show ?thesis by (simp add: net_got_def net_fits_def)
qed

abbreviation net_rx_driver :: "virtio_queue \<Rightarrow> guest_memory \<Rightarrow> bool" where
  "net_rx_driver q m \<equiv> driver_ok net_rx_req (\<lambda>q m h. desc_area q h) net_rx_writes q m"

lemma net_rx_content:
  assumes "tap_ok t" "net_rx_driver q m" "answers_apart net_rx_writes q m (pending q m)"
    and "batch_pop n p (net_rx_body p) (t, q, m, w) = Some (t', q', m', w')"
  shows "packet_recive_queue t' = drop (min n (length (pending q m))) (packet_recive_queue t) \<and>
    (\<forall>(h, fr) \<in> set (take n (zip (pending q m) (packet_recive_queue t))). net_fits q m h fr \<longrightarrow> net_got q m h fr m')"
  using assms
proof (induction n arbitrary: t q m w)
  case (Suc n)
  have ok: "avail_ok q m" "used_ok q m" "q_size q \<noteq> 0" "wf_mem m"
    using Suc.prems(2) by (auto simp: driver_ok_def avail_ok_def)
  note pop = pop_avail_refines [OF ok(1), of p]
  show ?case
  proof (cases "pending q m")
    case Nil
    with Suc.prems pop show ?thesis by auto
  next
    case (Cons h hs)
    let ?t = "snd (get_next_packet t)"
    have reqs: "\<And>h'. h' \<in> set (h # hs) \<Longrightarrow> net_rx_req q m h'"
      and fp: "footprints_ok (\<lambda>q m h. desc_area q h) net_rx_writes q m (h # hs)"
      and ap: "\<forall>x \<in> set (h # hs). used_area q \<inter> net_rx_writes q m x = {}"
        "\<forall>x \<in> set hs. net_rx_writes q m h \<inter> net_rx_writes q m x = {}"
        "sorted_wrt (\<lambda>x y. net_rx_writes q m x \<inter> net_rx_writes q m y = {}) hs"
      using Suc.prems(2,3) Cons by (auto simp: driver_ok_def list_all_iff answers_apart_def)
    note th = net_rx_stable [OF reqs [of h, simplified] modifies_refl [OF ok(4), of "{}"], of "take_head q", simplified]
    obtain t1 q1 m1 w1 where b: "net_rx_body p h (t, take_head q, m, w) = Some (t1, q1, m1, w1)" "tap_ok t1"
        "net_rx_driver q1 m1" "pending q1 m1 = hs" "modifies (used_area q \<union> net_rx_writes q m h) m m1"
        "same_setup q q1" "\<And>h'. h' \<in> set hs \<Longrightarrow> net_rx_writes q1 m1 h' = net_rx_writes q m h'"
      using net_rxq.serve_head [OF Suc.prems(1,2) Cons, of p w] by metis
    obtain ma mb wb where s: "net_rx_body p h (t, take_head q, m, w) =
          Some (?t, (take_head q)\<lparr>last_used_idx := last_used_idx (take_head q) + 1\<rparr>, mb, wb)"
        "modifies (net_rx_writes (take_head q) m h) m ma" "modifies (used_area (take_head q)) ma mb"
        "\<And>fr frs. packet_recive_queue t = fr # frs \<Longrightarrow> net_fits (take_head q) m h fr \<Longrightarrow> net_got (take_head q) m h fr ma"
      by (rule net_rx_serves [OF Suc.prems(1) th(1), of p w]) (use ok in simp_all)
    have tm: "t1 = ?t" "m1 = mb" using b(1) s(1) by simp_all
    have rest: "batch_pop n p (net_rx_body p) (t1, q1, m1, w1) = Some (t', q', m', w')"
      using Suc.prems(4) Cons pop b(1) by simp
    have same: "desc_at q1 m1 h' = desc_at q m h'" if "h' \<in> set hs" for h'
      by (rule net_rx_stable(2) [OF reqs b(5) _ b(6)]) (use that fp in \<open>auto simp: footprints_ok_def\<close>)
    have "sorted_wrt (\<lambda>x y. net_rx_writes q1 m1 x \<inter> net_rx_writes q1 m1 y = {}) hs"
      by (rule sorted_wrt_mono_rel [OF _ ap(3)]) (use b(7) in auto)
    then have "answers_apart net_rx_writes q1 m1 (pending q1 m1)"
      using ap(1) b(4,7) same_setup_area(1) [OF b(6)] by (auto simp: answers_apart_def)
    note IH = Suc.IH [OF b(2,3) this rest, unfolded b(4)]
    have "modifies (used_area q1 \<union> (\<Union>x \<in> set (take n hs). net_rx_writes q1 m1 x)) m1 m'"
      using net_rxq.batch_pop_confined [OF b(2,3) rest] b(4) by simp
    then have later: "modifies (used_area q \<union> (\<Union>x \<in> set hs. net_rx_writes q m x)) m1 m'"
      by (rule modifies_mono) (use b(7) same_setup_area(1) [OF b(6)] in \<open>auto dest: in_set_takeD\<close>)
    have got: "net_got q m h fr m'" if fr: "packet_recive_queue t = fr # frs" "net_fits q m h fr" for fr frs
    proof -
      have ga: "net_got q m h fr ma" using s(4) [OF fr(1)] fr(2) by (simp add: net_got_def net_fits_def th(2))
      have ma: "modifies (net_rx_writes q m h) m ma" using s(2) by (simp add: net_rx_writes_def th(2))
      have mu: "modifies (used_area q) ma m1" using s(3) tm by simp
      note frame = net_got_frame [OF reqs [of h, simplified] fr(2)]
      have "net_got q m h fr m1" by (rule frame [OF ma ga mu]) (use ap(1) in simp)
      then show ?thesis by (rule frame [OF b(5) _ later]) (use ap in auto)
    qed
    show ?thesis
    proof (cases "packet_recive_queue t")
      case Nil
      with IH tm show ?thesis by (simp add: get_next_packet_def)
    next
      case (Cons fr frs)
      have q1: "packet_recive_queue t1 = frs" using tm(1) Cons by (simp add: get_next_packet_def)
      have "net_fits q m x y \<longrightarrow> net_got q m x y m'" if "(x, y) \<in> set (take n (zip hs frs))" for x y
        using IH that same [OF set_zip_leftD [OF in_set_takeD [OF that]]] q1
        by (auto simp: net_fits_def net_got_def)
      with IH q1 got [OF Cons] \<open>pending q m = h # hs\<close> Cons show ?thesis by auto
    qed
  qed
qed simp

section \<open>A buffer in memory\<close>

text \<open>A 96-byte memory with one pending 16-byte buffer at 64: its descriptor at 0, the rings at 32 and 40.\<close>

definition net_demo_block :: "u8 list" where
  "net_demo_block =
     le64 64 @ le32 16 @ le16 2 @ le16 0 @ replicate 16 0 @
     le16 0 @ le16 1 @ le16 0 @ le16 0 @ replicate 24 0 @ replicate 12 1 @ [5, 6, 7, 8] @ replicate 16 0"

definition net_demo_mem :: guest_memory where
  "net_demo_mem = [new_region (Some net_demo_block) 96 0]"

definition net_demo_queue :: virtio_queue where
  "net_demo_queue = \<lparr>q_size = 1, q_ready = True, desc_addr = 0, avail_addr = 32, used_addr = 40,
     last_avail_idx = 0, last_used_idx = 0\<rparr>"

definition net_demo_host :: tap_host where
  "net_demo_host = \<lparr>tap_recv = (\<lambda>_. WouldBlock), tap_send_ok = (\<lambda>_ _. True)\<rparr>"

lemma net_demo_wf: "wf_mem net_demo_mem"
  by (simp add: net_demo_mem_def new_region_def wf_region_def net_demo_block_def)

lemma net_demo_cells: "unat a + n \<le> 96 \<Longrightarrow> cells_ok net_demo_mem a n"
  unfolding net_demo_mem_def by (rule cells_ok_single) (simp_all add: new_region_def)

lemma net_demo_ok:
  "avail_ok net_demo_queue net_demo_mem" "used_ok net_demo_queue net_demo_mem" "q_size net_demo_queue \<noteq> 0"
  "desc_ok net_demo_queue net_demo_mem 0"
  by (simp_all add: avail_ok_def used_ok_def desc_ok_def net_demo_wf net_demo_cells net_demo_queue_def avail_bytes_def
      used_bytes_def desc_base_def)

lemma net_demo_values:
  "pending net_demo_queue net_demo_mem = [0]"
  "desc_at net_demo_queue net_demo_mem 0 = \<lparr>desc_buf = 64, desc_len = 16, desc_flags = 2, desc_next = 0\<rparr>"
  "bytes_at net_demo_mem 76 4 = [5, 6, 7, 8]"
  by code_simp+

lemma net_demo_areas:
  "avail_area net_demo_queue = {32..<38}" "used_area net_demo_queue = {40..<52}"
  "desc_area net_demo_queue 0 = {0..<16}" "net_rx_writes net_demo_queue net_demo_mem 0 = {64..<80}"
  by (simp_all add: avail_area_def used_area_def desc_area_def desc_base_def span_def avail_bytes_def
      used_bytes_def net_rx_writes_def net_demo_values)
    (simp_all add: net_demo_queue_def)

lemma net_demo_driver:
  "driver_ok net_tx_req net_tx_reads (\<lambda>_ _ _. {}) net_demo_queue net_demo_mem"
  "net_rx_driver net_demo_queue net_demo_mem"
  "answers_apart net_rx_writes net_demo_queue net_demo_mem (pending net_demo_queue net_demo_mem)"
  by (auto simp: driver_ok_def net_demo_ok net_demo_values footprints_ok_def net_demo_areas net_tx_req_def net_rx_req_def
      net_tx_reads_def net_demo_cells span_def answers_apart_def)

section \<open>Properties\<close>

text \<open>C10: A tick of the transmit queue sends what the guest queued: it empties the queue, hands exactly the
  frames of the pending buffers to the host, in order and once each, every frame without its 12-byte
  header, and changes no guest memory but the used ring.\<close>

theorem net_tx_sends_in_order:
  assumes "net_guest_memory d" "driver_ok net_tx_req net_tx_reads (\<lambda>_ _ _. {}) q m"
  shows "\<exists>q' m' w. net_tick host p d 1 q m =
      Some (d\<lparr>net_tap := (net_tap d)\<lparr>tap_sent := tap_sent (net_tap d) @ concat (map (net_frame q m) (pending q m))\<rparr>\<rparr>,
        q', m', w) \<and>
    pending q' m' = [] \<and> last_used_idx q' = last_used_idx q + of_nat (length (pending q m)) \<and>
    modifies (used_area q) m m'"
proof -
  have cnt: "pending_count q m < 2 ^ 16" by (rule pending_count_less)
  obtain t' q' m' w' where r: "while_pop (2 ^ 16) p (net_tx_body host p) (net_tap d, q, m, False) = Some (t', q', m', w')"
      "pending q' m' = []" "last_used_idx q' = last_used_idx q + of_nat (length (pending q m))"
    using net_tx.while_pop_drains [where d = "net_tap d" and q = q and m = m and fuel = "2 ^ 16" and p = p and host = host and w = False] assms(2) cnt by auto
  have "t' = fold (net_tx_effect q m) (pending q m) (net_tap d)"
    by (rule net_tx.while_pop_effects [OF _ assms(2) cnt r(1)]) simp
  moreover have "modifies (used_area q) m m'"
    using net_tx.while_pop_confined [OF _ assms(2) cnt r(1)] by simp
  ultimately show ?thesis
    using r assms(1) by (simp add: net_tick_def fold_net_tx_effect)
qed

theorem net_tx_sends_in_order_witness:
  "\<exists>d' q' m' w. net_tick net_demo_host Dev ((new_net new_tap)\<lparr>net_guest_memory := True\<rparr>) 1 net_demo_queue net_demo_mem =
     Some (d', q', m', w) \<and> tap_sent (net_tap d') = [[5, 6, 7, 8]] \<and> pending q' m' = []"
  using net_tx_sends_in_order [OF _ net_demo_driver(1), of "(new_net new_tap)\<lparr>net_guest_memory := True\<rparr>" net_demo_host Dev]
  by (auto simp: net_demo_values net_frame_def new_net_def new_tap_def)

text \<open>C9: A tick of the receive queue delivers packets in the order in which they came: as many as there are
  both packets and guest buffers are taken from either side, the rest of either stays for the next
  tick, and every packet that fits its buffer is in guest memory afterwards, behind a zero header.\<close>

theorem net_rx_delivers_in_order:
  assumes "net_guest_memory d" "net_rx_driver q m" "answers_apart net_rx_writes q m (pending q m)"
    and "tap_ok (net_tap d)"
  defines "packets \<equiv> packet_recive_queue (net_tap d)"
  shows "\<exists>t' q' m' w. net_tick host p d 0 q m = Some (d\<lparr>net_tap := t'\<rparr>, q', m', w) \<and>
    packet_recive_queue t' = drop (length (pending q m)) packets \<and>
    pending q' m' = drop (length packets) (pending q m) \<and>
    (\<forall>(h, fr) \<in> set (zip (pending q m) packets). net_fits q m h fr \<longrightarrow> net_got q m h fr m') \<and>
    modifies (used_area q \<union> (\<Union>h \<in> set (take (length packets) (pending q m)). net_rx_writes q m h)) m m'"
proof -
  obtain t' q' m' w' where r: "batch_pop (length packets) p (net_rx_body p) (net_tap d, q, m, False) = Some (t', q', m', w')"
      "pending q' m' = drop (length packets) (pending q m)"
    using net_rxq.batch_pop_serves [where d = "net_tap d" and q = q and m = m and n = "length packets" and p = p and w = False]
      assms(2,4) by auto
  note c = net_rx_content [OF assms(4,2,3) r(1), folded packets_def]
  have "take (length packets) (zip (pending q m) packets) = zip (pending q m) packets" by simp
  moreover have "drop (min (length packets) (length (pending q m))) packets = drop (length (pending q m)) packets"
    by (simp add: min_def)
  ultimately show ?thesis
    using r c assms(1) net_rxq.batch_pop_confined [OF assms(4,2) r(1)]
    by (auto simp: net_tick_def net_rx_batch packets_def)
qed

theorem net_rx_delivers_in_order_witness:
  "let d = (new_net (new_tap\<lparr>packet_recive_queue := [[9, 9], [8]]\<rparr>))\<lparr>net_guest_memory := True\<rparr>
   in \<exists>t' q' m' w. net_tick net_demo_host Dev d 0 net_demo_queue net_demo_mem = Some (d\<lparr>net_tap := t'\<rparr>, q', m', w) \<and>
     packet_recive_queue t' = [[8]] \<and> bytes_at m' 76 2 = [9, 9]"
proof -
  let ?d = "(new_net (new_tap\<lparr>packet_recive_queue := [[9, 9], [8]]\<rparr>))\<lparr>net_guest_memory := True\<rparr>"
  have d: "net_guest_memory ?d" "tap_ok (net_tap ?d)" "packet_recive_queue (net_tap ?d) = [[9, 9], [8]]"
    by (simp_all add: new_net_def tap_ok_def)
  have one: "pending_count net_demo_queue net_demo_mem = 1"
    using arg_cong [OF net_demo_values(1), of length] by simp
  from net_rx_delivers_in_order [OF d(1) net_demo_driver(2,3) d(2), of net_demo_host Dev, unfolded d(3)]
  obtain t' q' m' w where "net_tick net_demo_host Dev ?d 0 net_demo_queue net_demo_mem = Some (?d\<lparr>net_tap := t'\<rparr>, q', m', w)"
      "packet_recive_queue t' = [[8]]" "net_got net_demo_queue net_demo_mem 0 [9, 9] m'"
    by (auto simp: one net_demo_values net_fits_def)
  then show ?thesis
    by (auto simp: net_got_def net_demo_values Let_def numeral_2_eq_2)
qed

end
