(* ===== verification/Display.thy ===== *)
theory Display
  imports Ferrum_Prelude
begin

text \<open>
  The display back end: the rectangle of \<^verbatim>\<open>platform/display.rs\<close> and its one implementation, the SDL
  window of \<^verbatim>\<open>platform/sdl/context.rs\<close>. SDL itself is outside the repository: the window keeps the calls
  that were made to it, in order, and whether SDL accepted a call is a parameter, a function of the
  number of calls so far. \<open>Host_Setup\<close> has the creation of the window.
\<close>

section \<open>Data\<close>

record display_rect =
  rect_x :: u32
  rect_y :: u32
  rect_width :: u32
  rect_height :: u32

definition new_rect :: "u32 \<Rightarrow> u32 \<Rightarrow> u32 \<Rightarrow> u32 \<Rightarrow> display_rect" where
  "new_rect x y w h = \<lparr>rect_x = x, rect_y = y, rect_width = w, rect_height = h\<rparr>"

definition empty_rect :: display_rect where
  "empty_rect = \<lparr>rect_x = 0, rect_y = 0, rect_width = 0, rect_height = 0\<rparr>"

text \<open>A texture update has the place and size of the rectangle, the pixels and the length of a row of them.\<close>

datatype sdl_call =
    TextureUpdate int int u32 u32 "u8 list" usize
  | RenderCopy
  | Present
  | SetSize u32 u32
  | CreateTexture u32 u32

datatype sdl_event = Quit | OtherEvent

record sdl_context =
  sdl_width :: u32
  sdl_height :: u32
  should_quit :: bool
  sdl_calls :: "sdl_call list"

type_synonym sdl_host = "nat \<Rightarrow> sdl_call \<Rightarrow> bool"

text \<open>The window as \<^verbatim>\<open>FerrumSDLContext::new\<close> leaves it.\<close>

definition new_sdl :: "u32 \<Rightarrow> u32 \<Rightarrow> sdl_context" where
  "new_sdl width height =
     \<lparr>sdl_width = width, sdl_height = height, should_quit = False, sdl_calls = [Present, CreateTexture width height]\<rparr>"

definition sdl_do :: "sdl_host \<Rightarrow> sdl_call \<Rightarrow> sdl_context \<Rightarrow> bool \<times> sdl_context" where
  "sdl_do host c s = (host (length (sdl_calls s)) c, s\<lparr>sdl_calls := sdl_calls s @ [c]\<rparr>)"

section \<open>Operations\<close>

text \<open>The loop that collects the rows of a rectangle: \<open>n\<close> rows are left, \<open>row\<close> is the next one.\<close>

primrec blit_rows ::
    "profile \<Rightarrow> u8 list \<Rightarrow> usize \<Rightarrow> usize \<Rightarrow> usize \<Rightarrow> usize \<Rightarrow> nat \<Rightarrow> usize \<Rightarrow> u8 list \<Rightarrow> u8 list option" where
  "blit_rows p src src_stride src_x src_y row_len 0 row rows = Some rows"
| "blit_rows p src src_stride src_x src_y row_len (Suc n) row rows =
     do {
       y \<leftarrow> add_usize p src_y row;
       ys \<leftarrow> mul_usize p y src_stride;
       xs \<leftarrow> mul_usize p src_x 4;
       src_start \<leftarrow> add_usize p ys xs;
       if length src \<le> src_start then Some rows
       else do {
         let len = min row_len (length src - src_start);
         dst_start \<leftarrow> mul_usize p row row_len;
         dst_end \<leftarrow> add_usize p dst_start len;
         src_end \<leftarrow> add_usize p src_start len;
         chunk \<leftarrow> slice_of src src_start src_end;
         rows \<leftarrow> put_slice rows dst_start dst_end chunk;
         blit_rows p src src_stride src_x src_y row_len n (row + 1) rows
       }
     }"

definition blit_rect ::
    "sdl_host \<Rightarrow> profile \<Rightarrow> sdl_context \<Rightarrow> u8 list \<Rightarrow> usize \<Rightarrow> u32 \<Rightarrow> u32 \<Rightarrow> u32 \<Rightarrow> u32 \<Rightarrow> u32 \<Rightarrow> u32 \<Rightarrow> sdl_context option" where
  "blit_rect host p s src src_stride src_x src_y w h dst_x dst_y =
     do {
       row_len \<leftarrow> mul_usize p (unat w) 4;
       total \<leftarrow> mul_usize p row_len (unat h);
       rows \<leftarrow> vec_zeros total;
       rows \<leftarrow> blit_rows p src src_stride (unat src_x) (unat src_y) row_len (unat h) 0 rows;
       let w = min w (if dst_x \<le> sdl_width s then sdl_width s - dst_x else 0);
       let h = min h (if dst_y \<le> sdl_height s then sdl_height s - dst_y else 0);
       if w = 0 \<or> h = 0 then Some s
       else do {
         let (updated, s) = sdl_do host (TextureUpdate (sint dst_x) (sint dst_y) w h rows row_len) s;
         if \<not> updated then Some s
         else Some (snd (sdl_do host RenderCopy s))
       }
     }"

definition present :: "sdl_host \<Rightarrow> sdl_context \<Rightarrow> sdl_context" where
  "present host s = snd (sdl_do host Present s)"

definition blit :: "sdl_host \<Rightarrow> profile \<Rightarrow> sdl_context \<Rightarrow> u8 list \<Rightarrow> usize \<Rightarrow> display_rect \<Rightarrow> sdl_context option" where
  "blit host p s src src_stride src_rect =
     do {
       s \<leftarrow> blit_rect host p s src src_stride (rect_x src_rect) (rect_y src_rect)
              (rect_width src_rect) (rect_height src_rect) (rect_x src_rect) (rect_y src_rect);
       Some (present host s)
     }"

definition resize_display :: "sdl_host \<Rightarrow> sdl_context \<Rightarrow> u32 \<Rightarrow> u32 \<Rightarrow> bool \<times> sdl_context" where
  "resize_display host s width height =
     (let (resized, s) = sdl_do host (SetSize width height) s
      in if \<not> resized then (False, s)
         else sdl_do host (CreateTexture width height) (s\<lparr>sdl_width := width, sdl_height := height\<rparr>))"

definition get_display_size :: "sdl_context \<Rightarrow> u32 \<times> u32" where
  "get_display_size s = (sdl_width s, sdl_height s)"

definition upload :: "sdl_context \<Rightarrow> u8 list \<Rightarrow> u32 \<Rightarrow> u32 \<Rightarrow> u32 \<Rightarrow> sdl_context" where
  "upload s framebuffer width height stride = s"

text \<open>The events that \<^verbatim>\<open>poll_event\<close> gives until it gives none.\<close>

fun pump_events :: "sdl_event list \<Rightarrow> sdl_context \<Rightarrow> bool \<times> sdl_context" where
  "pump_events [] s = (should_quit s, s)"
| "pump_events (Quit # es) s = pump_events es (s\<lparr>should_quit := True\<rparr>)"
| "pump_events (OtherEvent # es) s = pump_events es s"

section \<open>Specification: the pixels of a rectangle\<close>

definition row_at :: "u8 list \<Rightarrow> usize \<Rightarrow> usize \<Rightarrow> usize \<Rightarrow> usize \<Rightarrow> usize \<Rightarrow> u8 list" where
  "row_at src stride x y w r = take (4 * w) (drop ((y + r) * stride + 4 * x) src)"

definition rect_pixels :: "u8 list \<Rightarrow> usize \<Rightarrow> display_rect \<Rightarrow> u8 list" where
  "rect_pixels src stride rc =
     concat (map (row_at src stride (unat (rect_x rc)) (unat (rect_y rc)) (unat (rect_width rc)))
       [0..<unat (rect_height rc)])"

text \<open>The rectangle lies inside a picture of \<open>height\<close> rows of \<open>stride\<close> bytes.\<close>

definition rect_inside :: "u8 list \<Rightarrow> usize \<Rightarrow> display_rect \<Rightarrow> bool" where
  "rect_inside src stride rc \<longleftrightarrow> rect_width rc \<noteq> 0 \<and> rect_height rc \<noteq> 0 \<and>
     4 * (unat (rect_x rc) + unat (rect_width rc)) \<le> stride \<and>
     (unat (rect_y rc) + unat (rect_height rc)) * stride \<le> length src"

lemma row_fits:
  assumes "4 * (x + w) \<le> stride" "(y + h) * stride \<le> n" "r < h"
  shows "(y + r) * stride + 4 * x + 4 * w \<le> (n :: nat)"
proof -
  have "(y + r) * stride + stride \<le> (y + h) * stride"
    using mult_le_mono1 [of "y + r + 1" "y + h" stride] assms(3) by simp
  with assms(1,2) show ?thesis by simp
qed

lemma put_row:
  assumes "row * L \<le> length rows" "length c = L" "row * L + L \<le> length rows"
  shows "put_slice rows (row * L) (row * L + L) c = Some (take (row * L) rows @ c @ drop (Suc row * L) rows)"
  using assms by (simp add: put_slice_def copy_at_def add.commute)

lemma blit_rows_copies:
  assumes fit: "\<forall>r < h. (y + r) * stride + 4 * x + 4 * w \<le> length src" and pos: "0 < w" "0 < stride"
    and len: "length src \<le> usize_max" "4 * w * h \<le> usize_max"
    and rows: "length rows = 4 * w * h" "row + n = h"
  shows "blit_rows p src stride x y (4 * w) n row rows =
    Some (take (row * (4 * w)) rows @ concat (map (row_at src stride x y w) [row..<h]))"
  using rows
proof (induction n arbitrary: row rows)
  case (Suc n)
  let ?L = "4 * w" and ?s = "(y + row) * stride + 4 * x"
  let ?rows = "take (row * ?L) rows @ row_at src stride x y w row @ drop (Suc row * ?L) rows"
  from Suc.prems have r: "row < h" and upt: "[row..<h] = row # [Suc row..<h]" by (simp_all add: upt_conv_Cons)
  have s: "?s + ?L \<le> length src" using fit r by simp
  have bound: "Suc row * ?L \<le> ?L * h" using r mult_le_mono1 [of "Suc row" h ?L] by (simp add: mult.commute)
  have "y + row \<le> (y + row) * stride" using pos(2) by simp
  with s len have "y + row \<le> usize_max" by linarith
  then have ops: "add_usize p y row = Some (y + row)" "mul_usize p (y + row) stride = Some ((y + row) * stride)"
    "mul_usize p x 4 = Some (4 * x)" "add_usize p ((y + row) * stride) (4 * x) = Some ?s"
    "mul_usize p row ?L = Some (row * ?L)" "add_usize p (row * ?L) ?L = Some (row * ?L + ?L)"
    "add_usize p ?s ?L = Some (?s + ?L)" "\<not> length src \<le> ?s" "min ?L (length src - ?s) = ?L"
    "slice_of src ?s (?s + ?L) = Some (row_at src stride x y w row)"
    using s bound len pos by (simp_all add: usize_fits slice_of_def row_at_def)
  have c: "length (row_at src stride x y w row) = ?L" using s by (simp add: row_at_def)
  have "blit_rows p src stride x y ?L (Suc n) row rows = blit_rows p src stride x y ?L n (Suc row) ?rows"
    using c bound Suc.prems put_row [of row ?L rows "row_at src stride x y w row"] by (simp add: ops Let_def)
  also have "\<dots> = Some (take (Suc row * ?L) ?rows @ concat (map (row_at src stride x y w) [Suc row..<h]))"
    by (rule Suc.IH) (use Suc.prems c bound in auto)
  also have "take (Suc row * ?L) ?rows = take (row * ?L) rows @ row_at src stride x y w row"
    using c bound Suc.prems by simp
  finally show ?case by (simp add: upt)
qed simp

lemma blit_rows_total:
  assumes "stride \<le> 2 ^ 16" "x < 2 ^ 32" "y < 2 ^ 32" "h < 2 ^ 32" "length src \<le> 2 ^ 32" "L * h \<le> 2 ^ 63"
    and "length rows = L * h" "row + n = h"
  shows "\<exists>rows'. blit_rows p src stride x y L n row rows = Some rows'"
  using assms(7,8)
proof (induction n arbitrary: row rows)
  case (Suc n)
  let ?s = "(y + row) * stride + x * 4" and ?len = "min L (length src - ((y + row) * stride + x * 4))"
  have "(y + row) * stride \<le> 2 ^ 33 * 2 ^ 16" using assms(1,3,4) Suc.prems(2) by (intro mult_le_mono) auto
  moreover have "x * 4 \<le> 2 ^ 34" using assms(2) by simp
  ultimately have ops: "add_usize p y row = Some (y + row)" "mul_usize p (y + row) stride = Some ((y + row) * stride)"
    "mul_usize p x 4 = Some (x * 4)" "add_usize p ((y + row) * stride) (x * 4) = Some ?s"
    using assms(3,4) Suc.prems(2) by (simp_all add: usize_fits)
  show ?case
  proof (cases "length src \<le> ?s")
    case False
    have "Suc row * L \<le> L * h" using Suc.prems(2) mult_le_mono1 [of "Suc row" h L] by (simp add: mult.commute)
    then have fit: "row * L + ?len \<le> L * h" by simp
    have ops2: "mul_usize p row L = Some (row * L)" "add_usize p (row * L) ?len = Some (row * L + ?len)"
      "add_usize p ?s ?len = Some (?s + ?len)" "slice_of src ?s (?s + ?len) = Some (take ?len (drop ?s src))"
      using fit assms(5,6) False by (simp_all add: usize_fits slice_of_def)
    let ?rows = "copy_at rows (row * L) (take ?len (drop ?s src))"
    have c: "length (take ?len (drop ?s src)) = ?len" by simp
    have "put_slice rows (row * L) (row * L + ?len) (take ?len (drop ?s src)) = Some ?rows"
      using fit Suc.prems(1) c unfolding put_slice_def by simp
    moreover have "length ?rows = L * h" using fit Suc.prems(1) c by (subst length_copy_at) simp_all
    ultimately show ?thesis
      using Suc.IH [of ?rows "Suc row"] Suc.prems(2) False by (simp add: ops ops2 Let_def)
  qed (simp add: ops)
qed simp

text \<open>A rectangle whose pixel buffer can be allocated is drawn without a panic.\<close>

lemma blit_total:
  assumes "stride \<le> 2 ^ 16" "length src \<le> 2 ^ 32" "4 * unat (rect_width rc) * unat (rect_height rc) < 2 ^ 63"
  shows "\<exists>s'. blit host p s src stride rc = Some s'"
proof -
  let ?L = "4 * unat (rect_width rc)" and ?h = "unat (rect_height rc)"
  have "?L \<le> 2 ^ 34" using unat_less_length [of "rect_width rc"] by simp
  then have ops: "mul_usize p (unat (rect_width rc)) 4 = Some ?L" "mul_usize p ?L ?h = Some (?L * ?h)"
    "vec_zeros (?L * ?h) = Some (replicate (?L * ?h) 0)"
    using assms(3) by (simp_all add: usize_fits mult.commute)
  have b: "unat (rect_x rc) < 2 ^ 32" "unat (rect_y rc) < 2 ^ 32" "?h < 2 ^ 32"
    using unat_less_length [of "rect_x rc"] unat_less_length [of "rect_y rc"] unat_less_length [of "rect_height rc"]
    by simp_all
  have "\<exists>rows. blit_rows p src stride (unat (rect_x rc)) (unat (rect_y rc)) ?L ?h 0 (replicate (?L * ?h) 0) = Some rows"
    by (rule blit_rows_total [OF assms(1) b assms(2), where L = ?L]) (use assms(3) in simp_all)
  then show ?thesis by (auto simp: blit_def blit_rect_def ops Let_def split: prod.splits)
qed

text \<open>A rectangle inside the picture and the window is drawn exactly.\<close>

lemma blit_inside:
  assumes "rect_inside src stride rc" "length src \<le> 2 ^ 32"
    and "unat (rect_x rc) + unat (rect_width rc) \<le> unat (sdl_width s)"
    and "unat (rect_y rc) + unat (rect_height rc) \<le> unat (sdl_height s)"
    and "\<And>n c. host n c"
  shows "blit host p s src stride rc = Some (s\<lparr>sdl_calls := sdl_calls s @
    [TextureUpdate (sint (rect_x rc)) (sint (rect_y rc)) (rect_width rc) (rect_height rc) (rect_pixels src stride rc)
       (4 * unat (rect_width rc)), RenderCopy, Present]\<rparr>)"
proof -
  let ?w = "unat (rect_width rc)" and ?h = "unat (rect_height rc)" and ?x = "unat (rect_x rc)" and ?y = "unat (rect_y rc)"
  have nz: "rect_width rc \<noteq> 0" "rect_height rc \<noteq> 0" "4 * (?x + ?w) \<le> stride" "(?y + ?h) * stride \<le> length src"
    using assms(1) by (auto simp: rect_inside_def)
  have w: "0 < ?w" using nz(1) by (simp add: unat_gt_0)
  have "0 < 4 * (?x + ?w)" using w by simp
  with nz(3) have "0 < stride" by linarith
  note pos = w this
  have fit: "\<forall>r < ?h. (?y + r) * stride + 4 * ?x + 4 * ?w \<le> length src"
    using row_fits [OF nz(3,4)] by blast
  have "4 * ?w * ?h \<le> (?y + ?h) * stride"
    using mult_le_mono [of ?h "?y + ?h" "4 * ?w" stride] nz(3) by (simp add: mult.commute)
  with nz(4) assms(2) have tot: "4 * ?w * ?h \<le> 2 ^ 32" by linarith
  have "4 * ?w \<le> 2 ^ 34" using unat_less_length [of "rect_width rc"] by simp
  then have ops: "mul_usize p ?w 4 = Some (4 * ?w)" by (simp add: usize_fits)
  have max: "4 * ?w * ?h \<le> usize_max" "4 * ?w * ?h < 2 ^ 63"
    by (rule order_trans [OF tot] le_less_trans [OF tot]; simp)+
  note ops = ops usize_fits(2) [OF max(1)] usize_fits(3) [OF max(2)]
  have rows: "blit_rows p src stride ?x ?y (4 * ?w) ?h 0 (replicate (4 * ?w * ?h) 0) = Some (rect_pixels src stride rc)"
    using blit_rows_copies [OF fit pos _ max(1), of "replicate (4 * ?w * ?h) 0" 0 ?h p] assms(2) by (simp add: rect_pixels_def)
  have clip: "min (rect_width rc) (if rect_x rc \<le> sdl_width s then sdl_width s - rect_x rc else 0) = rect_width rc"
    "min (rect_height rc) (if rect_y rc \<le> sdl_height s then sdl_height s - rect_y rc else 0) = rect_height rc"
    using assms(3,4) by (auto simp: min_def word_le_nat_alt unat_sub_le)
  show ?thesis
    using nz(1,2) assms(5) by (simp add: blit_def blit_rect_def ops rows clip Let_def sdl_do_def present_def)
qed

end
