(* ===== verification/Gpu_Protocol.thy ===== *)
theory Gpu_Protocol
  imports Virtio_Device Display
begin

text \<open>
  The wire side of \<^verbatim>\<open>devices/virtio/devices/gpu.rs\<close>: command and response codes, the packed structures
  that the driver sends, the response header, the configuration space, and how a request is collected
  from a chain of descriptors.
\<close>

section \<open>Limits and codes\<close>

definition MAX_SCANOUTS :: usize where "MAX_SCANOUTS = 16"
definition MAX_REQUEST_BYTES :: usize where "MAX_REQUEST_BYTES = 256 * 1024"
definition MAX_RESOURCE_BYTES :: usize where "MAX_RESOURCE_BYTES = 256 * 1024 * 1024"
definition MAX_RESOURCE_DIMENSION :: u32 where "MAX_RESOURCE_DIMENSION = 16384"
definition MAX_RESOURCES :: usize where "MAX_RESOURCES = 64"
definition BYTES_PER_PIXEL :: usize where "BYTES_PER_PIXEL = 4"

definition CMD_GET_DISPLAY_INFO :: u32 where "CMD_GET_DISPLAY_INFO = 0x0100"
definition CMD_RESOURCE_CREATE_2D :: u32 where "CMD_RESOURCE_CREATE_2D = 0x0101"
definition CMD_RESOURCE_UNREF :: u32 where "CMD_RESOURCE_UNREF = 0x0102"
definition CMD_SET_SCANOUT :: u32 where "CMD_SET_SCANOUT = 0x0103"
definition CMD_RESOURCE_FLUSH :: u32 where "CMD_RESOURCE_FLUSH = 0x0104"
definition CMD_TRANSFER_TO_HOST_2D :: u32 where "CMD_TRANSFER_TO_HOST_2D = 0x0105"
definition CMD_RESOURCE_ATTACH_BACKING :: u32 where "CMD_RESOURCE_ATTACH_BACKING = 0x0106"
definition CMD_RESOURCE_DETACH_BACKING :: u32 where "CMD_RESOURCE_DETACH_BACKING = 0x0107"
definition CMD_GET_EDID :: u32 where "CMD_GET_EDID = 0x010A"
definition CMD_UPDATE_CURSOR :: u32 where "CMD_UPDATE_CURSOR = 0x010B"
definition CMD_CURSOR_GET :: u32 where "CMD_CURSOR_GET = 0x010C"

definition RESP_OK_NODATA :: u32 where "RESP_OK_NODATA = 0x1100"
definition RESP_OK_DISPLAY_INFO :: u32 where "RESP_OK_DISPLAY_INFO = 0x1101"
definition RESP_ERR_UNSUPPORTED :: u32 where "RESP_ERR_UNSUPPORTED = 0x1201"
definition RESP_ERR_INVALID_ARGUMENT :: u32 where "RESP_ERR_INVALID_ARGUMENT = 0x1202"
definition RESP_ERR_INVALID_RESOURCE_ID :: u32 where "RESP_ERR_INVALID_RESOURCE_ID = 0x1203"

definition SUPPORTED_FORMATS :: "u32 list" where "SUPPORTED_FORMATS = [1, 2, 3, 4]"

lemmas gpu_cmd_defs = CMD_GET_DISPLAY_INFO_def CMD_RESOURCE_CREATE_2D_def CMD_RESOURCE_UNREF_def CMD_SET_SCANOUT_def
  CMD_RESOURCE_FLUSH_def CMD_TRANSFER_TO_HOST_2D_def CMD_RESOURCE_ATTACH_BACKING_def
  CMD_RESOURCE_DETACH_BACKING_def CMD_GET_EDID_def CMD_UPDATE_CURSOR_def CMD_CURSOR_GET_def
lemmas gpu_resp_defs = RESP_OK_NODATA_def RESP_OK_DISPLAY_INFO_def RESP_ERR_UNSUPPORTED_def
  RESP_ERR_INVALID_ARGUMENT_def RESP_ERR_INVALID_RESOURCE_ID_def

section \<open>Packed structures\<close>

text \<open>A field of a packed structure is a little-endian integer at a fixed offset: \<^verbatim>\<open>align_to\<close> on a
  structure without alignment takes it from the start of the bytes.\<close>

definition field :: "nat \<Rightarrow> nat \<Rightarrow> u8 list \<Rightarrow> 'a::len word" where
  "field off n data = from_le (take n (drop off data))"

record gpu_mem_entry =
  ent_addr :: u64
  ent_length :: u32
  ent_padding :: u32

definition mem_entry_from_bytes :: "u8 list \<Rightarrow> gpu_mem_entry option" where
  "mem_entry_from_bytes data =
     (if length data < 16 then None
      else Some \<lparr>ent_addr = field 0 8 data, ent_length = field 8 4 data, ent_padding = field 12 4 data\<rparr>)"

record gpu_ctrl_hdr =
  hdr_typ :: u32
  hdr_flags :: u32
  hdr_fence_id :: u64
  hdr_ctx_id :: u32
  hdr_ring_idx :: u32

definition new_ctrl_hdr :: "u32 \<Rightarrow> gpu_ctrl_hdr" where
  "new_ctrl_hdr typ = \<lparr>hdr_typ = typ, hdr_flags = 0, hdr_fence_id = 0, hdr_ctx_id = 0, hdr_ring_idx = 0\<rparr>"

definition ctrl_hdr_at :: "u8 list \<Rightarrow> gpu_ctrl_hdr" where
  "ctrl_hdr_at data = \<lparr>hdr_typ = field 0 4 data, hdr_flags = field 4 4 data, hdr_fence_id = field 8 8 data,
     hdr_ctx_id = field 16 4 data, hdr_ring_idx = field 20 4 data\<rparr>"

definition ctrl_hdr_from_bytes :: "u8 list \<Rightarrow> gpu_ctrl_hdr option" where
  "ctrl_hdr_from_bytes data =
     (if length data < 24 then None else Some (ctrl_hdr_at data))"

definition ctrl_hdr_to_bytes :: "gpu_ctrl_hdr \<Rightarrow> u8 list" where
  "ctrl_hdr_to_bytes h =
     le32 (hdr_typ h) @ le32 (hdr_flags h) @ le64 (hdr_fence_id h) @ le32 (hdr_ctx_id h) @ le32 (hdr_ring_idx h)"

definition rect_at :: "nat \<Rightarrow> u8 list \<Rightarrow> display_rect" where
  "rect_at off data = \<lparr>rect_x = field off 4 data, rect_y = field (off + 4) 4 data,
     rect_width = field (off + 8) 4 data, rect_height = field (off + 12) 4 data\<rparr>"

record gpu_display_info =
  disp_rect :: display_rect
  disp_enabled :: u32
  disp_flags :: u32

definition new_display_info :: "sdl_context \<Rightarrow> gpu_display_info" where
  "new_display_info backend =
     (let (width, height) = get_display_size backend
      in \<lparr>disp_rect = \<lparr>rect_x = 0, rect_y = 0, rect_width = width, rect_height = height\<rparr>,
          disp_enabled = 1, disp_flags = 0\<rparr>)"

definition empty_display_info :: gpu_display_info where
  "empty_display_info =
     \<lparr>disp_rect = \<lparr>rect_x = 0, rect_y = 0, rect_width = 0, rect_height = 0\<rparr>, disp_enabled = 0, disp_flags = 0\<rparr>"

definition display_info_to_bytes :: "gpu_display_info \<Rightarrow> u8 list" where
  "display_info_to_bytes d =
     le32 (rect_x (disp_rect d)) @ le32 (rect_y (disp_rect d)) @ le32 (rect_width (disp_rect d)) @
     le32 (rect_height (disp_rect d)) @ le32 (disp_enabled d) @ le32 (disp_flags d)"

record gpu_display_response =
  resp_hdr :: gpu_ctrl_hdr
  display_list :: "gpu_display_info list"

definition new_display_response :: "gpu_display_info list \<Rightarrow> gpu_display_response" where
  "new_display_response displays =
     (let count = min (length displays) 16
      in \<lparr>resp_hdr = new_ctrl_hdr RESP_OK_DISPLAY_INFO,
          display_list = copy_at (replicate 16 empty_display_info) 0 (take count displays)\<rparr>)"

definition display_response_to_bytes :: "gpu_display_response \<Rightarrow> u8 list" where
  "display_response_to_bytes r = ctrl_hdr_to_bytes (resp_hdr r) @ concat (map display_info_to_bytes (display_list r))"

text \<open>The commands. Every one starts with the header.\<close>

record gpu_create_2d =
  create_hdr :: gpu_ctrl_hdr
  create_id :: u32
  create_format :: u32
  create_width :: u32
  create_height :: u32

definition create_2d_from_bytes :: "u8 list \<Rightarrow> gpu_create_2d option" where
  "create_2d_from_bytes data =
     (if length data < 40 then None
      else Some \<lparr>create_hdr = ctrl_hdr_at data, create_id = field 24 4 data, create_format = field 28 4 data,
        create_width = field 32 4 data, create_height = field 36 4 data\<rparr>)"

record gpu_resource_drop =
  drop_hdr :: gpu_ctrl_hdr
  drop_id :: u32

definition resource_drop_from_bytes :: "u8 list \<Rightarrow> gpu_resource_drop option" where
  "resource_drop_from_bytes data =
     (if length data < 28 then None else Some \<lparr>drop_hdr = ctrl_hdr_at data, drop_id = field 24 4 data\<rparr>)"

record gpu_set_scanout =
  set_hdr :: gpu_ctrl_hdr
  set_rect :: display_rect
  set_scanout_id :: u32
  set_resource_id :: u32

definition set_scanout_from_bytes :: "u8 list \<Rightarrow> gpu_set_scanout option" where
  "set_scanout_from_bytes data =
     (if length data < 48 then None
      else Some \<lparr>set_hdr = ctrl_hdr_at data, set_rect = rect_at 24 data, set_scanout_id = field 40 4 data, set_resource_id = field 44 4 data\<rparr>)"

record gpu_transfer =
  tr_hdr :: gpu_ctrl_hdr
  tr_rect :: display_rect
  tr_offset :: u64
  tr_resource_id :: u32

definition transfer_from_bytes :: "u8 list \<Rightarrow> gpu_transfer option" where
  "transfer_from_bytes data =
     (if length data < 52 then None
      else Some \<lparr>tr_hdr = ctrl_hdr_at data, tr_rect = rect_at 24 data, tr_offset = field 40 8 data, tr_resource_id = field 48 4 data\<rparr>)"

record gpu_flush =
  flush_hdr :: gpu_ctrl_hdr
  flush_rect :: display_rect
  flush_resource_id :: u32

definition flush_from_bytes :: "u8 list \<Rightarrow> gpu_flush option" where
  "flush_from_bytes data =
     (if length data < 44 then None
      else Some \<lparr>flush_hdr = ctrl_hdr_at data, flush_rect = rect_at 24 data, flush_resource_id = field 40 4 data\<rparr>)"

record gpu_attach_hdr =
  attach_ctrl :: gpu_ctrl_hdr
  attach_id :: u32
  nr_entries :: u32

definition attach_hdr_from_bytes :: "u8 list \<Rightarrow> gpu_attach_hdr option" where
  "attach_hdr_from_bytes data =
     (if length data < 32 then None
      else Some \<lparr>attach_ctrl = ctrl_hdr_at data, attach_id = field 24 4 data, nr_entries = field 28 4 data\<rparr>)"

text \<open>The entries behind the attach header. The outer option is a panic of the slice, the inner one the
  \<^verbatim>\<open>?\<close> of the source.\<close>

fun attach_entries :: "u8 list \<Rightarrow> nat list \<Rightarrow> gpu_mem_entry list option option" where
  "attach_entries rest [] = Some (Some [])"
| "attach_entries rest (i # is) =
     do {
       chunk \<leftarrow> slice_of rest (i * 16) (i * 16 + 16);
       case mem_entry_from_bytes chunk of
         None \<Rightarrow> Some None
       | Some e \<Rightarrow> do { es \<leftarrow> attach_entries rest is; Some (map_option ((#) e) es) }
     }"

definition attach_from_bytes :: "u8 list \<Rightarrow> (gpu_attach_hdr \<times> gpu_mem_entry list) option option" where
  "attach_from_bytes data =
     (case attach_hdr_from_bytes data of
        None \<Rightarrow> Some None
      | Some hdr \<Rightarrow>
          do {
            rest \<leftarrow> slice_of data 32 (length data);
            let cnt = min (unat (nr_entries hdr)) (length rest div 16);
            entries \<leftarrow> attach_entries rest [0..<cnt];
            Some (map_option (Pair hdr) entries)
          })"

record gpu_detach_backing =
  detach_hdr :: gpu_ctrl_hdr
  detach_id :: u32

definition detach_backing_from_bytes :: "u8 list \<Rightarrow> gpu_detach_backing option" where
  "detach_backing_from_bytes data =
     (if length data < 28 then None else Some \<lparr>detach_hdr = ctrl_hdr_at data, detach_id = field 24 4 data\<rparr>)"

section \<open>Configuration space\<close>

record gpu_config =
  events_read :: u32
  events_clear :: u32
  num_scanouts :: u32
  num_capsets :: u32

definition new_gpu_config :: "u32 \<Rightarrow> u32 \<Rightarrow> u32 \<Rightarrow> gpu_config option" where
  "new_gpu_config clear scanouts capsets =
     (if scanouts = 0 \<or> 16 < scanouts then None
      else Some \<lparr>events_read = 0, events_clear = clear, num_scanouts = scanouts, num_capsets = capsets\<rparr>)"

definition gpu_config_to_bytes :: "gpu_config \<Rightarrow> usize \<Rightarrow> u8 list" where
  "gpu_config_to_bytes c len =
     vec_resize (le32 (events_read c) @ le32 (events_clear c) @ le32 (num_scanouts c) @ le32 (num_capsets c)) len 0"

definition config_write_field :: "gpu_config \<Rightarrow> usize \<Rightarrow> u8 list \<Rightarrow> gpu_config" where
  "config_write_field c offset data =
     (if data = [] \<or> 4 < length data then c
      else let fld = offset div 4; start = offset mod 4
           in if 4 < start + length data then c
              else let mask = push_bit (start * 8) (- 1) AND drop_bit (32 - (start + length data) * 8) (- 1);
                       buf = copy_at (replicate 4 0) start data
                   in if fld = 1 then c\<lparr>events_clear := (events_clear c AND NOT mask) OR (from_le buf AND mask)\<rparr>
                      else c)"

definition config_reset :: "gpu_config \<Rightarrow> gpu_config" where
  "config_reset c = c\<lparr>events_read := 0, events_clear := 0\<rparr>"

section \<open>Requests in a queue\<close>

definition write_response ::
    "profile \<Rightarrow> guest_memory \<Rightarrow> virtq_desc \<Rightarrow> u32 \<Rightarrow> (usize \<times> guest_memory) option" where
  "write_response p m desc typ =
     (let buf = ctrl_hdr_to_bytes (new_ctrl_hdr typ)
      in if desc_flags desc AND VIRTQ_DESC_F_WRITE = 0 \<or> unat (desc_len desc) < length buf then Some (0, m)
         else do { m \<leftarrow> write_guest_memory p m (desc_buf desc) buf; Some (length buf, m) })"

fun gather_loop ::
    "nat \<Rightarrow> profile \<Rightarrow> virtio_queue \<Rightarrow> guest_memory \<Rightarrow> u16 \<Rightarrow> u8 list \<Rightarrow> (u8 list \<times> virtq_desc) option option" where
  "gather_loop 0 p q m index request = Some None"
| "gather_loop (Suc n) p q m index request =
     do {
       desc \<leftarrow> get_descriptor p q m index;
       if desc_flags desc AND VIRTQ_DESC_F_WRITE \<noteq> 0 then
         Some (if request = [] then None else Some (request, desc))
       else if MAX_REQUEST_BYTES < saturating_add_usize (length request) (unat (desc_len desc)) then Some None
       else do {
         chunk \<leftarrow> read_guest_memory_alloc p m (desc_buf desc) (unat (desc_len desc));
         if desc_flags desc AND VIRTQ_DESC_F_NEXT = 0 \<or> q_size q \<le> desc_next desc then Some None
         else gather_loop n p q m (desc_next desc) (request @ chunk)
       }
     }"

definition gather_control_request ::
    "profile \<Rightarrow> virtio_queue \<Rightarrow> guest_memory \<Rightarrow> u16 \<Rightarrow> (u8 list \<times> virtq_desc) option option" where
  "gather_control_request p q m head = gather_loop (unat (q_size q)) p q m head []"

section \<open>Lemmas: encodings\<close>

lemma field_append:
  assumes "length xs = off" "length ys = n"
  shows "field off n (xs @ ys @ zs) = from_le ys" "field off n (xs @ ys) = from_le ys"
  using assms by (simp_all add: field_def)

lemma ctrl_hdr_roundtrip: "ctrl_hdr_from_bytes (ctrl_hdr_to_bytes h @ rest) = Some h"
proof -
  have "field 0 4 (ctrl_hdr_to_bytes h @ rest) = hdr_typ h" "field 4 4 (ctrl_hdr_to_bytes h @ rest) = hdr_flags h"
    "field 8 8 (ctrl_hdr_to_bytes h @ rest) = hdr_fence_id h" "field 16 4 (ctrl_hdr_to_bytes h @ rest) = hdr_ctx_id h"
    "field 20 4 (ctrl_hdr_to_bytes h @ rest) = hdr_ring_idx h"
    by (simp_all add: field_def ctrl_hdr_to_bytes_def)
  moreover have "\<not> length (ctrl_hdr_to_bytes h @ rest) < 24" by (simp add: ctrl_hdr_to_bytes_def)
  ultimately show ?thesis by (simp only: ctrl_hdr_from_bytes_def ctrl_hdr_at_def) simp
qed

lemma length_ctrl_hdr [simp]: "length (ctrl_hdr_to_bytes h) = 24"
  by (simp add: ctrl_hdr_to_bytes_def)

lemma length_display_response: "length (display_response_to_bytes (new_display_response ds)) = 408"
proof -
  have "length (display_list (new_display_response ds)) = 16"
    by (simp add: new_display_response_def Let_def)
  moreover have "length (concat (map display_info_to_bytes xs)) = 24 * length xs" for xs
    by (induction xs) (simp_all add: display_info_to_bytes_def)
  ultimately show ?thesis by (simp add: display_response_to_bytes_def)
qed

lemma chunk_fits: "i < n div 16 \<Longrightarrow> i * 16 + 16 \<le> n" for n :: nat
  using mult_le_mono1 [of "Suc i" "n div 16" 16] div_times_less_eq_dividend [of n 16] by linarith

lemma attach_entries_total:
  assumes "\<forall>i \<in> set is. i * 16 + 16 \<le> length rest"
  shows "\<exists>es. attach_entries rest is = Some (Some es) \<and> length es = length is"
  using assms by (induction "is") (auto simp: slice_of_def mem_entry_from_bytes_def)

lemma attach_total: "\<exists>r. attach_from_bytes data = Some r"
proof (cases "attach_hdr_from_bytes data")
  case (Some hdr)
  let ?cnt = "min (unat (nr_entries hdr)) (length (drop 32 data) div 16)"
  have "i * 16 + 16 \<le> length (drop 32 data)" if "i < ?cnt" for i
    using that by (simp add: chunk_fits)
  then obtain es where "attach_entries (drop 32 data) [0..<?cnt] = Some (Some es)"
    using attach_entries_total [of "[0..<?cnt]" "drop 32 data"] by auto
  with Some show ?thesis
    by (auto simp: attach_from_bytes_def attach_hdr_from_bytes_def slice_of_def Let_def split: if_splits)
qed (simp add: attach_from_bytes_def)

end
