(* ===== verification/Gpu_Resource.thy ===== *)
theory Gpu_Resource
  imports Gpu_Protocol
begin

text \<open>
  The 2D resources of \<^verbatim>\<open>devices/virtio/devices/gpu.rs\<close>: \<^verbatim>\<open>GpuResource\<close>, the copy from the backing pages of
  a resource, and the rectangle transfer of \<^verbatim>\<open>TRANSFER_TO_HOST_2D\<close>. The specification sees the backing
  pages as one string of bytes.
\<close>

section \<open>Operations\<close>

record gpu_resource =
  res_width :: u32
  res_height :: u32
  res_backing :: "gpu_mem_entry list"
  res_data :: "u8 list"
  res_stride :: usize

definition new_resource :: "u32 \<Rightarrow> u32 \<Rightarrow> u32 \<Rightarrow> gpu_resource option" where
  "new_resource format width height =
     (if format \<notin> set SUPPORTED_FORMATS then None
      else if width = 0 \<or> height = 0 then None
      else if MAX_RESOURCE_DIMENSION < width \<or> MAX_RESOURCE_DIMENSION < height then None
      else do {
        stride \<leftarrow> checked_mul_usize (unat width) BYTES_PER_PIXEL;
        len \<leftarrow> checked_mul_usize stride (unat height);
        if MAX_RESOURCE_BYTES < len then None
        else Some \<lparr>res_width = width, res_height = height, res_backing = [], res_data = replicate len 0,
          res_stride = stride\<rparr>
      })"

definition saturating_add :: "'a::len word \<Rightarrow> 'a word \<Rightarrow> 'a word" where
  "saturating_add a b = (if unat a + unat b < 2 ^ LENGTH('a) then a + b else - 1)"

definition res_contains :: "gpu_resource \<Rightarrow> display_rect \<Rightarrow> bool" where
  "res_contains r rect \<longleftrightarrow> rect_width rect \<noteq> 0 \<and> rect_height rect \<noteq> 0 \<and>
     rect_x rect < res_width r \<and> rect_y rect < res_height r \<and>
     saturating_add (rect_x rect) (rect_width rect) \<le> res_width r \<and>
     saturating_add (rect_y rect) (rect_height rect) \<le> res_height r"

definition backing_len :: "gpu_resource \<Rightarrow> usize" where
  "backing_len r = foldl (\<lambda>acc e. saturating_add_usize acc (unat (ent_length e))) 0 (res_backing r)"

text \<open>The loop over the backing pages; \<open>copied\<close> bytes of \<open>out\<close> are done, \<open>skipped\<close> bytes of pages are behind.\<close>

primrec backing_loop ::
    "profile \<Rightarrow> guest_memory \<Rightarrow> usize \<Rightarrow> gpu_mem_entry list \<Rightarrow> usize \<Rightarrow> usize \<Rightarrow> u8 list \<Rightarrow> u8 list option" where
  "backing_loop p m start [] copied skipped out = Some out"
| "backing_loop p m start (e # es) copied skipped out =
     (if copied = length out then Some out
      else let entry_len = unat (ent_length e); entry_start = start - skipped
           in if entry_start < entry_len then
                let n = min (entry_len - entry_start) (length out - copied)
                in if 2 ^ 64 \<le> unat (ent_addr e) + entry_start then Some out
                   else do {
                     tmp \<leftarrow> read_guest_memory_alloc p m (ent_addr e + of_nat entry_start) n;
                     out \<leftarrow> put_slice out copied (copied + n) tmp;
                     backing_loop p m start es (copied + n) (saturating_add_usize skipped entry_len) out
                   }
              else backing_loop p m start es copied (saturating_add_usize skipped entry_len) out)"

definition read_backing_range ::
    "profile \<Rightarrow> guest_memory \<Rightarrow> gpu_resource \<Rightarrow> usize \<Rightarrow> u8 list \<Rightarrow> u8 list option" where
  "read_backing_range p m r start out = backing_loop p m start (res_backing r) 0 0 out"

text \<open>The rows of a transfer: \<open>n\<close> rows are left, \<open>row\<close> is the next one.\<close>

primrec transfer_rows ::
    "profile \<Rightarrow> guest_memory \<Rightarrow> display_rect \<Rightarrow> usize \<Rightarrow> nat \<Rightarrow> usize \<Rightarrow> u8 list \<Rightarrow> gpu_resource \<Rightarrow> gpu_resource option" where
  "transfer_rows p m rect base 0 row row_buf r = Some r"
| "transfer_rows p m rect base (Suc n) row row_buf r =
     (case checked_add_usize base (saturating_mul_usize row (res_stride r)) of
        None \<Rightarrow> Some r
      | Some src \<Rightarrow>
          do {
            row_buf \<leftarrow> read_backing_range p m r src row_buf;
            y \<leftarrow> add_usize p (unat (rect_y rect)) row;
            ys \<leftarrow> mul_usize p y (res_stride r);
            xs \<leftarrow> mul_usize p (unat (rect_x rect)) BYTES_PER_PIXEL;
            dst_start \<leftarrow> add_usize p ys xs;
            let copy_len = min (length row_buf) (length (res_data r) - dst_start);
            if copy_len = 0 then Some r
            else do {
              dst_end \<leftarrow> add_usize p dst_start copy_len;
              chunk \<leftarrow> slice_of row_buf 0 copy_len;
              data \<leftarrow> put_slice (res_data r) dst_start dst_end chunk;
              transfer_rows p m rect base n (row + 1) row_buf (r\<lparr>res_data := data\<rparr>)
            }
          })"

text \<open>A transfer into a resource; the inner \<open>None\<close> is an invalid argument.\<close>

definition transfer_base :: "gpu_resource \<Rightarrow> display_rect \<Rightarrow> u64 \<Rightarrow> usize option" where
  "transfer_base r rect offset =
     do {
       v \<leftarrow> checked_add_usize (unat offset) (saturating_mul_usize (unat (rect_y rect)) (res_stride r));
       checked_add_usize v (unat (rect_x rect) * BYTES_PER_PIXEL)
     }"

definition transfer_to_host ::
    "profile \<Rightarrow> guest_memory \<Rightarrow> gpu_resource \<Rightarrow> display_rect \<Rightarrow> u64 \<Rightarrow> gpu_resource option option" where
  "transfer_to_host p m r rect offset =
     (if \<not> res_contains r rect then Some None
      else case transfer_base r rect offset of
        None \<Rightarrow> Some None
      | Some base \<Rightarrow>
          if backing_len r < base then Some None
          else do {
            row_len \<leftarrow> mul_usize p (unat (rect_width rect)) BYTES_PER_PIXEL;
            row_buf \<leftarrow> vec_zeros row_len;
            r \<leftarrow> transfer_rows p m rect base (unat (rect_height rect)) 0 row_buf r;
            Some (Some r)
          })"

section \<open>Well-formed resources\<close>

definition res_ok :: "gpu_resource \<Rightarrow> bool" where
  "res_ok r \<longleftrightarrow> res_width r \<noteq> 0 \<and> res_height r \<noteq> 0 \<and> res_width r \<le> MAX_RESOURCE_DIMENSION \<and>
     res_height r \<le> MAX_RESOURCE_DIMENSION \<and> res_stride r = 4 * unat (res_width r) \<and>
     length (res_data r) = res_stride r * unat (res_height r) \<and> length (res_data r) \<le> MAX_RESOURCE_BYTES"

lemma new_resource_ok: "new_resource f w h = Some r \<Longrightarrow> res_ok r"
  by (auto simp: new_resource_def res_ok_def checked_mul_usize_def BYTES_PER_PIXEL_def MAX_RESOURCE_BYTES_def
      split: if_splits elim!: bind_SomeE)

lemma dimension_small: "res_ok r \<Longrightarrow> unat (res_width r) \<le> 16384 \<and> unat (res_height r) \<le> 16384"
  by (auto simp: res_ok_def MAX_RESOURCE_DIMENSION_def word_le_nat_alt)

lemma saturating_add_le:
  assumes "saturating_add a b \<le> c" "c \<noteq> - 1"
  shows "unat a + unat b \<le> unat c"
proof -
  have "saturating_add a b \<noteq> - 1"
    using assms word_order.extremum_unique [of c] by auto
  with assms(1) show ?thesis
    by (auto simp: saturating_add_def word_le_nat_alt unat_add_fits split: if_splits)
qed

lemma contains_inside:
  assumes "res_ok r" "res_contains r rc"
  shows "rect_width rc \<noteq> 0" "rect_height rc \<noteq> 0"
    "unat (rect_x rc) + unat (rect_width rc) \<le> unat (res_width r)"
    "unat (rect_y rc) + unat (rect_height rc) \<le> unat (res_height r)"
    "rect_inside (res_data r) (res_stride r) rc"
proof -
  have "unat (- 1 :: u32) = 2 ^ 32 - 1" by (simp add: unsigned_minus_1_eq_mask mask_eq_exp_minus_1)
  then have "res_width r \<noteq> - 1" "res_height r \<noteq> - 1"
    using dimension_small [OF assms(1)] by auto
  with assms show g: "rect_width rc \<noteq> 0" "rect_height rc \<noteq> 0"
    "unat (rect_x rc) + unat (rect_width rc) \<le> unat (res_width r)"
    "unat (rect_y rc) + unat (rect_height rc) \<le> unat (res_height r)"
    by (auto simp: res_contains_def intro: saturating_add_le)
  have "(unat (rect_y rc) + unat (rect_height rc)) * res_stride r \<le> unat (res_height r) * res_stride r"
    using g(4) by (rule mult_le_mono1)
  with g assms(1) show "rect_inside (res_data r) (res_stride r) rc"
    by (simp add: rect_inside_def res_ok_def mult.commute)
qed

section \<open>The backing pages as one string of bytes\<close>

definition disjoint_regions :: "guest_memory \<Rightarrow> bool" where
  "disjoint_regions m \<longleftrightarrow>
     sorted_wrt (\<lambda>r s. span (mem_offset r) (unat (mem_size r)) \<inter> span (mem_offset s) (unat (mem_size s)) = {}) m"

lemma hits_span: "hits r a n \<Longrightarrow> span a n \<subseteq> span (mem_offset r) (unat (mem_size r))"
  by (auto simp: hits_def span_def word_le_nat_alt unat_sub_le)

lemma backed_region: "backed m a n \<Longrightarrow> \<exists>r \<in> set m. hits r a n"
  by (induction m rule: backed_induct) auto

lemma bytes_at_part:
  assumes "backed m a n" "wf_mem m" "disjoint_regions m" "i + k \<le> n" "0 < k" "unat a + n \<le> 2 ^ 64"
  shows "bytes_at m (a + of_nat i) k = take k (drop i (bytes_at m a n))"
proof -
  have i: "unat (a + of_nat i) = unat a + i"
    using assms(4-6) by (simp add: unat_add_fits unat_of_nat_less)
  show ?thesis
    using assms(1-3)
  proof (induction m rule: backed_induct)
    case (hit r rs blk)
    note h = hits_block [OF _ hit(1,2)]
    have "hits r (a + of_nat i) k"
      using h hit(1) assms(4) i hits_span [OF hit(1)] assms(5)
      by (intro hits_inside) (auto simp: hits_def word_le_nat_alt unat_sub_le)
    moreover have "unat (a + of_nat i - mem_offset r) = unat (a - mem_offset r) + i"
      using h hits_block [OF _ calculation hit(2)] hit(3) i by simp
    ultimately show ?case using hit(1,2) assms(4) by (simp add: take_drop add.commute)
  next
    case (skip r rs)
    have "\<not> hits r (a + of_nat i) k"
    proof
      assume "hits r (a + of_nat i) k"
      from hits_span [OF this] i assms(5) have "unat a + i \<in> span (mem_offset r) (unat (mem_size r))"
        by (auto simp: span_def)
      moreover obtain s where s: "s \<in> set rs" "hits s a n" using backed_region skip(3) by blast
      have "unat a + i \<in> span (mem_offset s) (unat (mem_size s))"
        using hits_span [OF s(2)] assms(4,5) by (auto simp: span_def)
      ultimately show False using skip(6) s(1) by (auto simp: disjoint_regions_def)
    qed
    with skip show ?case by (simp add: disjoint_regions_def)
  qed
qed

definition entry_bytes :: "guest_memory \<Rightarrow> gpu_mem_entry \<Rightarrow> u8 list" where
  "entry_bytes m e = bytes_at m (ent_addr e) (unat (ent_length e))"

definition backing_bytes :: "guest_memory \<Rightarrow> gpu_resource \<Rightarrow> u8 list" where
  "backing_bytes m r = concat (map (entry_bytes m) (res_backing r))"

definition entries_ok :: "guest_memory \<Rightarrow> gpu_mem_entry list \<Rightarrow> bool" where
  "entries_ok m es \<longleftrightarrow> list_all (\<lambda>e. cells_ok m (ent_addr e) (unat (ent_length e))) es"

lemma entries_ok_simps [simp]:
  "entries_ok m []" "entries_ok m (e # es) \<longleftrightarrow> cells_ok m (ent_addr e) (unat (ent_length e)) \<and> entries_ok m es"
  by (simp_all add: entries_ok_def)

lemma copy_at_twice:
  "i + length xs + length ys \<le> length zs \<Longrightarrow> copy_at (copy_at zs i xs) (i + length xs) ys = copy_at zs i (xs @ ys)"
  by (simp add: copy_at_def ac_simps)

lemma entry_read:
  assumes "wf_mem m" "cells_ok m a n" "i + k \<le> n" "0 < k"
  shows "unat a + i < 2 ^ 64" "read_guest_memory_alloc p m (a + of_nat i) k = Some (bytes_at m (a + of_nat i) k)"
    "length (bytes_at m (a + of_nat i) k) = k"
    "disjoint_regions m \<Longrightarrow> bytes_at m (a + of_nat i) k = take k (drop i (bytes_at m a n))"
proof -
  note c = cells_okD [OF assms(2-4)]
  show "unat a + i < 2 ^ 64" using assms(2-4) by (auto simp: cells_ok_def)
  show "read_guest_memory_alloc p m (a + of_nat i) k = Some (bytes_at m (a + of_nat i) k)"
    by (rule alloc_backed [OF assms(1) c(3)])
  show "length (bytes_at m (a + of_nat i) k) = k" by (rule length_bytes_at [OF c(3) assms(1)])
  have "backed m a n" using cells_okD(3) [OF assms(2), of 0 n] assms(3,4) by simp
  then show "disjoint_regions m \<Longrightarrow> bytes_at m (a + of_nat i) k = take k (drop i (bytes_at m a n))"
    using bytes_at_part [of m a n i k] assms by (simp add: cells_ok_def)
qed

lemma length_entry_bytes:
  "wf_mem m \<Longrightarrow> cells_ok m (ent_addr e) (unat (ent_length e)) \<Longrightarrow> length (entry_bytes m e) = unat (ent_length e)"
  using entry_read(3) [of m "ent_addr e" "unat (ent_length e)" 0 "unat (ent_length e)"]
  by (cases "unat (ent_length e) = 0") (simp_all add: entry_bytes_def)

lemma put_slice_fits: "length ys = n \<Longrightarrow> i + n \<le> length xs \<Longrightarrow> put_slice xs i (i + n) ys = Some (copy_at xs i ys)"
  by (simp add: put_slice_def)

lemma backing_step:
  assumes "copied \<noteq> length out" "start - skipped < unat (ent_length e)" "unat (ent_addr e) + (start - skipped) < 2 ^ 64"
    and "min (unat (ent_length e) - (start - skipped)) (length out - copied) = n"
    and "read_guest_memory_alloc p m (ent_addr e + of_nat (start - skipped)) n = Some tmp"
    and "put_slice out copied (copied + n) tmp = Some out'"
  shows "backing_loop p m start (e # es) copied skipped out =
    backing_loop p m start es (copied + n) (saturating_add_usize skipped (unat (ent_length e))) out'"
  using assms by (simp add: Let_def del: of_nat_diff)

lemma backing_loop_total:
  assumes "wf_mem m" "entries_ok m es" "copied \<le> length out"
  shows "\<exists>out'. backing_loop p m start es copied skipped out = Some out' \<and> length out' = length out"
  using assms(2,3)
proof (induction es arbitrary: copied skipped out)
  case (Cons e es)
  let ?a = "ent_addr e" and ?len = "unat (ent_length e)" and ?i = "start - skipped"
  let ?n = "min (?len - ?i) (length out - copied)"
  show ?case
  proof (cases "copied = length out \<or> ?len \<le> ?i")
    case False
    then have n: "?i + ?n \<le> ?len" "0 < ?n" using Cons.prems(2) by auto
    have ce: "cells_ok m ?a ?len" "entries_ok m es" using Cons.prems(1) by simp_all
    note r = entry_read [OF assms(1) ce(1) n]
    let ?out = "copy_at out copied (bytes_at m (?a + of_nat ?i) ?n)"
    have "copied + ?n \<le> length out" using Cons.prems(2) by linarith
    from put_slice_fits [OF r(3) this] have "backing_loop p m start (e # es) copied skipped out =
        backing_loop p m start es (copied + ?n) (saturating_add_usize skipped ?len) ?out"
      using False by (intro backing_step [OF _ _ r(1) refl r(2)]) auto
    moreover have "length ?out = length out" using \<open>copied + ?n \<le> length out\<close> r(3) by simp
    ultimately show ?thesis
      using Cons.IH [OF ce(2), of "copied + ?n" ?out] \<open>copied + ?n \<le> length out\<close> by metis
  qed (use Cons in \<open>auto simp: Let_def\<close>)
qed simp

lemma backing_loop_reads:
  assumes "wf_mem m" "disjoint_regions m" "entries_ok m es"
    and "copied \<le> length out" "copied = length out \<or> copied = skipped - start"
    and "skipped + sum_list (map (unat \<circ> ent_length) es) \<le> usize_max"
  shows "backing_loop p m start es copied skipped out =
    Some (copy_at out copied (take (length out - copied) (drop (start - skipped) (concat (map (entry_bytes m) es)))))"
  using assms(3-6)
proof (induction es arbitrary: copied skipped out)
  case (Cons e es)
  let ?a = "ent_addr e" and ?len = "unat (ent_length e)" and ?i = "start - skipped"
  let ?n = "min (?len - ?i) (length out - copied)" and ?rest = "concat (map (entry_bytes m) es)"
  have el: "length (entry_bytes m e) = ?len" using length_entry_bytes assms(1) Cons.prems(1) by simp
  have sat: "saturating_add_usize skipped ?len = skipped + ?len"
    using Cons.prems(4) by (simp add: saturating_add_usize_def)
  consider "copied = length out" | "copied \<noteq> length out" "?len \<le> ?i" | "copied \<noteq> length out" "?i < ?len" by linarith
  then show ?case
  proof cases
    case 2
    then have "backing_loop p m start (e # es) copied skipped out = backing_loop p m start es copied (skipped + ?len) out"
      by (simp add: sat Let_def)
    also have "\<dots> = Some (copy_at out copied (take (length out - copied) (drop (start - (skipped + ?len)) ?rest)))"
      by (rule Cons.IH) (use Cons.prems 2 in auto)
    finally show ?thesis using 2 el by simp
  next
    case 3
    then have n: "?i + ?n \<le> ?len" "0 < ?n" using Cons.prems(2) by auto
    have ce: "cells_ok m ?a ?len" "entries_ok m es" using Cons.prems(1) by simp_all
    note r = entry_read [OF assms(1) ce(1) n]
    define k tmp where kt: "k = ?n" "tmp = take k (drop ?i (entry_bytes m e))"
    have tmp: "length tmp = k" using el n by (simp add: kt)
    have fit: "copied + k \<le> length out" using Cons.prems(2) kt(1) by linarith
    note put = put_slice_fits [OF tmp fit]
    have rd: "read_guest_memory_alloc p m (?a + of_nat ?i) k = Some tmp"
      using r(2) r(4) [OF assms(2)] by (simp only: entry_bytes_def kt)
    have "backing_loop p m start (e # es) copied skipped out =
        backing_loop p m start es (copied + k) (skipped + ?len) (copy_at out copied tmp)"
      unfolding sat [symmetric] by (rule backing_step [OF 3 r(1) kt(1) [symmetric] rd put])
    also have "\<dots> = Some (copy_at (copy_at out copied tmp) (copied + k)
        (take (length (copy_at out copied tmp) - (copied + k)) (drop (start - (skipped + ?len)) ?rest)))"
    proof (rule Cons.IH)
      have "copied = skipped - start" using Cons.prems(3) 3(1) by simp
      with 3(2) Cons.prems(2) have "copied + k = length out \<or> copied + k = skipped + ?len - start"
        unfolding kt(1) min_def by auto
      then show "copied + k = length (copy_at out copied tmp) \<or> copied + k = skipped + ?len - start"
        using fit tmp by simp
      show "copied + k \<le> length (copy_at out copied tmp)" using fit tmp by simp
      show "skipped + ?len + sum_list (map (unat \<circ> ent_length) es) \<le> usize_max"
        using Cons.prems(4) by (simp add: add.assoc o_def)
    qed (rule ce(2))
    also have "\<dots> = Some (copy_at out copied (tmp @ take (length out - copied - k) ?rest))"
      using copy_at_twice [of copied tmp "take (length out - copied - k) ?rest" out] tmp fit 3(2) by simp
    also have "tmp @ take (length out - copied - k) ?rest = take (length out - copied) (drop ?i (entry_bytes m e @ ?rest))"
      using 3(2) el by (simp add: kt min_def)
    finally show ?thesis by simp
  qed simp
qed simp

lemma backing_len_sum:
  "sum_list (map (unat \<circ> ent_length) (res_backing r)) \<le> usize_max \<Longrightarrow>
    backing_len r = sum_list (map (unat \<circ> ent_length) (res_backing r))"
proof -
  have "acc + sum_list (map (unat \<circ> ent_length) es) \<le> usize_max \<Longrightarrow>
      foldl (\<lambda>acc e. saturating_add_usize acc (unat (ent_length e))) acc es = acc + sum_list (map (unat \<circ> ent_length) es)"
    for acc es
    by (induction es arbitrary: acc) (auto simp: saturating_add_usize_def)
  from this [of 0] show "sum_list (map (unat \<circ> ent_length) (res_backing r)) \<le> usize_max \<Longrightarrow> ?thesis"
    by (simp add: backing_len_def)
qed

lemma length_backing:
  assumes "wf_mem m" "entries_ok m (res_backing r)"
  shows "length (backing_bytes m r) = sum_list (map (unat \<circ> ent_length) (res_backing r))"
proof -
  have "length (concat (map (entry_bytes m) es)) = sum_list (map (unat \<circ> ent_length) es)" if "entries_ok m es" for es
    using that by (induction es) (simp_all add: length_entry_bytes assms(1))
  with assms(2) show ?thesis by (simp add: backing_bytes_def)
qed

text \<open>What the device may rely on when it reads the pages of a resource.\<close>

definition backing_ok :: "guest_memory \<Rightarrow> gpu_resource \<Rightarrow> bool" where
  "backing_ok m r \<longleftrightarrow> wf_mem m \<and> disjoint_regions m \<and> entries_ok m (res_backing r) \<and>
     sum_list (map (unat \<circ> ent_length) (res_backing r)) \<le> usize_max"

lemma read_backing_full:
  assumes "backing_ok m r" "start + length out \<le> length (backing_bytes m r)"
  shows "read_backing_range p m r start out = Some (take (length out) (drop start (backing_bytes m r)))"
  using assms backing_loop_reads [of m "res_backing r" 0 out 0 start p]
  by (simp add: backing_ok_def read_backing_range_def backing_bytes_def copy_at_def)

section \<open>A transfer copies the rectangle\<close>

text \<open>Where row \<open>i\<close> of the rectangle starts in the picture.\<close>

definition row_start :: "gpu_resource \<Rightarrow> display_rect \<Rightarrow> nat \<Rightarrow> nat" where
  "row_start r rc i = (unat (rect_y rc) + i) * res_stride r + 4 * unat (rect_x rc)"

lemma row_start_fits:
  assumes "res_ok r" "res_contains r rc" "i < unat (rect_height rc)"
  shows "row_start r rc i + 4 * unat (rect_width rc) \<le> length (res_data r)" "length (res_data r) \<le> 2 ^ 28"
    "rect_width rc \<noteq> 0" "unat (rect_y rc) + i \<le> 16384" "unat (rect_x rc) \<le> 16384" "unat (rect_width rc) \<le> 16384"
    "res_stride r \<le> 2 ^ 16"
proof -
  note c = contains_inside [OF assms(1,2)]
  show "row_start r rc i + 4 * unat (rect_width rc) \<le> length (res_data r)"
    unfolding row_start_def by (rule row_fits [OF _ _ assms(3)]) (use c(5) in \<open>auto simp: rect_inside_def\<close>)
  show "length (res_data r) \<le> 2 ^ 28" "rect_width rc \<noteq> 0"
    using assms(1) c(1) by (auto simp: res_ok_def MAX_RESOURCE_BYTES_def)
  show "unat (rect_y rc) + i \<le> 16384" "unat (rect_x rc) \<le> 16384" "unat (rect_width rc) \<le> 16384" "res_stride r \<le> 2 ^ 16"
    using dimension_small [OF assms(1)] c(3,4) assms(1,3) by (auto simp: res_ok_def)
qed

lemma transfer_step:
  assumes "res_ok r" "res_contains r rc" "row < unat (rect_height rc)" "base + row * res_stride r \<le> usize_max"
    and "read_backing_range p m r (base + row * res_stride r) row_buf = Some buf" "length buf = 4 * unat (rect_width rc)"
  shows "transfer_rows p m rc base (Suc n) row row_buf r =
    transfer_rows p m rc base n (Suc row) buf (r\<lparr>res_data := copy_at (res_data r) (row_start r rc row) buf\<rparr>)"
proof -
  note f = row_start_fits [OF assms(1-3)]
  have "row * res_stride r \<le> usize_max" using assms(4) by simp
  then have src: "checked_add_usize base (saturating_mul_usize row (res_stride r)) = Some (base + row * res_stride r)"
    using assms(4) by (simp add: checked_add_usize_def saturating_mul_usize_def)
  have "(unat (rect_y rc) + row) * res_stride r \<le> row_start r rc row" by (simp add: row_start_def)
  then have ops: "add_usize p (unat (rect_y rc)) row = Some (unat (rect_y rc) + row)"
    "mul_usize p (unat (rect_y rc) + row) (res_stride r) = Some ((unat (rect_y rc) + row) * res_stride r)"
    "mul_usize p (unat (rect_x rc)) BYTES_PER_PIXEL = Some (4 * unat (rect_x rc))"
    "add_usize p ((unat (rect_y rc) + row) * res_stride r) (4 * unat (rect_x rc)) = Some (row_start r rc row)"
    "add_usize p (row_start r rc row) (length buf) = Some (row_start r rc row + length buf)"
    using f assms(6) by (simp_all add: usize_fits BYTES_PER_PIXEL_def row_start_def)
  have len: "min (length buf) (length (res_data r) - row_start r rc row) = length buf" "length buf \<noteq> 0"
    using f assms(6) by simp_all
  have "slice_of buf 0 (length buf) = Some buf"
    "put_slice (res_data r) (row_start r rc row) (row_start r rc row + length buf) buf =
      Some (copy_at (res_data r) (row_start r rc row) buf)"
    using f(1) assms(6) by (simp_all add: slice_of_def put_slice_fits)
  then show ?thesis using len by (simp add: src assms(5) ops Let_def)
qed

text \<open>The picture after the rows from \<open>row\<close> on have been copied from \<open>base\<close> in the backing bytes.\<close>

definition rows_copied :: "u8 list \<Rightarrow> gpu_resource \<Rightarrow> display_rect \<Rightarrow> nat \<Rightarrow> nat \<Rightarrow> u8 list \<Rightarrow> bool" where
  "rows_copied B r rc base row data \<longleftrightarrow> length data = length (res_data r) \<and>
     (\<forall>i j. row \<le> i \<longrightarrow> i < unat (rect_height rc) \<longrightarrow> j < 4 * unat (rect_width rc) \<longrightarrow>
        data ! (row_start r rc i + j) = B ! (base + i * res_stride r + j)) \<and>
     (\<forall>k < length data. (\<forall>i. row \<le> i \<longrightarrow> i < unat (rect_height rc) \<longrightarrow>
          k \<notin> {row_start r rc i..<row_start r rc i + 4 * unat (rect_width rc)}) \<longrightarrow> data ! k = res_data r ! k)"

lemma res_ok_data: "res_ok r \<Longrightarrow> length d = length (res_data r) \<Longrightarrow> res_ok (r\<lparr>res_data := d\<rparr>)"
  by (auto simp: res_ok_def)

lemma row_start_data [simp]: "row_start (r\<lparr>res_data := d\<rparr>) rc i = row_start r rc i"
  by (simp add: row_start_def)

lemma contains_data [simp]:
  "res_contains (r\<lparr>res_data := d\<rparr>) rc = res_contains r rc" "backing_bytes m (r\<lparr>res_data := d\<rparr>) = backing_bytes m r"
  "backing_ok m (r\<lparr>res_data := d\<rparr>) = backing_ok m r"
  by (simp_all add: res_contains_def backing_bytes_def backing_ok_def)

lemma rows_apart:
  assumes "res_ok r" "res_contains r rc" "i < j"
  shows "row_start r rc i + 4 * unat (rect_width rc) \<le> row_start r rc j"
proof -
  have "4 * unat (rect_width rc) \<le> res_stride r"
    using contains_inside [OF assms(1,2)] assms(1) by (simp add: res_ok_def)
  moreover have "(unat (rect_y rc) + i) * res_stride r + res_stride r \<le> (unat (rect_y rc) + j) * res_stride r"
    using mult_le_mono1 [of "unat (rect_y rc) + Suc i" "unat (rect_y rc) + j" "res_stride r"] assms(3) by simp
  ultimately show ?thesis by (simp add: row_start_def)
qed

lemma rows_copied_step:
  assumes "res_ok r" "res_contains r rc" "row < unat (rect_height rc)"
    and "buf = take (4 * unat (rect_width rc)) (drop (base + row * res_stride r) B)"
    and "base + row * res_stride r + 4 * unat (rect_width rc) \<le> length B"
    and c: "rows_copied B (r\<lparr>res_data := copy_at (res_data r) (row_start r rc row) buf\<rparr>) rc base (Suc row) data"
  shows "rows_copied B r rc base row data"
proof -
  let ?w = "4 * unat (rect_width rc)" and ?s = "row_start r rc"
  let ?d = "copy_at (res_data r) (?s row) buf"
  have buf: "length buf = ?w" using assms(4,5) by simp
  note f = row_start_fits(1) [OF assms(1,2)]
  have len: "length ?d = length (res_data r)" "length data = length (res_data r)"
    using f [OF assms(3)] buf c by (simp_all add: rows_copied_def)
  note at = nth_copy_at [of "?s row" buf "res_data r"]
  have keep: "data ! k = ?d ! k" if "k < length data" "\<And>i. Suc row \<le> i \<Longrightarrow> i < unat (rect_height rc) \<Longrightarrow> k \<notin> {?s i..<?s i + ?w}" for k
    using c that len by (auto simp: rows_copied_def)
  have "data ! (?s row + j) = B ! (base + row * res_stride r + j)" if "j < ?w" for j
  proof -
    have "data ! (?s row + j) = ?d ! (?s row + j)"
    proof (rule keep)
      show "?s row + j < length data" using f [OF assms(3)] that len(2) by simp
      show "?s row + j \<notin> {?s i..<?s i + ?w}" if "Suc row \<le> i" for i
        using rows_apart [OF assms(1,2), of row i] that \<open>j < ?w\<close> by simp
    qed
    also have "\<dots> = buf ! j" using at f [OF assms(3)] that buf by simp
    finally show ?thesis using that assms(4,5) by (simp add: add.assoc)
  qed
  moreover have "data ! (?s i + j) = B ! (base + i * res_stride r + j)"
    if "Suc row \<le> i" "i < unat (rect_height rc)" "j < ?w" for i j
    using c that by (simp add: rows_copied_def)
  ultimately have "data ! (?s i + j) = B ! (base + i * res_stride r + j)"
    if "row \<le> i" "i < unat (rect_height rc)" "j < ?w" for i j
    using that by (cases "i = row") auto
  moreover have "data ! k = res_data r ! k"
    if "k < length data" "\<forall>i. row \<le> i \<longrightarrow> i < unat (rect_height rc) \<longrightarrow> k \<notin> {?s i..<?s i + ?w}" for k
  proof -
    have "data ! k = ?d ! k" by (rule keep) (use that in auto)
    moreover have "k \<notin> {?s row..<?s row + ?w}" using that(2) assms(3) by blast
    ultimately show ?thesis using at f [OF assms(3)] buf len that(1) by auto
  qed
  ultimately show ?thesis using len(2) by (simp add: rows_copied_def)
qed

lemma transfer_rows_copies:
  assumes "res_ok r" "res_contains r rc" "backing_ok m r" "row + n = unat (rect_height rc)"
    and "\<forall>i < unat (rect_height rc). base + i * res_stride r + 4 * unat (rect_width rc) \<le> length (backing_bytes m r)"
    and "length row_buf = 4 * unat (rect_width rc)"
  shows "\<exists>data. transfer_rows p m rc base n row row_buf r = Some (r\<lparr>res_data := data\<rparr>) \<and>
    rows_copied (backing_bytes m r) r rc base row data"
  using assms
proof (induction n arbitrary: row row_buf r)
  case 0
  then show ?case by (intro exI [of _ "res_data r"]) (auto simp: rows_copied_def)
next
  case (Suc n)
  let ?B = "backing_bytes m r" and ?src = "base + row * res_stride r"
  define buf where buf: "buf = take (length row_buf) (drop ?src ?B)"
  have row: "row < unat (rect_height rc)" using Suc.prems(4) by simp
  with Suc.prems(5,6) have src: "?src + length row_buf \<le> length ?B" by simp
  have "length ?B \<le> usize_max" using Suc.prems(3) by (simp add: backing_ok_def length_backing)
  with src have max: "?src \<le> usize_max" by linarith
  have lb: "length buf = 4 * unat (rect_width rc)" using src Suc.prems(6) by (simp add: buf)
  have rd: "read_backing_range p m r ?src row_buf = Some buf"
    using read_backing_full [OF Suc.prems(3) src] by (simp add: buf)
  let ?r = "r\<lparr>res_data := copy_at (res_data r) (row_start r rc row) buf\<rparr>"
  have "length (copy_at (res_data r) (row_start r rc row) buf) = length (res_data r)"
    using row_start_fits(1) [OF Suc.prems(1,2) row] lb by simp
  then have ok: "res_ok ?r" using res_ok_data Suc.prems(1) by blast
  obtain data where d: "transfer_rows p m rc base n (Suc row) buf ?r = Some (?r\<lparr>res_data := data\<rparr>)"
      "rows_copied ?B ?r rc base (Suc row) data"
    using Suc.IH [OF ok, of "Suc row" buf] Suc.prems lb by auto
  have "rows_copied ?B r rc base row data"
    by (rule rows_copied_step [OF Suc.prems(1,2) row _ _ d(2)]) (use buf src Suc.prems(6) in simp_all)
  then show ?case using transfer_step [OF Suc.prems(1,2) row max rd lb] d(1) by auto
qed

lemma transfer_rows_shape:
  "transfer_rows p m rc base n row row_buf r = Some r' \<Longrightarrow> \<exists>data. r' = r\<lparr>res_data := data\<rparr> \<and> length data = length (res_data r)"
proof (induction n arbitrary: row row_buf r)
  case 0
  then show ?case by (intro exI [of _ "res_data r"]) simp
next
  case (Suc n)
  have "\<exists>data. r = r\<lparr>res_data := data\<rparr> \<and> length data = length (res_data r)" by (intro exI [of _ "res_data r"]) simp
  with Suc show ?case
    by (fastforce simp: Let_def split: option.splits if_splits elim!: bind_SomeE dest: put_slice_length)
qed

lemma transfer_to_host_shape:
  "transfer_to_host p m r rc off = Some (Some r') \<Longrightarrow> \<exists>data. r' = r\<lparr>res_data := data\<rparr> \<and> length data = length (res_data r)"
  by (auto simp: transfer_to_host_def split: if_splits option.splits elim!: bind_SomeE dest!: transfer_rows_shape)

text \<open>Whatever the request and however short the backing, a transfer from readable pages returns, and it
  changes nothing but the pixels.\<close>

lemma transfer_rows_total:
  assumes "res_ok r" "res_contains r rc" "wf_mem m" "entries_ok m (res_backing r)"
    and "row + n = unat (rect_height rc)" "length row_buf = 4 * unat (rect_width rc)"
  shows "\<exists>data. transfer_rows p m rc base n row row_buf r = Some (r\<lparr>res_data := data\<rparr>) \<and> length data = length (res_data r)"
  using assms
proof (induction n arbitrary: row row_buf r)
  case 0
  then show ?case by (intro exI [of _ "res_data r"]) auto
next
  case (Suc n)
  have row: "row < unat (rect_height rc)" using Suc.prems(5) by simp
  note f = row_start_fits [OF Suc.prems(1,2) row]
  have "row \<le> 16384" using f(4) by simp
  then have "row * res_stride r \<le> 16384 * 2 ^ 16" using f(7) by (intro mult_le_mono) auto
  then have sat: "saturating_mul_usize row (res_stride r) = row * res_stride r"
    by (simp add: saturating_mul_usize_def)
  show ?case
  proof (cases "base + row * res_stride r \<le> usize_max")
    case True
    obtain buf where rd: "read_backing_range p m r (base + row * res_stride r) row_buf = Some buf"
        and lb: "length buf = 4 * unat (rect_width rc)"
      using backing_loop_total [OF Suc.prems(3,4), of 0 row_buf p] Suc.prems(6) unfolding read_backing_range_def by force
    let ?r = "r\<lparr>res_data := copy_at (res_data r) (row_start r rc row) buf\<rparr>"
    have len: "length (copy_at (res_data r) (row_start r rc row) buf) = length (res_data r)"
      using f(1) lb by simp
    then have ok: "res_ok ?r" using res_ok_data Suc.prems(1) by blast
    obtain data where "transfer_rows p m rc base n (Suc row) buf ?r = Some (?r\<lparr>res_data := data\<rparr>)" "length data = length (res_data r)"
      using Suc.IH [OF ok, of "Suc row" buf] Suc.prems lb len by auto
    then show ?thesis using transfer_step [OF Suc.prems(1,2) row True rd lb] by auto
  next
    case False
    then show ?thesis by (intro exI [of _ "res_data r"]) (simp add: sat checked_add_usize_def)
  qed
qed

lemma row_len_ok:
  assumes "res_ok r" "res_contains r rc"
  shows "mul_usize p (unat (rect_width rc)) BYTES_PER_PIXEL = Some (4 * unat (rect_width rc))"
    "vec_zeros (4 * unat (rect_width rc)) = Some (replicate (4 * unat (rect_width rc)) 0)"
proof -
  have "0 < unat (rect_height rc)" using contains_inside(2) [OF assms] by (simp add: unat_gt_0)
  from row_start_fits(6) [OF assms this]
  show "mul_usize p (unat (rect_width rc)) BYTES_PER_PIXEL = Some (4 * unat (rect_width rc))"
    "vec_zeros (4 * unat (rect_width rc)) = Some (replicate (4 * unat (rect_width rc)) 0)"
    by (simp_all add: usize_fits BYTES_PER_PIXEL_def)
qed

lemma transfer_to_host_total:
  assumes "res_ok r" "wf_mem m" "entries_ok m (res_backing r)"
  obtains "transfer_to_host p m r rc off = Some None"
  | data where "transfer_to_host p m r rc off = Some (Some (r\<lparr>res_data := data\<rparr>))" "length data = length (res_data r)"
proof (cases "\<exists>base. res_contains r rc \<and> transfer_base r rc off = Some base \<and> base \<le> backing_len r")
  case True
  then obtain base where b: "res_contains r rc" "transfer_base r rc off = Some base" "base \<le> backing_len r" by blast
  obtain data where "transfer_rows p m rc base (unat (rect_height rc)) 0 (replicate (4 * unat (rect_width rc)) 0) r =
      Some (r\<lparr>res_data := data\<rparr>)" "length data = length (res_data r)"
    using transfer_rows_total [OF assms(1) b(1) assms(2,3), of 0 "unat (rect_height rc)"
        "replicate (4 * unat (rect_width rc)) 0" p base] by auto
  then show thesis
    using b row_len_ok [OF assms(1) b(1)] that(2) by (auto simp: transfer_to_host_def)
next
  case False
  then have "transfer_to_host p m r rc off = Some None"
    by (auto simp: transfer_to_host_def not_le split: option.splits)
  then show thesis by (rule that(1))
qed

text \<open>With enough backing the transfer succeeds and has copied the rectangle.\<close>

lemma transfer_to_host_copies:
  assumes "res_ok r" "res_contains r rc" "backing_ok m r"
    and "base = unat off + unat (rect_y rc) * res_stride r + 4 * unat (rect_x rc)"
    and "base + (unat (rect_height rc) - 1) * res_stride r + 4 * unat (rect_width rc) \<le> length (backing_bytes m r)"
  obtains data where "transfer_to_host p m r rc off = Some (Some (r\<lparr>res_data := data\<rparr>))"
    "rows_copied (backing_bytes m r) r rc base 0 data"
proof -
  have len: "length (backing_bytes m r) \<le> usize_max" "backing_len r = length (backing_bytes m r)"
    using assms(3) by (simp_all add: backing_ok_def length_backing backing_len_sum)
  have "base \<le> length (backing_bytes m r)" using assms(5) by simp
  with len have le: "base \<le> usize_max" "base \<le> backing_len r" by linarith+
  moreover have "saturating_mul_usize (unat (rect_y rc)) (res_stride r) = unat (rect_y rc) * res_stride r"
    using le assms(4) by (simp add: saturating_mul_usize_def)
  ultimately have b: "transfer_base r rc off = Some base" "base \<le> backing_len r"
    using assms(4) by (simp_all add: transfer_base_def checked_add_usize_def BYTES_PER_PIXEL_def mult.commute)
  have rows: "\<forall>i < unat (rect_height rc). base + i * res_stride r + 4 * unat (rect_width rc) \<le> length (backing_bytes m r)"
  proof (intro allI impI)
    fix i assume "i < unat (rect_height rc)"
    then have "i * res_stride r \<le> (unat (rect_height rc) - 1) * res_stride r" by (intro mult_le_mono1) simp
    with assms(5) show "base + i * res_stride r + 4 * unat (rect_width rc) \<le> length (backing_bytes m r)" by linarith
  qed
  obtain data where "transfer_rows p m rc base (unat (rect_height rc)) 0 (replicate (4 * unat (rect_width rc)) 0) r =
      Some (r\<lparr>res_data := data\<rparr>)" "rows_copied (backing_bytes m r) r rc base 0 data"
    using transfer_rows_copies [OF assms(1-3) _ rows, of 0 "unat (rect_height rc)"
        "replicate (4 * unat (rect_width rc)) 0" p] by auto
  then show thesis
    using b assms(2) row_len_ok [OF assms(1,2)] that by (simp add: transfer_to_host_def)
qed

text \<open>The pixels of the rectangle after a transfer are the bytes at \<open>base\<close> in the backing, row by row.\<close>

definition backing_pixels :: "guest_memory \<Rightarrow> gpu_resource \<Rightarrow> display_rect \<Rightarrow> nat \<Rightarrow> u8 list" where
  "backing_pixels m r rc base =
     concat (map (\<lambda>i. take (4 * unat (rect_width rc)) (drop (base + i * res_stride r) (backing_bytes m r)))
       [0..<unat (rect_height rc)])"

lemma rows_copied_pixels:
  assumes "res_ok r" "res_contains r rc" "rows_copied (backing_bytes m r) r rc base 0 data"
    and "base + (unat (rect_height rc) - 1) * res_stride r + 4 * unat (rect_width rc) \<le> length (backing_bytes m r)"
  shows "rect_pixels data (res_stride r) rc = backing_pixels m r rc base"
proof -
  let ?w = "4 * unat (rect_width rc)"
  have "row_at data (res_stride r) (unat (rect_x rc)) (unat (rect_y rc)) (unat (rect_width rc)) i =
      take ?w (drop (base + i * res_stride r) (backing_bytes m r))" if i: "i < unat (rect_height rc)" for i
  proof (rule nth_equalityI)
    have len: "row_start r rc i + ?w \<le> length data"
      using row_start_fits(1) [OF assms(1,2) i] assms(3) by (simp add: rows_copied_def)
    have "i * res_stride r \<le> (unat (rect_height rc) - 1) * res_stride r" using i by (intro mult_le_mono1) simp
    then have lb: "base + i * res_stride r + ?w \<le> length (backing_bytes m r)" using assms(4) by linarith
    show "length (row_at data (res_stride r) (unat (rect_x rc)) (unat (rect_y rc)) (unat (rect_width rc)) i) =
        length (take ?w (drop (base + i * res_stride r) (backing_bytes m r)))"
      using len lb by (simp add: row_at_def row_start_def)
    fix j assume "j < length (row_at data (res_stride r) (unat (rect_x rc)) (unat (rect_y rc)) (unat (rect_width rc)) i)"
    then have j: "j < ?w" by (simp add: row_at_def)
    have "data ! (row_start r rc i + j) = backing_bytes m r ! (base + i * res_stride r + j)"
      using assms(3) i j by (simp add: rows_copied_def)
    then show "row_at data (res_stride r) (unat (rect_x rc)) (unat (rect_y rc)) (unat (rect_width rc)) i ! j =
        take ?w (drop (base + i * res_stride r) (backing_bytes m r)) ! j"
      using j len lb by (simp add: row_at_def row_start_def)
  qed
  then show ?thesis unfolding rect_pixels_def backing_pixels_def by (intro arg_cong [where f = concat] map_cong) auto
qed

end
