(* ===== verification/Virtio_Gpu.thy ===== *)
theory Virtio_Gpu
  imports Gpu_Resource "HOL-Library.AList"
begin

text \<open>
  The GPU device of \<^verbatim>\<open>devices/virtio/devices/gpu.rs\<close>: its state, one operation per command, the control and
  the cursor queue. The resource table, a \<^verbatim>\<open>HashMap\<close> in the source, is an association list without
  duplicate keys; the window behind the mutex is part of the state.
\<close>

section \<open>State\<close>

datatype gpu_response = Header u32 | Raw "u8 list"

record gpu_scanout =
  scan_resource :: "u32 option"
  scan_rect :: display_rect

definition empty_scanout :: gpu_scanout where
  "empty_scanout = \<lparr>scan_resource = None, scan_rect = empty_rect\<rparr>"

record virtio_gpu =
  gpu_guest_memory :: bool
  gpu_cfg :: gpu_config
  gpu_window :: sdl_context
  gpu_resources :: "(u32 \<times> gpu_resource) list"
  gpu_scanouts :: "gpu_scanout list"

text \<open>The \<^verbatim>\<open>unwrap\<close> of the configuration is the outer option.\<close>

definition new_gpu :: "sdl_context \<Rightarrow> virtio_gpu option" where
  "new_gpu window =
     do {
       config \<leftarrow> new_gpu_config 0 1 0;
       Some \<lparr>gpu_guest_memory = False, gpu_cfg = config, gpu_window = window, gpu_resources = [],
         gpu_scanouts = replicate MAX_SCANOUTS empty_scanout\<rparr>
     }"

section \<open>Commands\<close>

definition cmd_display_info :: "virtio_gpu \<Rightarrow> gpu_response" where
  "cmd_display_info d =
     Raw (display_response_to_bytes (new_display_response [new_display_info (gpu_window d)]))"

definition cmd_create_2d :: "virtio_gpu \<Rightarrow> u8 list \<Rightarrow> virtio_gpu \<times> gpu_response" where
  "cmd_create_2d d bytes =
     (case create_2d_from_bytes bytes of
        None \<Rightarrow> (d, Header RESP_ERR_INVALID_ARGUMENT)
      | Some req \<Rightarrow>
          if map_of (gpu_resources d) (create_id req) \<noteq> None then (d, Header RESP_ERR_INVALID_RESOURCE_ID)
          else if MAX_RESOURCES \<le> length (gpu_resources d) then (d, Header RESP_ERR_INVALID_ARGUMENT)
          else case new_resource (create_format req) (create_width req) (create_height req) of
              None \<Rightarrow> (d, Header RESP_ERR_INVALID_ARGUMENT)
            | Some r \<Rightarrow> (d\<lparr>gpu_resources := AList.update (create_id req) r (gpu_resources d)\<rparr>, Header RESP_OK_NODATA))"

definition cmd_unref :: "virtio_gpu \<Rightarrow> u8 list \<Rightarrow> virtio_gpu \<times> gpu_response" where
  "cmd_unref d bytes =
     (case resource_drop_from_bytes bytes of
        None \<Rightarrow> (d, Header RESP_ERR_INVALID_ARGUMENT)
      | Some req \<Rightarrow>
          (d\<lparr>gpu_resources := AList.delete (drop_id req) (gpu_resources d),
             gpu_scanouts := map (\<lambda>s. if scan_resource s = Some (drop_id req) then empty_scanout else s) (gpu_scanouts d)\<rparr>,
           Header RESP_OK_NODATA))"

definition cmd_set_scanout :: "virtio_gpu \<Rightarrow> u8 list \<Rightarrow> (virtio_gpu \<times> gpu_response) option" where
  "cmd_set_scanout d bytes =
     (case set_scanout_from_bytes bytes of
        None \<Rightarrow> Some (d, Header RESP_ERR_INVALID_ARGUMENT)
      | Some req \<Rightarrow>
          if MAX_SCANOUTS \<le> unat (set_scanout_id req) then Some (d, Header RESP_ERR_INVALID_ARGUMENT)
          else if set_resource_id req \<noteq> 0 \<and> map_of (gpu_resources d) (set_resource_id req) = None then
            Some (d, Header RESP_ERR_INVALID_RESOURCE_ID)
          else do {
            scanouts \<leftarrow> set_at (gpu_scanouts d) (unat (set_scanout_id req))
              (if set_resource_id req = 0 then empty_scanout
               else \<lparr>scan_resource = Some (set_resource_id req), scan_rect = set_rect req\<rparr>);
            Some (d\<lparr>gpu_scanouts := scanouts\<rparr>, Header RESP_OK_NODATA)
          })"

text \<open>Every scanout that shows the resource is drawn.\<close>

fun flush_scanouts ::
    "sdl_host \<Rightarrow> profile \<Rightarrow> u32 \<Rightarrow> gpu_resource \<Rightarrow> gpu_scanout list \<Rightarrow> sdl_context \<Rightarrow> sdl_context option" where
  "flush_scanouts host p rid r [] win = Some win"
| "flush_scanouts host p rid r (s # ss) win =
     do {
       win \<leftarrow> (if scan_resource s = Some rid then blit host p win (res_data r) (res_stride r) (scan_rect s) else Some win);
       flush_scanouts host p rid r ss win
     }"

definition cmd_flush :: "sdl_host \<Rightarrow> profile \<Rightarrow> virtio_gpu \<Rightarrow> u8 list \<Rightarrow> (virtio_gpu \<times> gpu_response) option" where
  "cmd_flush host p d bytes =
     (case flush_from_bytes bytes of
        None \<Rightarrow> Some (d, Header RESP_ERR_INVALID_ARGUMENT)
      | Some req \<Rightarrow>
          case map_of (gpu_resources d) (flush_resource_id req) of
            None \<Rightarrow> Some (d, Header RESP_ERR_INVALID_RESOURCE_ID)
          | Some r \<Rightarrow>
              do {
                win \<leftarrow> flush_scanouts host p (flush_resource_id req) r (gpu_scanouts d) (gpu_window d);
                Some (d\<lparr>gpu_window := win\<rparr>, Header RESP_OK_NODATA)
              })"

definition cmd_transfer :: "profile \<Rightarrow> guest_memory \<Rightarrow> virtio_gpu \<Rightarrow> u8 list \<Rightarrow> (virtio_gpu \<times> gpu_response) option" where
  "cmd_transfer p m d bytes =
     (case transfer_from_bytes bytes of
        None \<Rightarrow> Some (d, Header RESP_ERR_INVALID_ARGUMENT)
      | Some req \<Rightarrow>
          case map_of (gpu_resources d) (tr_resource_id req) of
            None \<Rightarrow> Some (d, Header RESP_ERR_INVALID_RESOURCE_ID)
          | Some r \<Rightarrow>
              do {
                moved \<leftarrow> transfer_to_host p m r (tr_rect req) (tr_offset req);
                case moved of
                  None \<Rightarrow> Some (d, Header RESP_ERR_INVALID_ARGUMENT)
                | Some r \<Rightarrow>
                    Some (d\<lparr>gpu_resources := AList.update (tr_resource_id req) r (gpu_resources d)\<rparr>, Header RESP_OK_NODATA)
              })"

definition cmd_attach :: "virtio_gpu \<Rightarrow> u8 list \<Rightarrow> (virtio_gpu \<times> gpu_response) option" where
  "cmd_attach d bytes =
     do {
       parsed \<leftarrow> attach_from_bytes bytes;
       case parsed of
         None \<Rightarrow> Some (d, Header RESP_ERR_INVALID_ARGUMENT)
       | Some (hdr, entries) \<Rightarrow>
           case map_of (gpu_resources d) (attach_id hdr) of
             None \<Rightarrow> Some (d, Header RESP_ERR_INVALID_RESOURCE_ID)
           | Some r \<Rightarrow>
               Some (d\<lparr>gpu_resources := AList.update (attach_id hdr) (r\<lparr>res_backing := entries\<rparr>) (gpu_resources d)\<rparr>,
                     Header RESP_OK_NODATA)
     }"

definition cmd_detach :: "virtio_gpu \<Rightarrow> u8 list \<Rightarrow> virtio_gpu \<times> gpu_response" where
  "cmd_detach d bytes =
     (case detach_backing_from_bytes bytes of
        None \<Rightarrow> (d, Header RESP_ERR_INVALID_ARGUMENT)
      | Some req \<Rightarrow>
          case map_of (gpu_resources d) (detach_id req) of
            None \<Rightarrow> (d, Header RESP_ERR_INVALID_RESOURCE_ID)
          | Some r \<Rightarrow>
              (d\<lparr>gpu_resources := AList.update (detach_id req) (r\<lparr>res_backing := []\<rparr>) (gpu_resources d)\<rparr>,
               Header RESP_OK_NODATA))"

definition gpu_command ::
    "sdl_host \<Rightarrow> profile \<Rightarrow> guest_memory \<Rightarrow> virtio_gpu \<Rightarrow> u32 \<Rightarrow> u8 list \<Rightarrow> (virtio_gpu \<times> gpu_response) option" where
  "gpu_command host p m d typ bytes =
     (if typ = CMD_GET_DISPLAY_INFO then Some (d, cmd_display_info d)
      else if typ = CMD_RESOURCE_CREATE_2D then Some (cmd_create_2d d bytes)
      else if typ = CMD_RESOURCE_UNREF then Some (cmd_unref d bytes)
      else if typ = CMD_SET_SCANOUT then cmd_set_scanout d bytes
      else if typ = CMD_RESOURCE_FLUSH then cmd_flush host p d bytes
      else if typ = CMD_TRANSFER_TO_HOST_2D then cmd_transfer p m d bytes
      else if typ = CMD_RESOURCE_ATTACH_BACKING then cmd_attach d bytes
      else if typ = CMD_RESOURCE_DETACH_BACKING then Some (cmd_detach d bytes)
      else if typ = CMD_GET_EDID then Some (d, Header RESP_OK_NODATA)
      else if typ = CMD_CURSOR_GET then Some (d, Header RESP_OK_NODATA)
      else Some (d, Header RESP_ERR_UNSUPPORTED))"

section \<open>Queues\<close>

definition gpu_respond ::
    "profile \<Rightarrow> guest_memory \<Rightarrow> virtq_desc \<Rightarrow> gpu_response \<Rightarrow> (usize \<times> guest_memory) option" where
  "gpu_respond p m desc response =
     (case response of
        Raw buf \<Rightarrow>
          if desc_flags desc AND VIRTQ_DESC_F_WRITE = 0 \<or> unat (desc_len desc) < length buf then Some (0, m)
          else do { m \<leftarrow> write_guest_memory p m (desc_buf desc) buf; Some (length buf, m) }
      | Header typ \<Rightarrow> write_response p m desc typ)"

definition gpu_control_body ::
    "sdl_host \<Rightarrow> profile \<Rightarrow> u16 \<Rightarrow> virtio_gpu loop_state \<Rightarrow> virtio_gpu loop_state option" where
  "gpu_control_body host p head = (\<lambda>(d, q, m, did_work).
     do {
       gathered \<leftarrow> gather_control_request p q m head;
       case gathered of
         None \<Rightarrow> do { (q, m) \<leftarrow> push_used p q m head 0; Some (d, q, m, True) }
       | Some (bytes, desc) \<Rightarrow>
           case ctrl_hdr_from_bytes bytes of
             None \<Rightarrow> do { (q, m) \<leftarrow> push_used p q m head 0; Some (d, q, m, True) }
           | Some header \<Rightarrow>
               do {
                 (d, response) \<leftarrow> gpu_command host p m d (hdr_typ header) bytes;
                 (written, m) \<leftarrow> gpu_respond p m desc response;
                 (q, m) \<leftarrow> push_used p q m head (of_nat written);
                 Some (d, q, m, True)
               }
     })"

definition gpu_cursor_body :: "profile \<Rightarrow> u16 \<Rightarrow> virtio_gpu loop_state \<Rightarrow> virtio_gpu loop_state option" where
  "gpu_cursor_body p head = (\<lambda>(d, q, m, did_work).
     do {
       header_desc \<leftarrow> get_descriptor p q m head;
       if desc_flags header_desc AND VIRTQ_DESC_F_NEXT = 0 \<or> desc_flags header_desc AND VIRTQ_DESC_F_WRITE \<noteq> 0 \<or>
          q_size q \<le> desc_next header_desc then
         do { (q, m) \<leftarrow> push_used p q m head 0; Some (d, q, m, True) }
       else do {
         resp_desc \<leftarrow> get_descriptor p q m (desc_next header_desc);
         bytes \<leftarrow> read_guest_memory_alloc p m (desc_buf header_desc) (min (unat (desc_len header_desc)) MAX_REQUEST_BYTES);
         let typ = (case ctrl_hdr_from_bytes bytes of None \<Rightarrow> 0 | Some header \<Rightarrow> hdr_typ header);
         (written, m) \<leftarrow> write_response p m resp_desc
           (if typ = CMD_UPDATE_CURSOR \<or> typ = CMD_CURSOR_GET then RESP_OK_NODATA else RESP_ERR_UNSUPPORTED);
         (q, m) \<leftarrow> push_used p q m head (of_nat written);
         Some (d, q, m, True)
       }
     })"

definition gpu_tick ::
    "sdl_host \<Rightarrow> profile \<Rightarrow> virtio_gpu \<Rightarrow> usize \<Rightarrow> virtio_queue \<Rightarrow> guest_memory \<Rightarrow> virtio_gpu loop_state option" where
  "gpu_tick host p d sel q m =
     (if \<not> gpu_guest_memory d then Some (d, q, m, False)
      else if sel = 0 then while_pop (2 ^ 16) p (gpu_control_body host p) (d, q, m, False)
      else if sel = 1 then while_pop (2 ^ 16) p (gpu_cursor_body p) (d, q, m, False)
      else Some (d, q, m, False))"

definition gpu_reset :: "virtio_gpu \<Rightarrow> virtio_gpu" where
  "gpu_reset d = d\<lparr>gpu_resources := [], gpu_scanouts := replicate MAX_SCANOUTS empty_scanout, gpu_cfg := config_reset (gpu_cfg d)\<rparr>"

definition gpu_ops :: "sdl_host \<Rightarrow> profile \<Rightarrow> virtio_gpu virtio_ops" where
  "gpu_ops host p =
     \<lparr>virtio_type = (\<lambda>d. 0x10), features = (\<lambda>d. 0), negotiate_features = default_negotiate_features,
      pass_memory = (\<lambda>d. d\<lparr>gpu_guest_memory := True\<rparr>), dev_tick = gpu_tick host p,
      read_config = (\<lambda>d n. gpu_config_to_bytes (gpu_cfg d) n),
      write_config = (\<lambda>d off data. d\<lparr>gpu_cfg := config_write_field (gpu_cfg d) off data\<rparr>),
      dev_update = (\<lambda>d qs. (d, qs, False)), dev_reset = gpu_reset\<rparr>"

section \<open>The device interface\<close>

lemma gpu_body_setup:
  "gpu_control_body host p h (d, q, m, w) = Some (d', q', m', w') \<Longrightarrow> same_setup q q'"
  "gpu_cursor_body p h (d, q, m, w) = Some (d', q', m', w') \<Longrightarrow> same_setup q q'"
  by (auto simp: gpu_control_body_def gpu_cursor_body_def Let_def
      split: if_splits prod.splits option.splits elim!: bind_SomeE dest!: push_used_setup)

interpretation gpu: virtio_device_config "gpu_ops host p" for host p
proof (unfold_locales, goal_cases)
  case (1 d i q m d' q' m' w)
  then show ?case
    by (auto simp: gpu_ops_def gpu_tick_def split: if_splits
        intro: while_pop_setup [OF gpu_body_setup(1)] while_pop_setup [OF gpu_body_setup(2)])
next
  case (2 d qs d' qs' w)
  then show ?case by (auto simp: gpu_ops_def list_all2_same)
next
  case (3 d n)
  then show ?case by (simp add: gpu_ops_def gpu_config_to_bytes_def)
qed

section \<open>Invariant of the resource table\<close>

text \<open>The table has at most 64 resources, each well formed, under distinct ids, and every scanout shows
  nothing or a resource that exists.\<close>

definition gpu_inv :: "virtio_gpu \<Rightarrow> bool" where
  "gpu_inv d \<longleftrightarrow> distinct (map fst (gpu_resources d)) \<and> length (gpu_resources d) \<le> MAX_RESOURCES \<and>
     (\<forall>r \<in> snd ` set (gpu_resources d). res_ok r) \<and> length (gpu_scanouts d) = MAX_SCANOUTS \<and>
     (\<forall>s \<in> set (gpu_scanouts d). \<forall>i. scan_resource s = Some i \<longrightarrow> i \<in> fst ` set (gpu_resources d))"

lemma gpu_invD:
  assumes "gpu_inv d"
  shows "map_of (gpu_resources d) i = Some r \<Longrightarrow> res_ok r" "length (gpu_scanouts d) = 16"
  using assms by (auto simp: gpu_inv_def MAX_SCANOUTS_def dest: map_of_SomeD intro: bspec)

lemma set_update_subset: "set (AList.update k v xs) \<subseteq> insert (k, v) (set xs)"
  by (induction xs) auto

lemma gpu_inv_cong:
  "gpu_resources d' = gpu_resources d \<Longrightarrow> gpu_scanouts d' = gpu_scanouts d \<Longrightarrow> gpu_inv d' = gpu_inv d"
  by (simp add: gpu_inv_def)

lemma gpu_inv_update:
  assumes "gpu_inv d" "map_of (gpu_resources d) i = Some r" "res_ok r'"
  shows "gpu_inv (d\<lparr>gpu_resources := AList.update i r' (gpu_resources d)\<rparr>)"
proof -
  have k: "map fst (AList.update i r' (gpu_resources d)) = map fst (gpu_resources d)"
    using map_of_SomeD [OF assms(2)] by (force simp: update_keys)
  then have "length (AList.update i r' (gpu_resources d)) = length (gpu_resources d)"
    "fst ` set (AList.update i r' (gpu_resources d)) = fst ` set (gpu_resources d)"
    using map_eq_imp_length_eq [OF k] by (simp_all flip: set_map)
  with k assms set_update_subset [of i r' "gpu_resources d"] show ?thesis by (auto simp: gpu_inv_def)
qed

lemma update_new: "i \<notin> fst ` set xs \<Longrightarrow> AList.update i v xs = xs @ [(i, v)]"
  by (induction xs) auto

lemma cmd_create_inv: "gpu_inv d \<Longrightarrow> cmd_create_2d d bytes = (d', resp) \<Longrightarrow> gpu_inv d'"
  by (fastforce simp: cmd_create_2d_def not_le map_of_eq_None_iff update_new gpu_inv_def
      split: option.splits if_splits dest: new_resource_ok)

lemma cmd_unref_inv: "gpu_inv d \<Longrightarrow> cmd_unref d bytes = (d', resp) \<Longrightarrow> gpu_inv d'"
proof -
  have "gpu_inv (d\<lparr>gpu_resources := AList.delete i (gpu_resources d),
      gpu_scanouts := map (\<lambda>s. if scan_resource s = Some i then empty_scanout else s) (gpu_scanouts d)\<rparr>)"
    if inv: "gpu_inv d" for i
  proof -
    let ?xs = "gpu_resources d" and ?ys = "AList.delete i (gpu_resources d)"
    have "fst ` set ?ys = set (map fst ?ys)" by simp
    also have "\<dots> = fst ` set ?xs - {i}" unfolding AList.delete_keys by simp
    finally have "fst ` set ?ys = fst ` set ?xs - {i}" .
    moreover have "set ?ys \<subseteq> set ?xs" by (auto simp: AList.delete_eq)
    moreover have "length ?ys \<le> length ?xs" by (rule AList.length_delete_le)
    ultimately show ?thesis
      using inv by (auto simp: gpu_inv_def empty_scanout_def AList.distinct_delete)
  qed
  then show "gpu_inv d \<Longrightarrow> cmd_unref d bytes = (d', resp) \<Longrightarrow> gpu_inv d'"
    by (auto simp: cmd_unref_def split: option.splits)
qed

lemma gpu_inv_scanout:
  assumes "gpu_inv d" "scan_resource s = None \<or> (\<exists>i r. scan_resource s = Some i \<and> map_of (gpu_resources d) i = Some r)"
  shows "gpu_inv (d\<lparr>gpu_scanouts := (gpu_scanouts d)[k := s]\<rparr>)"
proof -
  have s: "\<forall>i. scan_resource s = Some i \<longrightarrow> i \<in> fst ` set (gpu_resources d)"
    using assms(2) by (force dest: map_of_SomeD)
  have "x = s \<or> x \<in> set (gpu_scanouts d)" if "x \<in> set ((gpu_scanouts d)[k := s])" for x
    using that set_update_subset_insert [of "gpu_scanouts d" k s] by blast
  then have "\<forall>x \<in> set ((gpu_scanouts d)[k := s]). \<forall>i. scan_resource x = Some i \<longrightarrow> i \<in> fst ` set (gpu_resources d)"
    using s assms(1) unfolding gpu_inv_def by blast
  then show ?thesis using assms(1) by (simp add: gpu_inv_def)
qed

lemma cmd_set_scanout_inv:
  assumes "gpu_inv d" "cmd_set_scanout d bytes = Some (d', resp)"
  shows "gpu_inv d'"
  using assms gpu_inv_scanout [OF assms(1)]
  by (auto simp: cmd_set_scanout_def set_at_def empty_scanout_def split: option.splits if_splits elim!: bind_SomeE)

lemma res_ok_backing [simp]: "res_ok (r\<lparr>res_backing := b\<rparr>) = res_ok r"
  by (simp add: res_ok_def)

lemma gpu_command_inv:
  assumes "gpu_inv d" "gpu_command host p m d typ bytes = Some (d', resp)"
  shows "gpu_inv d'"
proof -
  note upd = gpu_inv_update [OF assms(1)] and ok = gpu_invD(1) [OF assms(1)]
  have tr: "gpu_inv d'" if "cmd_transfer p m d bytes = Some (d', resp)"
    using that assms(1)
    by (fastforce simp: cmd_transfer_def split: option.splits elim!: bind_SomeE dest!: transfer_to_host_shape
        intro: upd res_ok_data ok)
  have at: "gpu_inv d'" if "cmd_attach d bytes = Some (d', resp)"
    using that assms(1) ok
    by (auto simp: cmd_attach_def split: option.splits elim!: bind_SomeE) (simp add: upd)
  have de: "gpu_inv d'" if "cmd_detach d bytes = (d', resp)"
    using that assms(1) ok by (auto simp: cmd_detach_def split: option.splits) (simp add: upd)
  have fl: "gpu_inv d'" if "cmd_flush host p d bytes = Some (d', resp)"
    using that assms(1) by (auto simp: cmd_flush_def gpu_inv_def split: option.splits elim!: bind_SomeE)
  show ?thesis
    using assms
    by (auto simp: gpu_command_def split: if_splits
        dest: tr at de fl cmd_create_inv [OF assms(1)] cmd_unref_inv [OF assms(1)] cmd_set_scanout_inv [OF assms(1)])
qed

lemma gpu_body_inv:
  "gpu_inv d \<Longrightarrow> gpu_control_body host p h (d, q, m, w) = Some (d', q', m', w') \<Longrightarrow> gpu_inv d'"
  "gpu_inv d \<Longrightarrow> gpu_cursor_body p h (d, q, m, w) = Some (d', q', m', w') \<Longrightarrow> gpu_inv d'"
  by (auto simp: gpu_control_body_def gpu_cursor_body_def Let_def split: if_splits prod.splits option.splits
      elim!: bind_SomeE intro: gpu_command_inv)

lemma gpu_tick_inv:
  assumes "gpu_inv d" "gpu_tick host p d sel q m = Some (d', q', m', w)"
  shows "gpu_inv d'"
proof -
  have k: "gpu_inv d'" if "while_pop n p body (d, q, m, b) = Some (d', q', m', w)"
      "body = gpu_control_body host p \<or> body = gpu_cursor_body p" for n body b
    by (rule while_pop_keeps [where I = gpu_inv, OF _ assms(1) that(1)]) (use that(2) in \<open>auto intro: gpu_body_inv\<close>)
  show ?thesis using assms by (auto simp: gpu_tick_def split: if_splits dest: k)
qed

text \<open>What can happen to a device: ticks on any queue over any guest memory, resets, writes to the
  configuration space, and the window thread.\<close>

inductive gpu_reachable :: "sdl_host \<Rightarrow> profile \<Rightarrow> virtio_gpu \<Rightarrow> bool" for host p where
  gpu_start: "new_gpu win = Some d \<Longrightarrow> gpu_reachable host p d"
| gpu_ticked: "gpu_reachable host p d \<Longrightarrow> gpu_tick host p d sel q m = Some (d', q', m', w) \<Longrightarrow> gpu_reachable host p d'"
| gpu_memory: "gpu_reachable host p d \<Longrightarrow> gpu_reachable host p (pass_memory (gpu_ops host p) d)"
| gpu_was_reset: "gpu_reachable host p d \<Longrightarrow> gpu_reachable host p (gpu_reset d)"
| gpu_configured: "gpu_reachable host p d \<Longrightarrow> gpu_reachable host p (write_config (gpu_ops host p) d off data)"
| gpu_window_used: "gpu_reachable host p d \<Longrightarrow> gpu_reachable host p (d\<lparr>gpu_window := win\<rparr>)"

lemma gpu_reachable_inv: "gpu_reachable host p d \<Longrightarrow> gpu_inv d"
proof (induction rule: gpu_reachable.induct)
  case (gpu_start win d)
  then show ?case
    by (auto simp: new_gpu_def gpu_inv_def empty_scanout_def elim!: bind_SomeE)
next
  case (gpu_ticked d sel q m d' q' m' w)
  then show ?case using gpu_tick_inv by blast
qed (auto simp: gpu_inv_def gpu_ops_def gpu_reset_def empty_scanout_def)

end
