(* ===== verification/Host_Fs.thy ===== *)
theory Host_Fs
  imports Ferrum_Prelude
begin

text \<open>
  What the file server uses of the host: paths and text as \<^verbatim>\<open>std::path\<close> and \<^verbatim>\<open>std::str\<close> handle them on Unix,
  and the calls of \<^verbatim>\<open>std::fs\<close>. Paths and names are byte strings. The calls end in the host's kernel, so the
  record \<open>host_fs\<close> of their outcomes is a parameter of the model, over a state \<open>'h\<close> of the host and
  its open files \<open>'f\<close>.
\<close>

section \<open>UTF-8\<close>

text \<open>One step of \<^verbatim>\<open>core::str::lossy::Utf8Chunks\<close>: whether a character starts here, and the number of bytes of the
  character or of the invalid sequence. A byte past the end reads as 0.\<close>

definition byte_at :: "u8 list \<Rightarrow> nat \<Rightarrow> u8" where
  "byte_at bs i = (if i < length bs then bs ! i else 0)"

definition continuation :: "u8 \<Rightarrow> bool" where
  "continuation b \<longleftrightarrow> b AND 192 = 128"

definition second_of_three :: "u8 \<Rightarrow> u8 \<Rightarrow> bool" where
  "second_of_three b c \<longleftrightarrow> (if b = 0xE0 then 0xA0 \<le> c \<and> c \<le> 0xBF
     else if b = 0xED then 0x80 \<le> c \<and> c \<le> 0x9F else 0x80 \<le> c \<and> c \<le> 0xBF)"

definition second_of_four :: "u8 \<Rightarrow> u8 \<Rightarrow> bool" where
  "second_of_four b c \<longleftrightarrow> (if b = 0xF0 then 0x90 \<le> c \<and> c \<le> 0xBF
     else if b = 0xF4 then 0x80 \<le> c \<and> c \<le> 0x8F else 0x80 \<le> c \<and> c \<le> 0xBF)"

definition utf8_step :: "u8 list \<Rightarrow> bool \<times> nat" where
  "utf8_step bs =
     (let b = byte_at bs 0
      in if b < 128 then (True, 1)
         else if 0xC2 \<le> b \<and> b \<le> 0xDF then
           (if continuation (byte_at bs 1) then (True, 2) else (False, 1))
         else if 0xE0 \<le> b \<and> b \<le> 0xEF then
           (if \<not> second_of_three b (byte_at bs 1) then (False, 1)
            else if \<not> continuation (byte_at bs 2) then (False, 2) else (True, 3))
         else if 0xF0 \<le> b \<and> b \<le> 0xF4 then
           (if \<not> second_of_four b (byte_at bs 1) then (False, 1)
            else if \<not> continuation (byte_at bs 2) then (False, 2)
            else if \<not> continuation (byte_at bs 3) then (False, 3) else (True, 4))
         else (False, 1))"

lemma utf8_step_pos: "0 < snd (utf8_step bs)"
  by (simp add: utf8_step_def Let_def)

function valid_utf8 :: "u8 list \<Rightarrow> bool" where
  "valid_utf8 bs = (if bs = [] then True else fst (utf8_step bs) \<and> valid_utf8 (drop (snd (utf8_step bs)) bs))"
  by pat_completeness auto
termination
  by (relation "measure length") (auto simp: utf8_step_pos)

text \<open>\<^verbatim>\<open>std::str::from_utf8\<close>, and \<^verbatim>\<open>to_string_lossy\<close> with U+FFFD for every invalid sequence.\<close>

definition from_utf8 :: "u8 list \<Rightarrow> u8 list option" where
  "from_utf8 bs = (if valid_utf8 bs then Some bs else None)"

function to_string_lossy :: "u8 list \<Rightarrow> u8 list" where
  "to_string_lossy bs =
     (if bs = [] then []
      else (if fst (utf8_step bs) then take (snd (utf8_step bs)) bs else [0xEF, 0xBF, 0xBD]) @
        to_string_lossy (drop (snd (utf8_step bs)) bs))"
  by pat_completeness auto
termination
  by (relation "measure length") (auto simp: utf8_step_pos)

declare valid_utf8.simps [simp del] to_string_lossy.simps [simp del]

section \<open>Paths\<close>

type_synonym path = "u8 list"

abbreviation slash :: u8 where "slash \<equiv> 0x2F"

text \<open>\<^verbatim>\<open>Path::join\<close>: an absolute name replaces the path, any other name is appended after a separator.\<close>

definition path_join :: "path \<Rightarrow> path \<Rightarrow> path" where
  "path_join dir name =
     (if name \<noteq> [] \<and> hd name = slash then name
      else if dir \<noteq> [] \<and> last dir \<noteq> slash then dir @ slash # name
      else dir @ name)"

section \<open>The host's file system\<close>

datatype io_error = NotFound | PermissionDenied | AlreadyExists | DirectoryNotEmpty | OtherError

record metadata =
  meta_len :: u64
  meta_atime :: u64
  meta_mtime :: u64
  meta_ctime :: u64
  meta_atime_nsec :: u64
  meta_mtime_nsec :: u64
  meta_ctime_nsec :: u64
  meta_mode :: u32
  meta_nlink :: u64
  meta_uid :: u32
  meta_gid :: u32
  meta_rdev :: u64

definition S_IFMT :: u32 where "S_IFMT = 0xF000"
definition S_IFREG :: u32 where "S_IFREG = 0x8000"
definition S_IFDIR :: u32 where "S_IFDIR = 0x4000"
definition S_IFLNK :: u32 where "S_IFLNK = 0xA000"

definition is_dir :: "metadata \<Rightarrow> bool" where "is_dir meta \<longleftrightarrow> meta_mode meta AND S_IFMT = S_IFDIR"
definition is_file :: "metadata \<Rightarrow> bool" where "is_file meta \<longleftrightarrow> meta_mode meta AND S_IFMT = S_IFREG"
definition is_symlink :: "metadata \<Rightarrow> bool" where "is_symlink meta \<longleftrightarrow> meta_mode meta AND S_IFMT = S_IFLNK"

record open_options =
  opt_read :: bool
  opt_write :: bool
  opt_append :: bool
  opt_truncate :: bool
  opt_create :: bool
  opt_create_new :: bool
  opt_mode :: u32

text \<open>\<^verbatim>\<open>OpenOptions::new()\<close>, and the options that \<^verbatim>\<open>File::create\<close> opens with.\<close>

definition no_options :: open_options where
  "no_options = \<lparr>opt_read = False, opt_write = False, opt_append = False, opt_truncate = False, opt_create = False,
     opt_create_new = False, opt_mode = 438\<rparr>"

definition create_options :: open_options where
  "create_options = no_options\<lparr>opt_write := True, opt_create := True, opt_truncate := True\<rparr>"

record dir_entry =
  ent_name :: "u8 list"
  ent_meta :: "io_error + metadata"
  ent_ino :: u64

type_synonym ('h, 'a) host_call = "(io_error + 'a) \<times> 'h"

text \<open>Calls that take a path come first. \<open>fs_close\<close> is what dropping a \<^verbatim>\<open>File\<close> does.\<close>

record ('h, 'f) host_fs =
  fs_metadata :: "path \<Rightarrow> 'h \<Rightarrow> io_error + metadata"
  fs_symlink_metadata :: "path \<Rightarrow> 'h \<Rightarrow> io_error + metadata"
  fs_open :: "open_options \<Rightarrow> path \<Rightarrow> 'h \<Rightarrow> ('h, 'f) host_call"
  fs_create_dir :: "path \<Rightarrow> 'h \<Rightarrow> ('h, unit) host_call"
  fs_set_permissions :: "path \<Rightarrow> u32 \<Rightarrow> 'h \<Rightarrow> ('h, unit) host_call"
  fs_symlink :: "path \<Rightarrow> path \<Rightarrow> 'h \<Rightarrow> ('h, unit) host_call"
  fs_remove_file :: "path \<Rightarrow> 'h \<Rightarrow> ('h, unit) host_call"
  fs_remove_dir :: "path \<Rightarrow> 'h \<Rightarrow> ('h, unit) host_call"
  fs_rename :: "path \<Rightarrow> path \<Rightarrow> 'h \<Rightarrow> ('h, unit) host_call"
  fs_read_link :: "path \<Rightarrow> 'h \<Rightarrow> io_error + path"
  fs_read_dir :: "path \<Rightarrow> 'h \<Rightarrow> io_error + (io_error + dir_entry) list"
  fs_seek :: "'f \<Rightarrow> u64 \<Rightarrow> 'h \<Rightarrow> ('h, unit) host_call"
  fs_read :: "'f \<Rightarrow> nat \<Rightarrow> 'h \<Rightarrow> ('h, u8 list) host_call"
  fs_write_all :: "'f \<Rightarrow> u8 list \<Rightarrow> 'h \<Rightarrow> ('h, unit) host_call"
  fs_set_len :: "'f \<Rightarrow> u64 \<Rightarrow> 'h \<Rightarrow> ('h, unit) host_call"
  fs_fsync :: "'f \<Rightarrow> 'h \<Rightarrow> 'h"
  fs_close :: "'f \<Rightarrow> 'h \<Rightarrow> 'h"

text \<open>\<^verbatim>\<open>OpenOptions::open\<close>: the access and creation modes are checked before the call, and a combination without an
  access mode, one that creates or truncates without write access, and one that appends and truncates are
  refused.\<close>

definition valid_options :: "open_options \<Rightarrow> bool" where
  "valid_options opts \<longleftrightarrow> (opt_read opts \<or> opt_write opts \<or> opt_append opts) \<and>
     (if opt_append opts then opt_truncate opts \<longrightarrow> opt_create_new opts
      else opt_write opts \<or> \<not> (opt_truncate opts \<or> opt_create opts \<or> opt_create_new opts))"

definition open_with :: "('h, 'f) host_fs \<Rightarrow> open_options \<Rightarrow> path \<Rightarrow> 'h \<Rightarrow> ('h, 'f) host_call" where
  "open_with host opts path h = (if valid_options opts then fs_open host opts path h else (Inl OtherError, h))"

section \<open>Lemmas: text\<close>

lemma utf8_step_length: "bs \<noteq> [] \<Longrightarrow> fst (utf8_step bs) \<Longrightarrow> snd (utf8_step bs) \<le> length bs"
  by (auto simp: utf8_step_def byte_at_def continuation_def second_of_three_def second_of_four_def Let_def Suc_le_eq
      split: if_splits)

lemma valid_utf8_Nil [simp]: "valid_utf8 []" "to_string_lossy [] = []"
  by (simp_all add: valid_utf8.simps to_string_lossy.simps)

lemma to_string_lossy_valid: "valid_utf8 bs \<Longrightarrow> to_string_lossy bs = bs"
proof (induction bs rule: valid_utf8.induct)
  case (1 bs)
  show ?case
  proof (cases "bs = []")
    case False
    with 1 have "fst (utf8_step bs)" "to_string_lossy (drop (snd (utf8_step bs)) bs) = drop (snd (utf8_step bs)) bs"
      by (simp_all add: valid_utf8.simps [of bs])
    with False show ?thesis by (simp add: to_string_lossy.simps [of bs])
  qed simp
qed

text \<open>A character is recognised by its own bytes, so text stays text when more text follows.\<close>

lemma utf8_step_cong:
  assumes "utf8_step bs = (True, n)" "\<And>i. i < n \<Longrightarrow> byte_at cs i = byte_at bs i"
  shows "utf8_step cs = (True, n)"
proof -
  have "0 < n" using utf8_step_pos [of bs] assms(1) by simp
  then have b0: "byte_at cs 0 = byte_at bs 0" by (rule assms(2))
  have s: "1 < n \<Longrightarrow> byte_at cs 1 = byte_at bs 1" "2 < n \<Longrightarrow> byte_at cs 2 = byte_at bs 2" "3 < n \<Longrightarrow> byte_at cs 3 = byte_at bs 3"
    by (rule assms(2), assumption)+
  show ?thesis
    using assms(1) s unfolding utf8_step_def Let_def b0 by (auto split: if_split_asm)
qed

lemma utf8_step_take:
  assumes "bs \<noteq> []" "fst (utf8_step bs)"
  shows "utf8_step (take (snd (utf8_step bs)) bs @ rest) = utf8_step bs"
proof -
  have "utf8_step bs = (True, snd (utf8_step bs))" using assms(2) by (simp add: prod_eq_iff)
  from utf8_step_cong [OF this, of "take (snd (utf8_step bs)) bs @ rest"] show ?thesis
    using utf8_step_length [OF assms] assms(2) by (simp add: byte_at_def nth_append prod_eq_iff)
qed

lemma to_string_lossy_utf8: "valid_utf8 (to_string_lossy bs)"
proof (induction bs rule: to_string_lossy.induct)
  case (1 bs)
  let ?n = "snd (utf8_step bs)"
  show ?case
  proof (cases "bs = []")
    case False
    have "valid_utf8 (a @ rest)" if "a \<noteq> []" "utf8_step (a @ rest) = (True, length a)" "valid_utf8 rest" for a rest
      using that by (simp add: valid_utf8.simps [of "a @ rest"])
    note first = this [OF _ _ 1 [OF False]]
    have "utf8_step ([0xEF, 0xBF, 0xBD] @ rest) = (True, 3)" for rest
      by (simp add: utf8_step_def byte_at_def second_of_three_def continuation_def)
    moreover have "utf8_step (take ?n bs @ rest) = (True, length (take ?n bs))" "take ?n bs \<noteq> []" if "fst (utf8_step bs)" for rest
      using utf8_step_take [OF False that] utf8_step_length [OF False that] utf8_step_pos [of bs] False that
      by (simp_all add: prod_eq_iff)
    ultimately show ?thesis
      using first [of "take ?n bs"] first [of "[0xEF, 0xBF, 0xBD]"] False by (simp add: to_string_lossy.simps [of bs])
  qed simp
qed

end
