(* ===== verification/Fuse_Protocol.thy ===== *)
theory Fuse_Protocol
  imports Host_Fs
begin

text \<open>
  The wire format of the file server, \<^verbatim>\<open>platform/shared_folder/fuse/\<close> and \<^verbatim>\<open>platform/shared_folder/util.rs\<close>: request and
  reply headers, the two INIT structures, opcodes and the encodings of file attributes. The error numbers
  and open flags are those of \<^verbatim>\<open>libc\<close> on Linux x86-64.
\<close>

section \<open>Error numbers and flags\<close>

type_synonym errno = "32 word"

definition ENOENT :: errno where "ENOENT = 2"
definition EIO :: errno where "EIO = 5"
definition EBADF :: errno where "EBADF = 9"
definition EACCES :: errno where "EACCES = 13"
definition EEXIST :: errno where "EEXIST = 17"
definition ENOTDIR :: errno where "ENOTDIR = 20"
definition ENOSYS :: errno where "ENOSYS = 38"
definition ENOTEMPTY :: errno where "ENOTEMPTY = 39"
definition EPROTO :: errno where "EPROTO = 71"

lemmas errno_defs = ENOENT_def EIO_def EBADF_def EACCES_def EEXIST_def ENOTDIR_def ENOSYS_def ENOTEMPTY_def EPROTO_def

definition O_RDONLY :: u32 where "O_RDONLY = 0"
definition O_WRONLY :: u32 where "O_WRONLY = 1"
definition O_RDWR :: u32 where "O_RDWR = 2"
definition O_CREAT :: u32 where "O_CREAT = 0x40"
definition O_TRUNC :: u32 where "O_TRUNC = 0x200"
definition O_APPEND :: u32 where "O_APPEND = 0x400"

section \<open>Opcodes\<close>

definition FUSE_LOOKUP :: u32 where "FUSE_LOOKUP = 1"
definition FUSE_FORGET :: u32 where "FUSE_FORGET = 2"
definition FUSE_GETATTR :: u32 where "FUSE_GETATTR = 3"
definition FUSE_SETATTR :: u32 where "FUSE_SETATTR = 4"
definition FUSE_READLINK :: u32 where "FUSE_READLINK = 5"
definition FUSE_SYMLINK :: u32 where "FUSE_SYMLINK = 6"
definition FUSE_MKNOD :: u32 where "FUSE_MKNOD = 8"
definition FUSE_MKDIR :: u32 where "FUSE_MKDIR = 9"
definition FUSE_UNLINK :: u32 where "FUSE_UNLINK = 10"
definition FUSE_RMDIR :: u32 where "FUSE_RMDIR = 11"
definition FUSE_RENAME :: u32 where "FUSE_RENAME = 12"
definition FUSE_OPEN :: u32 where "FUSE_OPEN = 14"
definition FUSE_READ :: u32 where "FUSE_READ = 15"
definition FUSE_WRITE :: u32 where "FUSE_WRITE = 16"
definition FUSE_STATFS :: u32 where "FUSE_STATFS = 17"
definition FUSE_RELEASE :: u32 where "FUSE_RELEASE = 18"
definition FUSE_FSYNC :: u32 where "FUSE_FSYNC = 20"
definition FUSE_FLUSH :: u32 where "FUSE_FLUSH = 25"
definition FUSE_INIT :: u32 where "FUSE_INIT = 26"
definition FUSE_OPENDIR :: u32 where "FUSE_OPENDIR = 27"
definition FUSE_READDIR :: u32 where "FUSE_READDIR = 28"
definition FUSE_RELEASEDIR :: u32 where "FUSE_RELEASEDIR = 29"
definition FUSE_CREATE :: u32 where "FUSE_CREATE = 35"
definition FUSE_INTERRUPT :: u32 where "FUSE_INTERRUPT = 36"
definition FUSE_DESTROY :: u32 where "FUSE_DESTROY = 38"
definition FUSE_BATCH_FORGET :: u32 where "FUSE_BATCH_FORGET = 42"

lemmas fuse_opcodes = FUSE_LOOKUP_def FUSE_FORGET_def FUSE_GETATTR_def FUSE_SETATTR_def FUSE_READLINK_def FUSE_SYMLINK_def
  FUSE_MKNOD_def FUSE_MKDIR_def FUSE_UNLINK_def FUSE_RMDIR_def FUSE_RENAME_def FUSE_OPEN_def FUSE_READ_def FUSE_WRITE_def
  FUSE_STATFS_def FUSE_RELEASE_def FUSE_FSYNC_def FUSE_FLUSH_def FUSE_INIT_def FUSE_OPENDIR_def FUSE_READDIR_def
  FUSE_RELEASEDIR_def FUSE_CREATE_def FUSE_INTERRUPT_def FUSE_DESTROY_def FUSE_BATCH_FORGET_def

definition FUSE_ROOT_ID :: u64 where "FUSE_ROOT_ID = 1"

section \<open>Readers\<close>

text \<open>Too short an input reads as 0 and is used up.\<close>

definition read_le_u32 :: "u8 list \<Rightarrow> u32 \<times> u8 list" where
  "read_le_u32 input = (if length input < 4 then (0, []) else (from_le (take 4 input), drop 4 input))"

definition read_le_u64 :: "u8 list \<Rightarrow> u64 \<times> u8 list" where
  "read_le_u64 input = (if length input < 8 then (0, []) else (from_le (take 8 input), drop 8 input))"

record fuse_in_header =
  in_len :: u32
  in_opcode :: u32
  in_unique :: u64
  in_nodeid :: u64
  in_uid :: u32
  in_gid :: u32
  in_pid :: u32
  in_padding :: u32

definition new_in_header :: "u8 list \<Rightarrow> fuse_in_header \<times> u8 list" where
  "new_in_header bytes =
     (let (len, input) = read_le_u32 bytes;
          (opcode, input) = read_le_u32 input;
          (uniq, input) = read_le_u64 input;
          (nodeid, input) = read_le_u64 input;
          (uid, input) = read_le_u32 input;
          (gid, input) = read_le_u32 input;
          (pid, input) = read_le_u32 input;
          (padding, input) = read_le_u32 input
      in (\<lparr>in_len = len, in_opcode = opcode, in_unique = uniq, in_nodeid = nodeid, in_uid = uid, in_gid = gid,
           in_pid = pid, in_padding = padding\<rparr>, input))"

record fuse_out_header =
  out_len :: u32
  out_error :: u32
  out_unique :: u64

definition new_out_header :: "u32 \<Rightarrow> u32 \<Rightarrow> u64 \<Rightarrow> fuse_out_header" where
  "new_out_header len err uniq = \<lparr>out_len = len, out_error = err, out_unique = uniq\<rparr>"

definition out_header_to_bytes :: "fuse_out_header \<Rightarrow> u8 list" where
  "out_header_to_bytes h = le32 (out_len h) @ le32 (out_error h) @ le64 (out_unique h)"

definition out_header_length :: usize where
  "out_header_length = 4 + 4 + 8"

section \<open>INIT\<close>

record fuse_init_in =
  ini_major :: u32
  ini_minor :: u32
  ini_max_readahead :: u32
  ini_flags :: u32
  ini_flags2 :: u32

definition new_init_in :: "u8 list \<Rightarrow> fuse_init_in \<times> u8 list" where
  "new_init_in bytes =
     (let (major, input) = read_le_u32 bytes;
          (minor, input) = read_le_u32 input;
          (max_readahead, input) = read_le_u32 input;
          (flags, input) = read_le_u32 input;
          (flags2, input) = read_le_u32 input
      in (\<lparr>ini_major = major, ini_minor = minor, ini_max_readahead = max_readahead, ini_flags = flags, ini_flags2 = flags2\<rparr>,
          ((\<lambda>input. snd (read_le_u32 input)) ^^ 11) input))"

record fuse_init_out =
  ino_major :: u32
  ino_minor :: u32
  ino_max_readahead :: u32
  ino_flags :: u32
  ino_flags2 :: u32
  ino_max_background :: u16
  ino_congestion_threshold :: u16
  ino_max_write :: u32
  ino_time_gran :: u32
  ino_max_pages :: u16
  ino_map_alignment :: u16

definition default_init_out :: fuse_init_out where
  "default_init_out = \<lparr>ino_major = 0, ino_minor = 0, ino_max_readahead = 0, ino_flags = 0, ino_flags2 = 0,
     ino_max_background = 0, ino_congestion_threshold = 0, ino_max_write = 0, ino_time_gran = 0, ino_max_pages = 0,
     ino_map_alignment = 0\<rparr>"

definition new_init_out ::
    "u32 \<Rightarrow> u32 \<Rightarrow> u32 \<Rightarrow> u32 \<Rightarrow> u32 \<Rightarrow> u16 \<Rightarrow> u16 \<Rightarrow> u32 \<Rightarrow> u32 \<Rightarrow> u16 \<Rightarrow> u16 \<Rightarrow> fuse_init_out" where
  "new_init_out major minor readahead flags flags2 background congestion write_size gran pages alignment =
     \<lparr>ino_major = major, ino_minor = minor, ino_max_readahead = readahead, ino_flags = flags, ino_flags2 = flags2,
      ino_max_background = background, ino_congestion_threshold = congestion, ino_max_write = write_size,
      ino_time_gran = gran, ino_max_pages = pages, ino_map_alignment = alignment\<rparr>"

definition init_out_to_bytes :: "fuse_init_out \<Rightarrow> u8 list" where
  "init_out_to_bytes r =
     le32 (ino_major r) @ le32 (ino_minor r) @ le32 (ino_max_readahead r) @ le32 (ino_flags r) @ le32 (ino_flags2 r) @
     le16 (ino_max_background r) @ le16 (ino_congestion_threshold r) @ le32 (ino_max_write r) @ le32 (ino_time_gran r) @
     le16 (ino_max_pages r) @ le16 (ino_map_alignment r) @ replicate (4 * 8) 0"

definition init_out_length :: usize where
  "init_out_length = 4 * 5 + 2 * 2 + 4 * 2 + 2 * 2 + 4 * 8"

text \<open>\<^verbatim>\<open>size_of::<FuseInitOut>()\<close>: the fields without gaps, and without the reserved words that \<^verbatim>\<open>to_bytes\<close> appends.\<close>

definition size_of_init_out :: usize where
  "size_of_init_out = 4 * 5 + 2 * 2 + 4 * 2 + 2 * 2"

definition truncate_init_out :: "fuse_init_out \<Rightarrow> usize \<Rightarrow> u8 list" where
  "truncate_init_out out len = take len (init_out_to_bytes out)"

definition FUSE_COMPAT_INIT_OUT_SIZE :: usize where "FUSE_COMPAT_INIT_OUT_SIZE = 4 * 2"
definition FUSE_INIT_OUT_SIZE_V0 :: usize where "FUSE_INIT_OUT_SIZE_V0 = FUSE_COMPAT_INIT_OUT_SIZE"
definition FUSE_INIT_OUT_SIZE_PRE_MAX_PAGES :: usize where
  "FUSE_INIT_OUT_SIZE_PRE_MAX_PAGES = init_out_length - 2 * 2 - 4 * 8"

definition MAX_READAHEAD :: u32 where "MAX_READAHEAD = 128 * 1024"
definition MAX_BACKGROUND :: u16 where "MAX_BACKGROUND = 16"
definition CONGESTION_THRESHOLD :: u16 where "CONGESTION_THRESHOLD = 12"
definition MAX_WRITE :: u32 where "MAX_WRITE = 1024 * 1024"
definition TIME_GRAN_NS :: u32 where "TIME_GRAN_NS = 1"

section \<open>Attributes\<close>

definition fuse_attr_bytes :: "profile \<Rightarrow> u64 \<Rightarrow> metadata \<Rightarrow> u8 list option" where
  "fuse_attr_bytes p ino meta =
     do {
       rounded \<leftarrow> add_chk p (meta_len meta) 511;
       Some (le64 ino @ le64 (meta_len meta) @ le64 (rounded div 512) @
         le64 (meta_atime meta) @ le64 (meta_mtime meta) @ le64 (meta_ctime meta) @
         le32 (ucast (meta_atime_nsec meta)) @ le32 (ucast (meta_mtime_nsec meta)) @ le32 (ucast (meta_ctime_nsec meta)) @
         le32 (meta_mode meta) @ le32 (ucast (meta_nlink meta)) @ le32 (meta_uid meta) @ le32 (meta_gid meta) @
         le32 (ucast (meta_rdev meta)) @ le32 512 @ le32 0)
     }"

definition build_entry_out :: "profile \<Rightarrow> u64 \<Rightarrow> metadata \<Rightarrow> u8 list option" where
  "build_entry_out p nodeid meta =
     do {
       attr \<leftarrow> fuse_attr_bytes p nodeid meta;
       Some (le64 nodeid @ le64 0 @ le64 1 @ le64 1 @ le32 0 @ le32 0 @ attr)
     }"

definition build_attr_out :: "profile \<Rightarrow> metadata \<Rightarrow> u8 list option" where
  "build_attr_out p meta =
     do {
       attr \<leftarrow> fuse_attr_bytes p 0 meta;
       Some (le64 1 @ le32 0 @ le32 0 @ attr)
     }"

section \<open>Lemmas\<close>

lemma attr_Release [simp]:
  "fuse_attr_bytes Release i meta \<noteq> None" "build_entry_out Release i meta \<noteq> None" "build_attr_out Release meta \<noteq> None"
  by (simp_all add: fuse_attr_bytes_def build_entry_out_def build_attr_out_def)

lemma attr_length: "fuse_attr_bytes p i meta = Some bs \<Longrightarrow> length bs = 88"
  by (auto simp: fuse_attr_bytes_def elim!: bind_SomeE)

lemma entry_out_nodeid:
  assumes "build_entry_out p i meta = Some bs"
  shows "length bs = 128" "from_le (take 8 bs) = i"
  using assms attr_length by (fastforce simp: build_entry_out_def elim!: bind_SomeE)+

lemma length_out_header [simp]: "length (out_header_to_bytes h) = out_header_length"
  by (simp add: out_header_to_bytes_def out_header_length_def)

end
