(* ===== verification/Shared_Folder.thy ===== *)
theory Shared_Folder
  imports Fuse_Protocol
begin

text \<open>
  The file server behind the virtio file system, \<^verbatim>\<open>platform/shared_folder/{core,init,node,file,dir}.rs\<close>: a table of
  nodes (host paths under numbers that the guest uses), a table of open files, and one operation per FUSE
  request. An operation gives a payload or an error number, the new tables and the new state of the host;
  \<open>None\<close> is a panic, which a request body that is too short causes.
\<close>

section \<open>State\<close>

record 'f shared_folder =
  sf_inodes :: "u64 \<rightharpoonup> path"
  sf_next_inode :: u64
  sf_open_files :: "u64 \<rightharpoonup> 'f"
  sf_next_fh :: u64
  sf_proto_minor :: "u32 option"

definition new_shared_folder :: "path \<Rightarrow> 'f shared_folder" where
  "new_shared_folder root =
     \<lparr>sf_inodes = [FUSE_ROOT_ID \<mapsto> root], sf_next_inode = FUSE_ROOT_ID + 1, sf_open_files = Map.empty, sf_next_fh = 1,
      sf_proto_minor = None\<rparr>"

type_synonym fuse_result = "errno + u8 list"
type_synonym ('h, 'f) fuse_outcome = "(fuse_result \<times> 'f shared_folder \<times> 'h) option"

section \<open>Parts that operations share\<close>

text \<open>Fields of a request body, \<^verbatim>\<open>body[i..i + 4]\<close> and \<^verbatim>\<open>body[i..i + 8]\<close>, and the text up to the first zero byte
  of \<^verbatim>\<open>body[start..]\<close>.\<close>

definition body_u32 :: "u8 list \<Rightarrow> usize \<Rightarrow> u32 option" where
  "body_u32 body i = map_option from_le (slice_of body i (i + 4))"

definition body_u64 :: "u8 list \<Rightarrow> usize \<Rightarrow> u64 option" where
  "body_u64 body i = map_option from_le (slice_of body i (i + 8))"

definition cstr :: "u8 list \<Rightarrow> u8 list" where
  "cstr bytes = takeWhile (\<lambda>b. b \<noteq> 0) bytes"

definition cstr_from :: "u8 list \<Rightarrow> usize \<Rightarrow> u8 list option" where
  "cstr_from body start = map_option cstr (slice_of body start (length body))"

text \<open>The next node number, given to a path, and the next file handle, given to an open file. A file that the
  insertion displaces is dropped.\<close>

definition insert_inode :: "profile \<Rightarrow> path \<Rightarrow> 'f shared_folder \<Rightarrow> (u64 \<times> 'f shared_folder) option" where
  "insert_inode p path sf =
     do {
       let nodeid = sf_next_inode sf;
       following \<leftarrow> add_chk p (sf_next_inode sf) 1;
       Some (nodeid, sf\<lparr>sf_next_inode := following, sf_inodes := (sf_inodes sf)(nodeid \<mapsto> path)\<rparr>)
     }"

definition insert_file ::
    "('h, 'f) host_fs \<Rightarrow> profile \<Rightarrow> 'f \<Rightarrow> 'f shared_folder \<Rightarrow> 'h \<Rightarrow> (u64 \<times> 'f shared_folder \<times> 'h) option" where
  "insert_file host p file sf h =
     do {
       let fh = sf_next_fh sf;
       following \<leftarrow> add_chk p (sf_next_fh sf) 1;
       Some (fh, sf\<lparr>sf_next_fh := following, sf_open_files := (sf_open_files sf)(fh \<mapsto> file)\<rparr>,
         case sf_open_files sf fh of None \<Rightarrow> h | Some old \<Rightarrow> fs_close host old h)
     }"

definition lookup_errno :: "io_error \<Rightarrow> errno" where
  "lookup_errno e = (case e of NotFound \<Rightarrow> ENOENT | PermissionDenied \<Rightarrow> EACCES | _ \<Rightarrow> EIO)"

definition mkdir_errno :: "io_error \<Rightarrow> errno" where
  "mkdir_errno e = (case e of AlreadyExists \<Rightarrow> EEXIST | _ \<Rightarrow> EIO)"

definition remove_errno :: "io_error \<Rightarrow> errno" where
  "remove_errno e = (case e of NotFound \<Rightarrow> ENOENT | PermissionDenied \<Rightarrow> EACCES | DirectoryNotEmpty \<Rightarrow> ENOTEMPTY | _ \<Rightarrow> EIO)"

definition open_errno :: "io_error \<Rightarrow> errno" where
  "open_errno e = (case e of NotFound \<Rightarrow> ENOENT | PermissionDenied \<Rightarrow> EACCES | AlreadyExists \<Rightarrow> EEXIST | _ \<Rightarrow> EIO)"

text \<open>The end of every operation that makes a node: the entry of a node with the metadata of its path.\<close>

definition entry_reply ::
    "profile \<Rightarrow> u64 \<Rightarrow> io_error + metadata \<Rightarrow> 'f shared_folder \<Rightarrow> 'h \<Rightarrow> ('h, 'f) fuse_outcome" where
  "entry_reply p nodeid found sf h =
     (case found of
        Inl _ \<Rightarrow> Some (Inl EIO, sf, h)
      | Inr meta \<Rightarrow> do { entry \<leftarrow> build_entry_out p nodeid meta; Some (Inr entry, sf, h) })"

section \<open>Nodes\<close>

definition lookup ::
    "('h, 'f) host_fs \<Rightarrow> profile \<Rightarrow> fuse_in_header \<Rightarrow> u8 list \<Rightarrow> 'f shared_folder \<Rightarrow> 'h \<Rightarrow> ('h, 'f) fuse_outcome" where
  "lookup host p header body sf h =
     (case from_utf8 (cstr body) of
        None \<Rightarrow> Some (Inl EIO, sf, h)
      | Some name \<Rightarrow>
          case sf_inodes sf (in_nodeid header) of
            None \<Rightarrow> Some (Inl ENOENT, sf, h)
          | Some parent_path \<Rightarrow>
              let child_path = path_join parent_path name
              in case fs_metadata host child_path h of
                   Inl e \<Rightarrow> Some (Inl (lookup_errno e), sf, h)
                 | Inr meta \<Rightarrow>
                     do {
                       (nodeid, sf) \<leftarrow> insert_inode p child_path sf;
                       entry_reply p nodeid (Inr meta) sf h
                     })"

definition get_attr ::
    "('h, 'f) host_fs \<Rightarrow> profile \<Rightarrow> fuse_in_header \<Rightarrow> 'f shared_folder \<Rightarrow> 'h \<Rightarrow> ('h, 'f) fuse_outcome" where
  "get_attr host p header sf h =
     (case sf_inodes sf (in_nodeid header) of
        None \<Rightarrow> Some (Inl EIO, sf, h)
      | Some path \<Rightarrow>
          case fs_metadata host path h of
            Inl e \<Rightarrow> Some (Inl EIO, sf, h)
          | Inr meta \<Rightarrow> do { attr \<leftarrow> build_attr_out p meta; Some (Inr attr, sf, h) })"

definition make_node ::
    "('h, 'f) host_fs \<Rightarrow> profile \<Rightarrow> fuse_in_header \<Rightarrow> u8 list \<Rightarrow> 'f shared_folder \<Rightarrow> 'h \<Rightarrow> ('h, 'f) fuse_outcome" where
  "make_node host p header body sf h =
     do {
       mode \<leftarrow> body_u32 body 0;
       name_bytes \<leftarrow> cstr_from body 16;
       case from_utf8 name_bytes of
         None \<Rightarrow> Some (Inl EIO, sf, h)
       | Some name \<Rightarrow>
           case sf_inodes sf (in_nodeid header) of
             None \<Rightarrow> Some (Inl ENOENT, sf, h)
           | Some parent_path \<Rightarrow>
               let child_path = path_join parent_path name;
                   options = (if mode AND S_IFMT = S_IFREG then create_options
                              else no_options\<lparr>opt_create_new := True, opt_mode := mode AND 0xFFF\<rparr>)
               in case open_with host options child_path h of
                    (Inl e, h) \<Rightarrow> Some (Inl EIO, sf, h)
                  | (Inr file, h) \<Rightarrow>
                      do {
                        let h = fs_close host file h;
                        (nodeid, sf) \<leftarrow> insert_inode p child_path sf;
                        entry_reply p nodeid (fs_metadata host child_path h) sf h
                      }
     }"

definition make_directory ::
    "('h, 'f) host_fs \<Rightarrow> profile \<Rightarrow> fuse_in_header \<Rightarrow> u8 list \<Rightarrow> 'f shared_folder \<Rightarrow> 'h \<Rightarrow> ('h, 'f) fuse_outcome" where
  "make_directory host p header body sf h =
     do {
       mode \<leftarrow> body_u32 body 0;
       name_bytes \<leftarrow> cstr_from body 8;
       case from_utf8 name_bytes of
         None \<Rightarrow> Some (Inl EIO, sf, h)
       | Some name \<Rightarrow>
           case sf_inodes sf (in_nodeid header) of
             None \<Rightarrow> Some (Inl ENOENT, sf, h)
           | Some parent_path \<Rightarrow>
               let child_path = path_join parent_path name
               in case fs_create_dir host child_path h of
                    (Inl e, h) \<Rightarrow> Some (Inl (mkdir_errno e), sf, h)
                  | (Inr _, h) \<Rightarrow>
                      do {
                        let h = snd (fs_set_permissions host child_path (mode AND 0xFFF) h);
                        (nodeid, sf) \<leftarrow> insert_inode p child_path sf;
                        entry_reply p nodeid (fs_metadata host child_path h) sf h
                      }
     }"

definition make_symlink ::
    "('h, 'f) host_fs \<Rightarrow> profile \<Rightarrow> fuse_in_header \<Rightarrow> u8 list \<Rightarrow> 'f shared_folder \<Rightarrow> 'h \<Rightarrow> ('h, 'f) fuse_outcome" where
  "make_symlink host p header body sf h =
     do {
       let name_bytes = cstr body;
       link_bytes \<leftarrow> cstr_from body (length name_bytes + 1);
       case (from_utf8 name_bytes, from_utf8 link_bytes) of
         (Some name, Some link_target) \<Rightarrow>
           (case sf_inodes sf (in_nodeid header) of
              None \<Rightarrow> Some (Inl ENOENT, sf, h)
            | Some parent_path \<Rightarrow>
                let child_path = path_join parent_path name
                in case fs_symlink host link_target child_path h of
                     (Inl e, h) \<Rightarrow> Some (Inl EIO, sf, h)
                   | (Inr _, h) \<Rightarrow>
                       do {
                         (nodeid, sf) \<leftarrow> insert_inode p child_path sf;
                         entry_reply p nodeid (fs_symlink_metadata host child_path h) sf h
                       })
       | _ \<Rightarrow> Some (Inl EIO, sf, h)
     }"

definition FATTR_MODE :: u32 where "FATTR_MODE = 1"
definition FATTR_SIZE :: u32 where "FATTR_SIZE = 8"

text \<open>The two halves of \<^verbatim>\<open>set_attr\<close>: the first answers whether the size could be set.\<close>

definition set_attr_size ::
    "('h, 'f) host_fs \<Rightarrow> path \<Rightarrow> u64 \<Rightarrow> 'h \<Rightarrow> bool \<times> 'h" where
  "set_attr_size host path new_size h =
     (case open_with host (no_options\<lparr>opt_write := True\<rparr>) path h of
        (Inl e, h) \<Rightarrow> (False, h)
      | (Inr file, h) \<Rightarrow>
          let (r, h) = fs_set_len host file new_size h
          in (\<not> isl r, fs_close host file h))"

definition set_attr ::
    "('h, 'f) host_fs \<Rightarrow> profile \<Rightarrow> fuse_in_header \<Rightarrow> u8 list \<Rightarrow> 'f shared_folder \<Rightarrow> 'h \<Rightarrow> ('h, 'f) fuse_outcome" where
  "set_attr host p header body sf h =
     do {
       valid \<leftarrow> body_u32 body 0;
       case sf_inodes sf (in_nodeid header) of
         None \<Rightarrow> Some (Inl EIO, sf, h)
       | Some path \<Rightarrow>
           do {
             (sized, h) \<leftarrow> (if valid AND FATTR_SIZE \<noteq> 0
                then do { new_size \<leftarrow> body_u64 body 16; Some (set_attr_size host path new_size h) }
                else Some (True, h));
             if \<not> sized then Some (Inl EIO, sf, h)
             else do {
               h \<leftarrow> (if valid AND FATTR_MODE \<noteq> 0
                  then do { mode \<leftarrow> body_u32 body 68; Some (snd (fs_set_permissions host path (mode AND 0xFFF) h)) }
                  else Some h);
               case fs_metadata host path h of
                 Inl e \<Rightarrow> Some (Inl EIO, sf, h)
               | Inr meta \<Rightarrow> do { attr \<leftarrow> build_attr_out p meta; Some (Inr attr, sf, h) }
             }
           }
     }"

definition stat_fs :: "'f shared_folder \<Rightarrow> 'h \<Rightarrow> ('h, 'f) fuse_outcome" where
  "stat_fs sf h =
     Some (Inr (le64 0 @ le64 0 @ le64 0 @ le64 0 @ le64 0 @ le32 0 @ le32 0 @ le32 0 @ le32 0 @
       le32 0 @ le32 0 @ le32 0 @ le32 0 @ le32 0 @ le32 0), sf, h)"

definition unlink ::
    "('h, 'f) host_fs \<Rightarrow> fuse_in_header \<Rightarrow> u8 list \<Rightarrow> 'f shared_folder \<Rightarrow> 'h \<Rightarrow> ('h, 'f) fuse_outcome" where
  "unlink host header body sf h =
     (case from_utf8 (cstr body) of
        None \<Rightarrow> Some (Inl EIO, sf, h)
      | Some name \<Rightarrow>
          case sf_inodes sf (in_nodeid header) of
            None \<Rightarrow> Some (Inl ENOENT, sf, h)
          | Some parent_path \<Rightarrow>
              case fs_remove_file host (path_join parent_path name) h of
                (Inl e, h) \<Rightarrow> Some (Inl (remove_errno e), sf, h)
              | (Inr _, h) \<Rightarrow> Some (Inr [], sf, h))"

definition rmdir ::
    "('h, 'f) host_fs \<Rightarrow> fuse_in_header \<Rightarrow> u8 list \<Rightarrow> 'f shared_folder \<Rightarrow> 'h \<Rightarrow> ('h, 'f) fuse_outcome" where
  "rmdir host header body sf h =
     (case from_utf8 (cstr body) of
        None \<Rightarrow> Some (Inl EIO, sf, h)
      | Some name \<Rightarrow>
          case sf_inodes sf (in_nodeid header) of
            None \<Rightarrow> Some (Inl ENOENT, sf, h)
          | Some parent_path \<Rightarrow>
              case fs_remove_dir host (path_join parent_path name) h of
                (Inl e, h) \<Rightarrow> Some (Inl (remove_errno e), sf, h)
              | (Inr _, h) \<Rightarrow> Some (Inr [], sf, h))"

definition rename ::
    "('h, 'f) host_fs \<Rightarrow> fuse_in_header \<Rightarrow> u8 list \<Rightarrow> 'f shared_folder \<Rightarrow> 'h \<Rightarrow> ('h, 'f) fuse_outcome" where
  "rename host header body sf h =
     do {
       newdir \<leftarrow> body_u64 body 0;
       name_bytes \<leftarrow> slice_of body 8 (length body);
       case from_utf8 (cstr name_bytes) of
         None \<Rightarrow> Some (Inl EIO, sf, h)
       | Some name \<Rightarrow>
           do {
             newname_bytes \<leftarrow> cstr_from name_bytes (length (cstr name_bytes) + 1);
             case from_utf8 newname_bytes of
               None \<Rightarrow> Some (Inl EIO, sf, h)
             | Some newname \<Rightarrow>
                 case (sf_inodes sf (in_nodeid header), sf_inodes sf newdir) of
                   (Some old_parent, Some new_parent) \<Rightarrow>
                     (case fs_rename host (path_join old_parent name) (path_join new_parent newname) h of
                        (Inl e, h) \<Rightarrow> Some (Inl (lookup_errno e), sf, h)
                      | (Inr _, h) \<Rightarrow> Some (Inr [], sf, h))
                 | _ \<Rightarrow> Some (Inl ENOENT, sf, h)
           }
     }"

definition readlink ::
    "('h, 'f) host_fs \<Rightarrow> fuse_in_header \<Rightarrow> 'f shared_folder \<Rightarrow> 'h \<Rightarrow> ('h, 'f) fuse_outcome" where
  "readlink host header sf h =
     (case sf_inodes sf (in_nodeid header) of
        None \<Rightarrow> Some (Inl ENOENT, sf, h)
      | Some path \<Rightarrow>
          case fs_read_link host path h of
            Inl e \<Rightarrow> Some (Inl EIO, sf, h)
          | Inr target \<Rightarrow> Some (Inr (to_string_lossy target @ [0]), sf, h))"

section \<open>Files\<close>

definition open_reply :: "u64 \<Rightarrow> u8 list" where
  "open_reply fh = le64 fh @ le32 0 @ le32 0"

definition create ::
    "('h, 'f) host_fs \<Rightarrow> profile \<Rightarrow> fuse_in_header \<Rightarrow> u8 list \<Rightarrow> 'f shared_folder \<Rightarrow> 'h \<Rightarrow> ('h, 'f) fuse_outcome" where
  "create host p header body sf h =
     do {
       flags \<leftarrow> body_u32 body 0;
       name_bytes \<leftarrow> cstr_from body 16;
       case from_utf8 name_bytes of
         None \<Rightarrow> Some (Inl EIO, sf, h)
       | Some name \<Rightarrow>
           case sf_inodes sf (in_nodeid header) of
             None \<Rightarrow> Some (Inl ENOENT, sf, h)
           | Some parent_path \<Rightarrow>
               let child_path = path_join parent_path name;
                   options = no_options\<lparr>opt_read := True, opt_write := True, opt_create := True,
                     opt_truncate := (flags AND O_TRUNC \<noteq> 0)\<rparr>
               in case open_with host options child_path h of
                    (Inl e, h) \<Rightarrow> Some (Inl EIO, sf, h)
                  | (Inr file, h) \<Rightarrow>
                      do {
                        (nodeid, sf) \<leftarrow> insert_inode p child_path sf;
                        case fs_metadata host child_path h of
                          Inl e \<Rightarrow> Some (Inl EIO, sf, fs_close host file h)
                        | Inr meta \<Rightarrow>
                            do {
                              (fh, sf, h) \<leftarrow> insert_file host p file sf h;
                              entry_out \<leftarrow> build_entry_out p nodeid meta;
                              Some (Inr (entry_out @ open_reply fh), sf, h)
                            }
                      }
     }"

definition open_file ::
    "('h, 'f) host_fs \<Rightarrow> profile \<Rightarrow> fuse_in_header \<Rightarrow> u8 list \<Rightarrow> 'f shared_folder \<Rightarrow> 'h \<Rightarrow> ('h, 'f) fuse_outcome" where
  "open_file host p header body sf h =
     do {
       flags \<leftarrow> body_u32 body 0;
       case sf_inodes sf (in_nodeid header) of
         None \<Rightarrow> Some (Inl EIO, sf, h)
       | Some path \<Rightarrow>
           let access = flags AND 3;
               options = no_options\<lparr>opt_read := (access = O_RDONLY \<or> access = O_RDWR),
                 opt_write := (access = O_WRONLY \<or> access = O_RDWR), opt_append := (flags AND O_APPEND \<noteq> 0),
                 opt_truncate := (flags AND O_TRUNC \<noteq> 0), opt_create := (flags AND O_CREAT \<noteq> 0)\<rparr>
           in case open_with host options path h of
                (Inl e, h) \<Rightarrow> Some (Inl (open_errno e), sf, h)
              | (Inr file, h) \<Rightarrow>
                  do {
                    (fh, sf, h) \<leftarrow> insert_file host p file sf h;
                    Some (Inr (open_reply fh), sf, h)
                  }
     }"

definition release ::
    "('h, 'f) host_fs \<Rightarrow> u8 list \<Rightarrow> 'f shared_folder \<Rightarrow> 'h \<Rightarrow> ('h, 'f) fuse_outcome" where
  "release host body sf h =
     do {
       fh \<leftarrow> body_u64 body 0;
       Some (Inr [], sf\<lparr>sf_open_files := (sf_open_files sf)(fh := None)\<rparr>,
         case sf_open_files sf fh of None \<Rightarrow> h | Some file \<Rightarrow> fs_close host file h)
     }"

definition read_file ::
    "('h, 'f) host_fs \<Rightarrow> u8 list \<Rightarrow> 'f shared_folder \<Rightarrow> 'h \<Rightarrow> ('h, 'f) fuse_outcome" where
  "read_file host body sf h =
     do {
       fh \<leftarrow> body_u64 body 0;
       offset \<leftarrow> body_u64 body 8;
       count \<leftarrow> body_u32 body 16;
       case sf_open_files sf fh of
         None \<Rightarrow> Some (Inl EBADF, sf, h)
       | Some file \<Rightarrow>
           case fs_seek host file offset h of
             (Inl e, h) \<Rightarrow> Some (Inl EIO, sf, h)
           | (Inr _, h) \<Rightarrow>
               case fs_read host file (unat count) h of
                 (Inl e, h) \<Rightarrow> Some (Inl EIO, sf, h)
               | (Inr buf, h) \<Rightarrow> Some (Inr (take (unat count) buf), sf, h)
     }"

definition write_file ::
    "('h, 'f) host_fs \<Rightarrow> u8 list \<Rightarrow> 'f shared_folder \<Rightarrow> 'h \<Rightarrow> ('h, 'f) fuse_outcome" where
  "write_file host body sf h =
     do {
       fh \<leftarrow> body_u64 body 0;
       offset \<leftarrow> body_u64 body 8;
       count \<leftarrow> body_u32 body 16;
       data \<leftarrow> slice_of body 24 (length body);
       case sf_open_files sf fh of
         None \<Rightarrow> Some (Inl EBADF, sf, h)
       | Some file \<Rightarrow>
           case fs_seek host file offset h of
             (Inl e, h) \<Rightarrow> Some (Inl EIO, sf, h)
           | (Inr _, h) \<Rightarrow>
               let write_len = min (unat count) (length data)
               in case fs_write_all host file (take write_len data) h of
                    (Inl e, h) \<Rightarrow> Some (Inl EIO, sf, h)
                  | (Inr _, h) \<Rightarrow> Some (Inr (le32 (of_nat write_len) @ le32 0), sf, h)
     }"

definition flush :: "'f shared_folder \<Rightarrow> 'h \<Rightarrow> ('h, 'f) fuse_outcome" where
  "flush sf h = Some (Inr [], sf, h)"

definition fsync ::
    "('h, 'f) host_fs \<Rightarrow> u8 list \<Rightarrow> 'f shared_folder \<Rightarrow> 'h \<Rightarrow> ('h, 'f) fuse_outcome" where
  "fsync host body sf h =
     do {
       fh \<leftarrow> body_u64 body 0;
       Some (Inr [], sf, case sf_open_files sf fh of None \<Rightarrow> h | Some file \<Rightarrow> fs_fsync host file h)
     }"

section \<open>Directories\<close>

definition open_dir ::
    "('h, 'f) host_fs \<Rightarrow> profile \<Rightarrow> fuse_in_header \<Rightarrow> 'f shared_folder \<Rightarrow> 'h \<Rightarrow> ('h, 'f) fuse_outcome" where
  "open_dir host p header sf h =
     (case sf_inodes sf (in_nodeid header) of
        None \<Rightarrow> Some (Inl EIO, sf, h)
      | Some path \<Rightarrow>
          case fs_metadata host path h of
            Inl e \<Rightarrow> Some (Inl EIO, sf, h)
          | Inr meta \<Rightarrow>
              if \<not> is_dir meta then Some (Inl ENOTDIR, sf, h)
              else do {
                let fh = sf_next_fh sf;
                following \<leftarrow> add_chk p (sf_next_fh sf) 1;
                Some (Inr (open_reply fh), sf\<lparr>sf_next_fh := following\<rparr>, h)
              })"

definition release_dir :: "'f shared_folder \<Rightarrow> 'h \<Rightarrow> ('h, 'f) fuse_outcome" where
  "release_dir sf h = Some (Inr [], sf, h)"

definition dirent_type :: "metadata \<Rightarrow> u32" where
  "dirent_type meta = (if is_dir meta then 4 else if is_file meta then 8 else if is_symlink meta then 10 else 0)"

text \<open>The loop over the directory entries, with the number of the next entry and the reply so far.\<close>

primrec read_dir_loop ::
    "profile \<Rightarrow> u64 \<Rightarrow> u32 \<Rightarrow> dir_entry list \<Rightarrow> u64 \<Rightarrow> u8 list \<Rightarrow> fuse_result option" where
  "read_dir_loop p offset max_size [] pos out = Some (Inr out)"
| "read_dir_loop p offset max_size (entry # entries) pos out =
     (if pos \<le> offset then do { pos \<leftarrow> add_chk p pos 1; read_dir_loop p offset max_size entries pos out }
      else
        let name_bytes = to_string_lossy (ent_name entry);
            name_len = of_nat (length name_bytes) :: u32
        in case ent_meta entry of
             Inl e \<Rightarrow> Some (Inl EIO)
           | Inr meta \<Rightarrow>
               do {
                 reclen \<leftarrow> add_chk p 24 name_len;
                 rounded \<leftarrow> add_chk p reclen 7;
                 let padded_reclen = rounded AND NOT 7;
                 if unat max_size < length out + unat padded_reclen then Some (Inr out)
                 else do {
                   padding \<leftarrow> sub_chk p padded_reclen reclen;
                   let out = out @ le64 (ent_ino entry) @ le64 pos @ le32 name_len @ le32 (dirent_type meta) @ name_bytes @
                     replicate (unat padding) 0;
                   pos \<leftarrow> add_chk p pos 1;
                   read_dir_loop p offset max_size entries pos out
                 }
               })"

definition read_dir ::
    "('h, 'f) host_fs \<Rightarrow> profile \<Rightarrow> fuse_in_header \<Rightarrow> u8 list \<Rightarrow> 'f shared_folder \<Rightarrow> 'h \<Rightarrow> ('h, 'f) fuse_outcome" where
  "read_dir host p header body sf h =
     do {
       offset \<leftarrow> body_u64 body 8;
       max_size \<leftarrow> body_u32 body 16;
       case sf_inodes sf (in_nodeid header) of
         None \<Rightarrow> Some (Inl EIO, sf, h)
       | Some path \<Rightarrow>
           case fs_read_dir host path h of
             Inl e \<Rightarrow> Some (Inl EIO, sf, h)
           | Inr found \<Rightarrow>
               let entries = List.map_filter (\<lambda>e. case e of Inl _ \<Rightarrow> None | Inr entry \<Rightarrow> Some entry) found
               in do {
                 r \<leftarrow> read_dir_loop p offset max_size entries 1 [];
                 Some (r, sf, h)
               }
     }"

section \<open>Session\<close>

definition FUSE_KERNEL_VERSION :: u32 where "FUSE_KERNEL_VERSION = 7"
definition FUSE_KERNEL_MINOR_VERSION :: u32 where "FUSE_KERNEL_MINOR_VERSION = 41"

definition negotiate_flags :: "u32 \<Rightarrow> u32" where
  "negotiate_flags guest_flags = 0 AND guest_flags"

definition init :: "u8 list \<Rightarrow> 'f shared_folder \<Rightarrow> 'h \<Rightarrow> ('h, 'f) fuse_outcome" where
  "init body sf h =
     (let req = fst (new_init_in body)
      in if ini_major req \<noteq> FUSE_KERNEL_VERSION then
           (if FUSE_KERNEL_VERSION < ini_major req
            then let out = default_init_out\<lparr>ino_major := FUSE_KERNEL_VERSION, ino_minor := FUSE_KERNEL_MINOR_VERSION\<rparr>
                 in Some (Inr (truncate_init_out out FUSE_INIT_OUT_SIZE_V0), sf, h)
            else Some (Inl EPROTO, sf, h))
         else
           let minor = min (ini_minor req) FUSE_KERNEL_MINOR_VERSION;
               sf = sf\<lparr>sf_proto_minor := Some minor\<rparr>;
               out_len = (if minor < 5 then FUSE_INIT_OUT_SIZE_V0
                 else if minor < 23 then FUSE_INIT_OUT_SIZE_PRE_MAX_PAGES else size_of_init_out);
               out = default_init_out\<lparr>ino_major := FUSE_KERNEL_VERSION, ino_minor := minor,
                 ino_max_readahead := min (ini_max_readahead req) MAX_READAHEAD, ino_flags := negotiate_flags (ini_flags req),
                 ino_max_background := MAX_BACKGROUND, ino_congestion_threshold := CONGESTION_THRESHOLD,
                 ino_max_write := MAX_WRITE, ino_time_gran := TIME_GRAN_NS\<rparr>
           in Some (Inr (truncate_init_out out out_len), sf, h))"

definition destroy :: "'f shared_folder \<Rightarrow> 'h \<Rightarrow> ('h, 'f) fuse_outcome" where
  "destroy sf h = Some (Inr [], sf, h)"

definition forget :: "fuse_in_header \<Rightarrow> 'f shared_folder \<Rightarrow> 'f shared_folder" where
  "forget header sf = sf\<lparr>sf_inodes := (sf_inodes sf)(in_nodeid header := None)\<rparr>"

definition interrupt :: "'f shared_folder \<Rightarrow> 'h \<Rightarrow> ('h, 'f) fuse_outcome" where
  "interrupt sf h = Some (Inr [], sf, h)"

text \<open>The loop of \<^verbatim>\<open>batch_forget\<close> over the \<open>n\<close> numbers from entry \<open>i\<close> on; it ends early with the body.\<close>

primrec batch_forget_loop :: "nat \<Rightarrow> nat \<Rightarrow> u8 list \<Rightarrow> (u64 \<rightharpoonup> path) \<Rightarrow> (u64 \<rightharpoonup> path) option" where
  "batch_forget_loop 0 i body inodes = Some inodes"
| "batch_forget_loop (Suc n) i body inodes =
     (let offset = 8 + i * 16
      in if length body < offset + 8 then Some inodes
         else do {
           nodeid \<leftarrow> body_u64 body offset;
           batch_forget_loop n (i + 1) body (inodes(nodeid := None))
         })"

definition batch_forget :: "u8 list \<Rightarrow> 'f shared_folder \<Rightarrow> 'h \<Rightarrow> ('h, 'f) fuse_outcome" where
  "batch_forget body sf h =
     do {
       count \<leftarrow> body_u32 body 0;
       inodes \<leftarrow> batch_forget_loop (unat count) 0 body (sf_inodes sf);
       Some (Inr [], sf\<lparr>sf_inodes := inodes\<rparr>, h)
     }"

definition dispatch ::
    "('h, 'f) host_fs \<Rightarrow> profile \<Rightarrow> fuse_in_header \<Rightarrow> u8 list \<Rightarrow> 'f shared_folder \<Rightarrow> 'h \<Rightarrow> ('h, 'f) fuse_outcome" where
  "dispatch host p header body sf h =
     (let opcode = in_opcode header
      in if opcode = FUSE_INIT then init body sf h
         else if opcode = FUSE_DESTROY then destroy sf h
         else if opcode = FUSE_LOOKUP then lookup host p header body sf h
         else if opcode = FUSE_GETATTR then get_attr host p header sf h
         else if opcode = FUSE_READ then read_file host body sf h
         else if opcode = FUSE_MKNOD then make_node host p header body sf h
         else if opcode = FUSE_MKDIR then make_directory host p header body sf h
         else if opcode = FUSE_SYMLINK then make_symlink host p header body sf h
         else if opcode = FUSE_CREATE then create host p header body sf h
         else if opcode = FUSE_WRITE then write_file host body sf h
         else if opcode = FUSE_RELEASE then release host body sf h
         else if opcode = FUSE_OPENDIR then open_dir host p header sf h
         else if opcode = FUSE_RELEASEDIR then release_dir sf h
         else if opcode = FUSE_READDIR then read_dir host p header body sf h
         else if opcode = FUSE_SETATTR then set_attr host p header body sf h
         else if opcode = FUSE_FLUSH then flush sf h
         else if opcode = FUSE_FSYNC then fsync host body sf h
         else if opcode = FUSE_OPEN then open_file host p header body sf h
         else if opcode = FUSE_STATFS then stat_fs sf h
         else if opcode = FUSE_UNLINK then unlink host header body sf h
         else if opcode = FUSE_RMDIR then rmdir host header body sf h
         else if opcode = FUSE_RENAME then rename host header body sf h
         else if opcode = FUSE_READLINK then readlink host header sf h
         else if opcode = FUSE_INTERRUPT then interrupt sf h
         else if opcode = FUSE_BATCH_FORGET then batch_forget body sf h
         else Some (Inl ENOSYS, sf, h))"

end
