(* ===== verification/Fuse_Tables.thy ===== *)
theory Fuse_Tables
  imports Shared_Folder
begin

text \<open>
  The two tables of the file server: in every state that a session can reach the numbers in use lie below
  the counters, so a number that is handed out was not in use.
\<close>

section \<open>What a request does to the tables\<close>

text \<open>A request either drops nodes, or adds one under the next number. The same holds for open files, except
  that opening a directory takes a number and adds nothing.\<close>

definition nodes_step :: "'f shared_folder \<Rightarrow> 'f shared_folder \<Rightarrow> bool" where
  "nodes_step sf sf' \<longleftrightarrow> sf_inodes sf' \<subseteq>\<^sub>m sf_inodes sf \<and> sf_next_inode sf' = sf_next_inode sf \<or>
     (\<exists>path. sf_inodes sf' = (sf_inodes sf)(sf_next_inode sf \<mapsto> path) \<and> sf_next_inode sf' = sf_next_inode sf + 1)"

definition files_step :: "'f shared_folder \<Rightarrow> 'f shared_folder \<Rightarrow> bool" where
  "files_step sf sf' \<longleftrightarrow>
     sf_open_files sf' \<subseteq>\<^sub>m sf_open_files sf \<and> sf_next_fh sf' \<in> {sf_next_fh sf, sf_next_fh sf + 1} \<or>
     (\<exists>file. sf_open_files sf' = (sf_open_files sf)(sf_next_fh sf \<mapsto> file) \<and> sf_next_fh sf' = sf_next_fh sf + 1)"

definition tables_step :: "'f shared_folder \<Rightarrow> 'f shared_folder \<Rightarrow> bool" where
  "tables_step sf sf' \<longleftrightarrow> nodes_step sf sf' \<and> files_step sf sf'"

lemma tables_step_refl [simp]: "tables_step sf sf" "nodes_step sf sf" "files_step sf sf"
  by (simp_all add: tables_step_def nodes_step_def files_step_def)

lemma map_le_remove [simp]: "m(k := None) \<subseteq>\<^sub>m m"
  by (simp add: map_le_def)

lemma insert_inode_eq:
  assumes "insert_inode p path sf = Some (i, sf')"
  shows "i = sf_next_inode sf \<and>
    sf' = sf\<lparr>sf_next_inode := sf_next_inode sf + 1, sf_inodes := (sf_inodes sf)(sf_next_inode sf \<mapsto> path)\<rparr>"
  using assms by (auto simp: insert_inode_def Let_def elim!: bind_SomeE dest!: add_chk_SomeD)

lemma insert_file_eq:
  assumes "insert_file host p file sf h = Some (fh, sf', h')"
  shows "fh = sf_next_fh sf \<and>
    sf' = sf\<lparr>sf_next_fh := sf_next_fh sf + 1, sf_open_files := (sf_open_files sf)(sf_next_fh sf \<mapsto> file)\<rparr>"
  using assms by (auto simp: insert_file_def Let_def elim!: bind_SomeE dest!: add_chk_SomeD)

lemma insert_steps:
  "insert_inode p path sf = Some (i, sf') \<Longrightarrow> tables_step sf sf'"
  "insert_file host p file sf h = Some (fh, sf', h') \<Longrightarrow> tables_step sf sf'"
  by (auto simp: tables_step_def nodes_step_def files_step_def dest!: insert_inode_eq insert_file_eq)

lemma insert_both_step:
  assumes "insert_inode p path sf = Some (i, sf1)" "insert_file host p file sf1 h = Some (fh, sf2, h')"
  shows "tables_step sf sf2"
  using insert_inode_eq [OF assms(1)] insert_file_eq [OF assms(2)]
  by (auto simp: tables_step_def nodes_step_def files_step_def)

lemma entry_reply_tables: "entry_reply p i found sf h = Some (r, sf', h') \<Longrightarrow> sf' = sf"
  by (auto simp: entry_reply_def split: sum.splits elim!: bind_SomeE)

lemma lookup_step: "lookup host p hdr body sf h = Some (r, sf', h') \<Longrightarrow> tables_step sf sf'"
  by (auto simp: lookup_def Let_def insert_steps split: option.splits sum.splits elim!: bind_SomeE dest!: entry_reply_tables)

lemma get_attr_step: "get_attr host p hdr sf h = Some (r, sf', h') \<Longrightarrow> tables_step sf sf'"
  by (auto simp: get_attr_def split: option.splits sum.splits elim!: bind_SomeE)

lemma make_node_step: "make_node host p hdr body sf h = Some (r, sf', h') \<Longrightarrow> tables_step sf sf'"
  by (auto simp: make_node_def Let_def insert_steps split: option.splits sum.splits prod.splits elim!: bind_SomeE
      dest!: entry_reply_tables)

lemma make_directory_step: "make_directory host p hdr body sf h = Some (r, sf', h') \<Longrightarrow> tables_step sf sf'"
  by (auto simp: make_directory_def Let_def insert_steps split: option.splits sum.splits prod.splits elim!: bind_SomeE
      dest!: entry_reply_tables)

lemma make_symlink_step: "make_symlink host p hdr body sf h = Some (r, sf', h') \<Longrightarrow> tables_step sf sf'"
  by (auto simp: make_symlink_def Let_def insert_steps split: option.splits sum.splits prod.splits elim!: bind_SomeE
      dest!: entry_reply_tables)

lemma set_attr_step: "set_attr host p hdr body sf h = Some (r, sf', h') \<Longrightarrow> tables_step sf sf'"
  by (auto simp: set_attr_def Let_def split: option.splits sum.splits prod.splits if_splits elim!: bind_SomeE)

lemma create_step: "create host p hdr body sf h = Some (r, sf', h') \<Longrightarrow> tables_step sf sf'"
  by (auto simp: create_def Let_def split: option.splits sum.splits prod.splits elim!: bind_SomeE)
    (rule insert_steps insert_both_step, assumption+)+

lemma open_file_step: "open_file host p hdr body sf h = Some (r, sf', h') \<Longrightarrow> tables_step sf sf'"
  by (auto simp: open_file_def Let_def split: option.splits sum.splits prod.splits elim!: bind_SomeE dest: insert_steps(2))

lemma open_dir_step: "open_dir host p hdr sf h = Some (r, sf', h') \<Longrightarrow> tables_step sf sf'"
  by (auto simp: open_dir_def Let_def tables_step_def nodes_step_def files_step_def
      split: option.splits sum.splits if_splits elim!: bind_SomeE dest!: add_chk_SomeD)

lemma removal_step:
  "unlink host hdr body sf h = Some (r, sf', h') \<Longrightarrow> tables_step sf sf'"
  "rmdir host hdr body sf h = Some (r, sf', h') \<Longrightarrow> tables_step sf sf'"
  "rename host hdr body sf h = Some (r, sf', h') \<Longrightarrow> tables_step sf sf'"
  "readlink host hdr sf h = Some (r, sf', h') \<Longrightarrow> tables_step sf sf'"
  by (auto simp: unlink_def rmdir_def rename_def readlink_def split: option.splits sum.splits prod.splits elim!: bind_SomeE)

lemma file_step:
  "read_file host body sf h = Some (r, sf', h') \<Longrightarrow> tables_step sf sf'"
  "write_file host body sf h = Some (r, sf', h') \<Longrightarrow> tables_step sf sf'"
  "fsync host body sf h = Some (r, sf', h') \<Longrightarrow> tables_step sf sf'"
  "release host body sf h = Some (r, sf', h') \<Longrightarrow> tables_step sf sf'"
  "read_dir host p hdr body sf h = Some (r, sf', h') \<Longrightarrow> tables_step sf sf'"
  by (auto simp: read_file_def write_file_def fsync_def release_def read_dir_def Let_def tables_step_def nodes_step_def
      files_step_def split: option.splits sum.splits prod.splits elim!: bind_SomeE)

lemma batch_forget_loop_le: "batch_forget_loop n i body m = Some m' \<Longrightarrow> m' \<subseteq>\<^sub>m m"
proof (induction n arbitrary: i m)
  case (Suc n)
  then show ?case
    by (auto simp: Let_def split: if_splits elim!: bind_SomeE) (blast intro: map_le_trans map_le_remove)
qed simp

lemma session_step:
  "init body sf h = Some (r, sf', h') \<Longrightarrow> tables_step sf sf'"
  "destroy sf h = Some (r, sf', h') \<Longrightarrow> tables_step sf sf'"
  "release_dir sf h = Some (r, sf', h') \<Longrightarrow> tables_step sf sf'"
  "flush sf h = Some (r, sf', h') \<Longrightarrow> tables_step sf sf'"
  "stat_fs sf h = Some (r, sf', h') \<Longrightarrow> tables_step sf sf'"
  "interrupt sf h = Some (r, sf', h') \<Longrightarrow> tables_step sf sf'"
  "batch_forget body sf h = Some (r, sf', h') \<Longrightarrow> tables_step sf sf'"
  by (auto simp: init_def destroy_def release_dir_def flush_def stat_fs_def interrupt_def batch_forget_def Let_def
      tables_step_def nodes_step_def files_step_def split: if_splits elim!: bind_SomeE dest!: batch_forget_loop_le)

lemmas operation_steps = lookup_step get_attr_step make_node_step make_directory_step make_symlink_step set_attr_step
  create_step open_file_step open_dir_step removal_step file_step session_step

lemma dispatch_step: "dispatch host p hdr body sf h = Some (r, sf', h') \<Longrightarrow> tables_step sf sf'"
  unfolding dispatch_def Let_def by (auto split: if_splits intro: operation_steps)

lemma forget_step: "tables_step sf (forget hdr sf)"
  by (simp add: forget_def tables_step_def nodes_step_def files_step_def)

section \<open>Sessions\<close>

text \<open>The states after a start on a folder, with the number of requests so far: requests of any kind with any
  body, nodes forgotten on the high priority queue, and changes of the host's file system by others.\<close>

inductive fuse_reachable ::
    "('h, 'f) host_fs \<Rightarrow> profile \<Rightarrow> path \<Rightarrow> nat \<Rightarrow> 'f shared_folder \<Rightarrow> 'h \<Rightarrow> bool"
  for host :: "('h, 'f) host_fs" and p :: profile and root :: path where
  start: "fuse_reachable host p root 0 (new_shared_folder root) h"
| request: "fuse_reachable host p root n sf h \<Longrightarrow> dispatch host p hdr body sf h = Some (r, sf', h') \<Longrightarrow>
    fuse_reachable host p root (Suc n) sf' h'"
| forget: "fuse_reachable host p root n sf h \<Longrightarrow> fuse_reachable host p root n (Shared_Folder.forget hdr sf) h"
| others: "fuse_reachable host p root n sf h \<Longrightarrow> fuse_reachable host p root n sf h'"

text \<open>A table whose numbers lie between 1 and a counter, and the counter below a bound.\<close>

definition ids_below :: "(u64 \<rightharpoonup> 'v) \<Rightarrow> u64 \<Rightarrow> nat \<Rightarrow> bool" where
  "ids_below m k n \<longleftrightarrow> (\<forall>i \<in> dom m. 1 \<le> i \<and> i < k) \<and> 1 \<le> k \<and> unat k \<le> n"

definition tables_ok :: "nat \<Rightarrow> 'f shared_folder \<Rightarrow> bool" where
  "tables_ok n sf \<longleftrightarrow> ids_below (sf_inodes sf) (sf_next_inode sf) (n + 2) \<and> ids_below (sf_open_files sf) (sf_next_fh sf) (n + 1)"

lemma ids_fresh: "ids_below m k n \<Longrightarrow> m k = None"
  by (auto simp: ids_below_def)

lemma ids_below_le:
  assumes "ids_below m k n" "m' \<subseteq>\<^sub>m m" "n \<le> n'"
  shows "ids_below m' k n'"
  using assms(1,3) subsetD [OF map_le_implies_dom_le [OF assms(2)]] by (auto simp: ids_below_def)

lemma counter_up:
  fixes k :: u64
  assumes "unat k < 2 ^ 64 - 1"
  shows "unat (k + 1) = unat k + 1" "1 \<le> k + 1" "k < k + 1"
proof -
  show u: "unat (k + 1) = unat k + 1" using assms by (simp add: unat_word_ariths)
  show "1 \<le> k + 1" "k < k + 1" by (simp_all add: word_le_nat_alt word_less_nat_alt u)
qed

lemma ids_below_up:
  assumes "ids_below m k n" "n + 1 < 2 ^ 64"
  shows "ids_below m (k + 1) (n + 1)" "ids_below (m(k \<mapsto> v)) (k + 1) (n + 1)"
proof -
  have "unat k < 2 ^ 64 - 1" using assms by (simp add: ids_below_def)
  note up = counter_up [OF this]
  show "ids_below m (k + 1) (n + 1)" "ids_below (m(k \<mapsto> v)) (k + 1) (n + 1)"
    using assms(1) up by (auto simp: ids_below_def intro: order_less_trans)
qed

lemma tables_step_ok:
  assumes "tables_ok n sf" "tables_step sf sf'" "n + 3 < 2 ^ 64"
  shows "tables_ok (Suc n) sf'"
proof -
  have i: "ids_below (sf_inodes sf) (sf_next_inode sf) (n + 2)" and f: "ids_below (sf_open_files sf) (sf_next_fh sf) (n + 1)"
    using assms(1) by (simp_all add: tables_ok_def)
  have "ids_below (sf_inodes sf') (sf_next_inode sf') (Suc n + 2)"
    using assms(2,3) ids_below_le [OF i, of _ "Suc n + 2"] ids_below_up(2) [OF i]
    by (auto simp: tables_step_def nodes_step_def)
  moreover have "ids_below (sf_open_files sf') (sf_next_fh sf') (Suc n + 1)"
    using assms(2,3) ids_below_le [OF f, of _ "Suc n + 1"] ids_below_le [OF ids_below_up(1) [OF f], of _ "Suc n + 1"]
      ids_below_up(2) [OF f]
    by (auto simp: tables_step_def files_step_def)
  ultimately show ?thesis by (simp add: tables_ok_def)
qed

lemma tables_ok_forget: "tables_ok n sf \<Longrightarrow> tables_ok n (Shared_Folder.forget hdr sf)"
  by (auto simp: tables_ok_def Shared_Folder.forget_def intro: ids_below_le)

lemma reachable_tables: "fuse_reachable host p root n sf h \<Longrightarrow> n + 2 < 2 ^ 64 \<Longrightarrow> tables_ok n sf"
proof (induction rule: fuse_reachable.induct)
  case (start h)
  show ?case by (simp add: tables_ok_def ids_below_def new_shared_folder_def FUSE_ROOT_ID_def)
next
  case (request n sf h hdr body r sf' h')
  then have "tables_ok n sf" "n + 3 < 2 ^ 64" by simp_all
  then show ?case by (rule tables_step_ok [OF _ dispatch_step [OF request.hyps(2)]])
next
  case (forget n sf h hdr)
  then show ?case by (simp add: tables_ok_forget)
qed

section \<open>Requests that name a node\<close>

text \<open>The name in a request that makes an entry.\<close>

definition entry_name :: "u32 \<Rightarrow> u8 list \<Rightarrow> u8 list option" where
  "entry_name opcode body =
     (if opcode = FUSE_LOOKUP \<or> opcode = FUSE_SYMLINK then Some (cstr body)
      else if opcode = FUSE_MKNOD \<or> opcode = FUSE_CREATE then cstr_from body 16
      else if opcode = FUSE_MKDIR then cstr_from body 8 else None)"

definition entry_made :: "fuse_in_header \<Rightarrow> path \<Rightarrow> u8 list \<Rightarrow> 'f shared_folder \<Rightarrow> 'f shared_folder \<Rightarrow> bool" where
  "entry_made hdr name reply sf sf' \<longleftrightarrow> from_le (take 8 reply) = sf_next_inode sf \<and>
     (\<exists>parent. sf_inodes sf (in_nodeid hdr) = Some parent \<and>
        sf_inodes sf' = (sf_inodes sf)(sf_next_inode sf \<mapsto> path_join parent name))"

lemma entry_reply_made:
  assumes "insert_inode p (path_join parent name) sf = Some (i, sf1)" "sf_inodes sf (in_nodeid hdr) = Some parent"
    and "entry_reply p i found sf1 h = Some (Inr reply, sf', h')"
  shows "entry_made hdr name reply sf sf'"
  using assms entry_reply_tables [OF assms(3)] insert_inode_eq [OF assms(1)] entry_out_nodeid(2)
  by (auto simp: entry_made_def entry_reply_def split: sum.splits elim!: bind_SomeE)

lemma from_utf8_eq: "from_utf8 bs = Some cs \<Longrightarrow> cs = bs"
  by (auto simp: from_utf8_def split: if_splits)

lemma lookup_made: "lookup host p hdr body sf h = Some (Inr reply, sf', h') \<Longrightarrow> entry_made hdr (cstr body) reply sf sf'"
  by (auto simp: lookup_def Let_def split: option.splits sum.splits elim!: bind_SomeE dest!: from_utf8_eq)
    (rule entry_reply_made, assumption+)

lemma make_node_made:
  "cstr_from body 16 = Some name \<Longrightarrow> make_node host p hdr body sf h = Some (Inr reply, sf', h') \<Longrightarrow> entry_made hdr name reply sf sf'"
  by (auto simp: make_node_def Let_def split: option.splits sum.splits prod.splits elim!: bind_SomeE dest!: from_utf8_eq)
    (rule entry_reply_made, assumption+)

lemma make_directory_made:
  "cstr_from body 8 = Some name \<Longrightarrow> make_directory host p hdr body sf h = Some (Inr reply, sf', h') \<Longrightarrow> entry_made hdr name reply sf sf'"
  by (auto simp: make_directory_def Let_def split: option.splits sum.splits prod.splits elim!: bind_SomeE dest!: from_utf8_eq)
    (rule entry_reply_made, assumption+)

lemma make_symlink_made:
  "make_symlink host p hdr body sf h = Some (Inr reply, sf', h') \<Longrightarrow> entry_made hdr (cstr body) reply sf sf'"
  by (auto simp: make_symlink_def Let_def split: option.splits sum.splits prod.splits elim!: bind_SomeE dest!: from_utf8_eq)
    (rule entry_reply_made, assumption+)

lemma create_made:
  "cstr_from body 16 = Some name \<Longrightarrow> create host p hdr body sf h = Some (Inr reply, sf', h') \<Longrightarrow> entry_made hdr name reply sf sf'"
  by (auto simp: create_def Let_def entry_made_def entry_out_nodeid split: option.splits sum.splits prod.splits
      elim!: bind_SomeE dest!: from_utf8_eq insert_inode_eq insert_file_eq)

lemmas entries_made = lookup_made make_node_made make_directory_made make_symlink_made create_made

lemma dispatch_made:
  assumes "entry_name (in_opcode hdr) body = Some name" "dispatch host p hdr body sf h = Some (Inr reply, sf', h')"
  shows "entry_made hdr name reply sf sf'"
  using assms
  by (auto simp: entry_name_def dispatch_def fuse_opcodes split: if_splits intro: entries_made)

section \<open>A small host\<close>

text \<open>A host on which every call succeeds: every path is a regular file of 5 bytes, every directory has two
  entries, and nothing changes.\<close>

definition small_meta :: metadata where
  "small_meta = \<lparr>meta_len = 5, meta_atime = 1, meta_mtime = 2, meta_ctime = 3, meta_atime_nsec = 0, meta_mtime_nsec = 0,
     meta_ctime_nsec = 0, meta_mode = 0x81A4, meta_nlink = 1, meta_uid = 1000, meta_gid = 1000, meta_rdev = 0\<rparr>"

definition small_entry :: "u8 \<Rightarrow> u64 \<Rightarrow> dir_entry" where
  "small_entry b i = \<lparr>ent_name = [b], ent_meta = Inr small_meta, ent_ino = i\<rparr>"

definition small_host :: "(unit, unit) host_fs" where
  "small_host = \<lparr>fs_metadata = (\<lambda>path h. Inr small_meta), fs_symlink_metadata = (\<lambda>path h. Inr small_meta),
     fs_open = (\<lambda>opts path h. (Inr (), h)), fs_create_dir = (\<lambda>path h. (Inr (), h)),
     fs_set_permissions = (\<lambda>path mode h. (Inr (), h)), fs_symlink = (\<lambda>target path h. (Inr (), h)),
     fs_remove_file = (\<lambda>path h. (Inr (), h)), fs_remove_dir = (\<lambda>path h. (Inr (), h)),
     fs_rename = (\<lambda>old new h. (Inr (), h)), fs_read_link = (\<lambda>path h. Inr []),
     fs_read_dir = (\<lambda>path h. Inr [Inr (small_entry 97 11), Inl OtherError, Inr (small_entry 98 12)]),
     fs_seek = (\<lambda>file off h. (Inr (), h)), fs_read = (\<lambda>file n h. (Inr [], h)), fs_write_all = (\<lambda>file data h. (Inr (), h)),
     fs_set_len = (\<lambda>file n h. (Inr (), h)), fs_fsync = (\<lambda>file h. h), fs_close = (\<lambda>file h. h)\<rparr>"

text \<open>A request by its opcode and node.\<close>

definition demo_header :: "u32 \<Rightarrow> u64 \<Rightarrow> fuse_in_header" where
  "demo_header opcode nodeid = \<lparr>in_len = 0, in_opcode = opcode, in_unique = 7, in_nodeid = nodeid, in_uid = 0, in_gid = 0,
     in_pid = 0, in_padding = 0\<rparr>"

section \<open>Properties\<close>

text \<open>C13: In every session of the file server, whatever the guest sends, a request that makes an entry (LOOKUP,
  MKNOD, MKDIR, SYMLINK or CREATE) and succeeds hands out a node number that was not in use, which from
  then on stands for the name of the request under the path of its parent node; no other node changes.\<close>

theorem fuse_entry_is_fresh:
  assumes "fuse_reachable host p root n sf h" "n + 2 < 2 ^ 64"
    and "entry_name (in_opcode hdr) body = Some name"
    and "dispatch host p hdr body sf h = Some (Inr reply, sf', h')"
  shows "sf_inodes sf (from_le (take 8 reply)) = None \<and>
    (\<exists>parent. sf_inodes sf (in_nodeid hdr) = Some parent \<and>
      sf_inodes sf' = (sf_inodes sf)(from_le (take 8 reply) \<mapsto> path_join parent name))"
proof -
  have "sf_inodes sf (sf_next_inode sf) = None"
    using reachable_tables [OF assms(1,2)] by (auto simp: tables_ok_def dest: ids_fresh)
  with dispatch_made [OF assms(3,4)] show ?thesis by (auto simp: entry_made_def)
qed

theorem fuse_entry_is_fresh_witness:
  "\<exists>reply sf'. dispatch small_host Dev (demo_header FUSE_LOOKUP 1) [97, 0] (new_shared_folder [slash]) () = Some (Inr reply, sf', ()) \<and>
     sf_inodes sf' = [1 \<mapsto> [slash], from_le (take 8 reply) \<mapsto> [slash, 97]] \<and> from_le (take 8 reply) \<noteq> (1 :: u64)"
proof -
  let ?hdr = "demo_header FUSE_LOOKUP 1" and ?sf = "new_shared_folder [slash] :: unit shared_folder"
  have "from_utf8 (cstr [97, 0]) = Some [97]"
    by (simp add: cstr_def from_utf8_def valid_utf8.simps utf8_step_def byte_at_def)
  then obtain reply sf' where d: "dispatch small_host Dev ?hdr [97, 0] ?sf () = Some (Inr reply, sf', ())"
    by (simp add: dispatch_def demo_header_def fuse_opcodes lookup_def new_shared_folder_def FUSE_ROOT_ID_def small_host_def
        insert_inode_def entry_reply_def build_entry_out_def fuse_attr_bytes_def add_chk_def small_meta_def)
  have name: "entry_name (in_opcode ?hdr) [97, 0] = Some [97]" by (simp add: entry_name_def demo_header_def cstr_def)
  note fresh = fuse_entry_is_fresh [OF fuse_reachable.start _ name d]
  from fresh have "sf_inodes sf' = [1 \<mapsto> [slash], from_le (take 8 reply) \<mapsto> [slash, 97]]"
    by (auto simp: new_shared_folder_def FUSE_ROOT_ID_def demo_header_def path_join_def split: if_splits)
  moreover from fresh have "from_le (take 8 reply) \<noteq> (1 :: u64)"
    by (auto simp: new_shared_folder_def FUSE_ROOT_ID_def split: if_splits)
  ultimately show ?thesis using d by blast
qed

end
