(* ===== verification/Fuse_Paths.thy ===== *)
theory Fuse_Paths
  imports Fuse_Tables
begin

text \<open>
  Which host paths the file server touches. With names that are single components and not \<^verbatim>\<open>..\<close>, as a well
  behaved client sends them, all of them lie in the shared folder; the server itself does not check names.
\<close>

section \<open>Paths in the folder\<close>

definition simple_name :: "path \<Rightarrow> bool" where
  "simple_name name \<longleftrightarrow> slash \<notin> set name \<and> name \<noteq> [0x2E, 0x2E]"

definition in_folder :: "path \<Rightarrow> path \<Rightarrow> bool" where
  "in_folder root path \<longleftrightarrow> (\<exists>names. list_all simple_name names \<and> path = foldl path_join root names)"

lemma in_folder_root [simp]: "in_folder root root"
  by (auto simp: in_folder_def intro: exI [of _ "[]"])

lemma in_folder_join:
  assumes "in_folder root path" "simple_name name"
  shows "in_folder root (path_join path name)"
proof -
  from assms(1) obtain names where "list_all simple_name names" "path = foldl path_join root names" by (auto simp: in_folder_def)
  with assms(2) show ?thesis by (auto simp: in_folder_def intro!: exI [of _ "names @ [name]"])
qed

text \<open>What the definition means for the bytes of a path: it is the root, followed by components that are single
  names and never \<^verbatim>\<open>..\<close>.\<close>

lemma path_join_simple:
  assumes "simple_name name"
  shows "path_join path name = path @ (if path \<noteq> [] \<and> last path \<noteq> slash then [slash] else []) @ name"
  using assms by (cases name) (auto simp: path_join_def simple_name_def)

lemma in_folder_prefix: "in_folder root path \<Longrightarrow> \<exists>rest. path = root @ rest"
proof -
  have "\<exists>rest. foldl path_join path names = path @ rest" if "list_all simple_name names" for path names
    using that
  proof (induction names arbitrary: path)
    case (Cons name names)
    have "\<exists>rest. path_join path name = path @ rest" using Cons.prems by (simp add: path_join_simple)
    moreover have "\<exists>rest. foldl path_join (path_join path name) names = path_join path name @ rest" using Cons by simp
    ultimately show ?case by fastforce
  qed simp
  then show "in_folder root path \<Longrightarrow> \<exists>rest. path = root @ rest" by (auto simp: in_folder_def)
qed

text \<open>The names of a request, as the server takes them from the body.\<close>

definition request_names :: "u32 \<Rightarrow> u8 list \<Rightarrow> path list" where
  "request_names opcode body =
     (if opcode \<in> {FUSE_LOOKUP, FUSE_SYMLINK, FUSE_UNLINK, FUSE_RMDIR} then [cstr body]
      else if opcode \<in> {FUSE_MKNOD, FUSE_CREATE} then [cstr (drop 16 body)]
      else if opcode = FUSE_MKDIR then [cstr (drop 8 body)]
      else if opcode = FUSE_RENAME then
        [cstr (drop 8 body), cstr (drop (length (cstr (drop 8 body)) + 1) (drop 8 body))]
      else [])"

definition nodes_in_folder :: "path \<Rightarrow> 'f shared_folder \<Rightarrow> bool" where
  "nodes_in_folder root sf \<longleftrightarrow> (\<forall>path \<in> ran (sf_inodes sf). in_folder root path)"

text \<open>Two hosts that answer alike inside the folder, and alike on open files. A symbolic link may have any target.\<close>

definition same_inside :: "path \<Rightarrow> ('h, 'f) host_fs \<Rightarrow> ('h, 'f) host_fs \<Rightarrow> bool" where
  "same_inside root A B \<longleftrightarrow>
     (\<forall>path. in_folder root path \<longrightarrow>
        fs_metadata A path = fs_metadata B path \<and> fs_symlink_metadata A path = fs_symlink_metadata B path \<and>
        (\<forall>opts. fs_open A opts path = fs_open B opts path) \<and> fs_create_dir A path = fs_create_dir B path \<and>
        fs_set_permissions A path = fs_set_permissions B path \<and>
        (\<forall>target. fs_symlink A target path = fs_symlink B target path) \<and>
        fs_remove_file A path = fs_remove_file B path \<and> fs_remove_dir A path = fs_remove_dir B path \<and>
        (\<forall>path2. in_folder root path2 \<longrightarrow> fs_rename A path path2 = fs_rename B path path2) \<and>
        fs_read_link A path = fs_read_link B path \<and> fs_read_dir A path = fs_read_dir B path) \<and>
     fs_seek A = fs_seek B \<and> fs_read A = fs_read B \<and> fs_write_all A = fs_write_all B \<and> fs_set_len A = fs_set_len B \<and>
     fs_fsync A = fs_fsync B \<and> fs_close A = fs_close B"

lemma same_insideD:
  assumes "same_inside root A B"
  shows "in_folder root path \<Longrightarrow> fs_metadata A path = fs_metadata B path"
    "in_folder root path \<Longrightarrow> fs_symlink_metadata A path = fs_symlink_metadata B path"
    "in_folder root path \<Longrightarrow> open_with A opts path = open_with B opts path"
    "in_folder root path \<Longrightarrow> fs_create_dir A path = fs_create_dir B path"
    "in_folder root path \<Longrightarrow> fs_set_permissions A path = fs_set_permissions B path"
    "in_folder root path \<Longrightarrow> fs_symlink A target path = fs_symlink B target path"
    "in_folder root path \<Longrightarrow> fs_remove_file A path = fs_remove_file B path"
    "in_folder root path \<Longrightarrow> fs_remove_dir A path = fs_remove_dir B path"
    "in_folder root path \<Longrightarrow> in_folder root path2 \<Longrightarrow> fs_rename A path path2 = fs_rename B path path2"
    "in_folder root path \<Longrightarrow> fs_read_link A path = fs_read_link B path"
    "in_folder root path \<Longrightarrow> fs_read_dir A path = fs_read_dir B path"
    "fs_seek A = fs_seek B" "fs_read A = fs_read B" "fs_write_all A = fs_write_all B" "fs_set_len A = fs_set_len B"
    "fs_fsync A = fs_fsync B" "fs_close A = fs_close B"
  using assms by (auto simp: same_inside_def open_with_def)

lemma node_in_folder: "nodes_in_folder root sf \<Longrightarrow> sf_inodes sf i = Some path \<Longrightarrow> in_folder root path"
  by (auto simp: nodes_in_folder_def ran_def)

section \<open>Requests stay inside\<close>

lemma slice_tail: "slice_of xs i (length xs) = (if i \<le> length xs then Some (drop i xs) else None)"
  by (simp add: slice_of_def)

lemma cstr_from_eq: "cstr_from body i = (if i \<le> length body then Some (cstr (drop i body)) else None)"
  by (simp add: cstr_from_def slice_tail)

text \<open>The path of a name in the request under a node is inside.\<close>

lemma child_inside:
  assumes "nodes_in_folder root sf" "sf_inodes sf i = Some parent" "simple_name (cstr bytes)" "from_utf8 (cstr bytes) = Some name"
  shows "in_folder root (path_join parent name)"
  using in_folder_join [OF node_in_folder [OF assms(1,2)] assms(3)] from_utf8_eq [OF assms(4)] by simp

lemma lookup_inside:
  assumes "same_inside root A B" "nodes_in_folder root sf" "simple_name (cstr body)"
  shows "lookup A p hdr body sf h = lookup B p hdr body sf h"
  using same_insideD(1) [OF assms(1)] child_inside [OF assms(2) _ assms(3)]
  by (auto simp: lookup_def Let_def split: option.splits)

lemma insert_file_inside: "same_inside root A B \<Longrightarrow> insert_file A p f sf h = insert_file B p f sf h"
  by (simp only: insert_file_def same_insideD(17))

lemma attr_inside:
  assumes "same_inside root A B" "nodes_in_folder root sf"
  shows "get_attr A p hdr sf h = get_attr B p hdr sf h" "set_attr A p hdr body sf h = set_attr B p hdr body sf h"
    "open_dir A p hdr sf h = open_dir B p hdr sf h" "readlink A hdr sf h = readlink B hdr sf h"
    "open_file A p hdr body sf h = open_file B p hdr body sf h" "read_dir A p hdr body sf h = read_dir B p hdr body sf h"
proof -
  note same = same_insideD(1-11) [OF assms(1)] node_in_folder [OF assms(2)] and files = same_insideD(12-17) [OF assms(1)]
  have size: "set_attr_size A path n h = set_attr_size B path n h" if "in_folder root path" for path n h
    unfolding set_attr_size_def files using that by (simp add: same)
  show "get_attr A p hdr sf h = get_attr B p hdr sf h" "open_dir A p hdr sf h = open_dir B p hdr sf h"
    "readlink A hdr sf h = readlink B hdr sf h" "read_dir A p hdr body sf h = read_dir B p hdr body sf h"
    by (auto simp: get_attr_def open_dir_def readlink_def read_dir_def same intro!: Option.bind_cong
        split: option.splits)
  show "set_attr A p hdr body sf h = set_attr B p hdr body sf h"
    by (auto simp: set_attr_def same size intro!: Option.bind_cong split: option.splits prod.splits sum.splits)
  show "open_file A p hdr body sf h = open_file B p hdr body sf h"
    unfolding open_file_def insert_file_inside [OF assms(1)] Let_def
    by (auto simp: same intro!: Option.bind_cong split: option.splits)
qed

lemma make_inside:
  assumes "same_inside root A B" "nodes_in_folder root sf"
  shows "simple_name (cstr (drop 16 body)) \<Longrightarrow> make_node A p hdr body sf h = make_node B p hdr body sf h"
    "simple_name (cstr (drop 8 body)) \<Longrightarrow> make_directory A p hdr body sf h = make_directory B p hdr body sf h"
    "simple_name (cstr body) \<Longrightarrow> make_symlink A p hdr body sf h = make_symlink B p hdr body sf h"
    "simple_name (cstr (drop 16 body)) \<Longrightarrow> create A p hdr body sf h = create B p hdr body sf h"
proof -
  note same = same_insideD(1-11) [OF assms(1)] and child = child_inside [OF assms(2)] and files = same_insideD(12-17) [OF assms(1)]
  show "make_node A p hdr body sf h = make_node B p hdr body sf h" if "simple_name (cstr (drop 16 body))"
    unfolding make_node_def Let_def files cstr_from_eq
    by (auto simp: same child [OF _ that] intro!: Option.bind_cong split: option.splits prod.splits sum.splits if_splits)
  show "make_directory A p hdr body sf h = make_directory B p hdr body sf h" if "simple_name (cstr (drop 8 body))"
    unfolding make_directory_def Let_def cstr_from_eq
    by (auto simp: same child [OF _ that] intro!: Option.bind_cong split: option.splits prod.splits sum.splits if_splits)
  show "make_symlink A p hdr body sf h = make_symlink B p hdr body sf h" if "simple_name (cstr body)"
    unfolding make_symlink_def Let_def
    by (auto simp: same child [OF _ that] intro!: Option.bind_cong split: option.splits prod.splits sum.splits if_splits)
  show "create A p hdr body sf h = create B p hdr body sf h" if "simple_name (cstr (drop 16 body))"
    unfolding create_def Let_def files cstr_from_eq insert_file_inside [OF assms(1)]
    by (auto simp: same child [OF _ that] intro!: Option.bind_cong split: option.splits prod.splits sum.splits if_splits)
qed

lemma remove_inside:
  assumes "same_inside root A B" "nodes_in_folder root sf"
  shows "simple_name (cstr body) \<Longrightarrow> unlink A hdr body sf h = unlink B hdr body sf h"
    "simple_name (cstr body) \<Longrightarrow> rmdir A hdr body sf h = rmdir B hdr body sf h"
    "list_all simple_name (request_names FUSE_RENAME body) \<Longrightarrow> rename A hdr body sf h = rename B hdr body sf h"
proof -
  note same = same_insideD(1-11) [OF assms(1)] and child = child_inside [OF assms(2)]
  show "unlink A hdr body sf h = unlink B hdr body sf h" "rmdir A hdr body sf h = rmdir B hdr body sf h" if "simple_name (cstr body)"
    by (auto simp: unlink_def rmdir_def same child [OF _ that] split: option.splits)
  assume names: "list_all simple_name (request_names FUSE_RENAME body)"
  let ?n = "drop 8 body"
  have "simple_name (cstr ?n)" "simple_name (cstr (drop (length (cstr ?n) + 1) ?n))"
    using names by (simp_all add: request_names_def fuse_opcodes)
  note child [OF _ this(1)] child [OF _ this(2)]
  then show "rename A hdr body sf h = rename B hdr body sf h"
    unfolding rename_def slice_tail cstr_from_eq
    by (auto simp: same intro!: Option.bind_cong split: option.splits)
qed

lemma file_inside:
  assumes "same_inside root A B"
  shows "read_file A body sf h = read_file B body sf h" "write_file A body sf h = write_file B body sf h"
    "release A body sf h = release B body sf h" "fsync A body sf h = fsync B body sf h"
  unfolding read_file_def write_file_def release_def fsync_def same_insideD(12-17) [OF assms] by (rule refl)+

lemma dispatch_inside:
  assumes "same_inside root A B" "nodes_in_folder root sf" "list_all simple_name (request_names (in_opcode hdr) body)"
  shows "dispatch A p hdr body sf h = dispatch B p hdr body sf h"
proof -
  have names: "in_opcode hdr \<in> {FUSE_LOOKUP, FUSE_SYMLINK, FUSE_UNLINK, FUSE_RMDIR} \<Longrightarrow> simple_name (cstr body)"
    "in_opcode hdr \<in> {FUSE_MKNOD, FUSE_CREATE} \<Longrightarrow> simple_name (cstr (drop 16 body))"
    "in_opcode hdr = FUSE_MKDIR \<Longrightarrow> simple_name (cstr (drop 8 body))"
    "in_opcode hdr = FUSE_RENAME \<Longrightarrow> list_all simple_name (request_names FUSE_RENAME body)"
    using assms(3) by (auto simp: request_names_def fuse_opcodes)
  show ?thesis
    unfolding dispatch_def Let_def attr_inside [OF assms(1,2)] file_inside [OF assms(1)]
    by (intro if_cong refl lookup_inside [OF assms(1,2)] make_inside [OF assms(1,2)] remove_inside [OF assms(1,2)] names) simp_all
qed

text \<open>The nodes stay inside.\<close>

lemma nodes_in_folder_le: "nodes_in_folder root sf \<Longrightarrow> sf_inodes sf' \<subseteq>\<^sub>m sf_inodes sf \<Longrightarrow> nodes_in_folder root sf'"
  by (fastforce simp: nodes_in_folder_def ran_def map_le_def dom_def)

lemma insert_inside:
  assumes "nodes_in_folder root sf" "insert_inode p path sf = Some (i, sf')" "in_folder root path"
  shows "nodes_in_folder root sf'"
  using assms insert_inode_eq [OF assms(2)] by (auto simp: nodes_in_folder_def ran_def)

lemma insert_child_inside:
  assumes "nodes_in_folder root sf" "sf_inodes sf j = Some parent" "simple_name (cstr bytes)" "from_utf8 (cstr bytes) = Some name"
    and "insert_inode p (path_join parent name) sf = Some (i, sf')"
  shows "nodes_in_folder root sf'"
  by (rule insert_inside [OF assms(1,5) child_inside [OF assms(1-4)]])

lemma made_inside:
  assumes "nodes_in_folder root sf"
  shows "simple_name (cstr body) \<Longrightarrow> lookup host p hdr body sf h = Some (r, sf', h') \<Longrightarrow> nodes_in_folder root sf'"
    "simple_name (cstr (drop 16 body)) \<Longrightarrow> make_node host p hdr body sf h = Some (r, sf', h') \<Longrightarrow> nodes_in_folder root sf'"
    "simple_name (cstr (drop 8 body)) \<Longrightarrow> make_directory host p hdr body sf h = Some (r, sf', h') \<Longrightarrow> nodes_in_folder root sf'"
    "simple_name (cstr body) \<Longrightarrow> make_symlink host p hdr body sf h = Some (r, sf', h') \<Longrightarrow> nodes_in_folder root sf'"
  using assms
  by (auto simp: lookup_def make_node_def make_directory_def make_symlink_def cstr_from_eq Let_def
      split: option.splits sum.splits prod.splits if_splits elim!: bind_SomeE dest!: entry_reply_tables)
    (rule insert_child_inside, assumption+)+

lemma create_inside:
  assumes "nodes_in_folder root sf" "simple_name (cstr (drop 16 body))" "create host p hdr body sf h = Some (r, sf', h')"
  shows "nodes_in_folder root sf'"
proof -
  have "nodes_in_folder root sf2" if "nodes_in_folder root sf1" "insert_file host p f sf1 h1 = Some (fh, sf2, h2)"
    for sf1 f h1 fh sf2 h2
    using that(1) insert_file_eq [OF that(2)] by (simp add: nodes_in_folder_def)
  note insert_child_inside this [OF insert_child_inside]
  with assms show ?thesis
    by (auto simp: create_def cstr_from_eq Let_def split: option.splits sum.splits prod.splits if_splits elim!: bind_SomeE)
qed

lemma other_nodes:
  "get_attr host p hdr sf h = Some (r, sf', h') \<Longrightarrow> sf_inodes sf' \<subseteq>\<^sub>m sf_inodes sf"
  "set_attr host p hdr body sf h = Some (r, sf', h') \<Longrightarrow> sf_inodes sf' \<subseteq>\<^sub>m sf_inodes sf"
  "open_file host p hdr body sf h = Some (r, sf', h') \<Longrightarrow> sf_inodes sf' \<subseteq>\<^sub>m sf_inodes sf"
  "open_dir host p hdr sf h = Some (r, sf', h') \<Longrightarrow> sf_inodes sf' \<subseteq>\<^sub>m sf_inodes sf"
  "unlink host hdr body sf h = Some (r, sf', h') \<Longrightarrow> sf_inodes sf' \<subseteq>\<^sub>m sf_inodes sf"
  "rmdir host hdr body sf h = Some (r, sf', h') \<Longrightarrow> sf_inodes sf' \<subseteq>\<^sub>m sf_inodes sf"
  "rename host hdr body sf h = Some (r, sf', h') \<Longrightarrow> sf_inodes sf' \<subseteq>\<^sub>m sf_inodes sf"
  "readlink host hdr sf h = Some (r, sf', h') \<Longrightarrow> sf_inodes sf' \<subseteq>\<^sub>m sf_inodes sf"
  "read_file host body sf h = Some (r, sf', h') \<Longrightarrow> sf_inodes sf' \<subseteq>\<^sub>m sf_inodes sf"
  "write_file host body sf h = Some (r, sf', h') \<Longrightarrow> sf_inodes sf' \<subseteq>\<^sub>m sf_inodes sf"
  "release host body sf h = Some (r, sf', h') \<Longrightarrow> sf_inodes sf' \<subseteq>\<^sub>m sf_inodes sf"
  "fsync host body sf h = Some (r, sf', h') \<Longrightarrow> sf_inodes sf' \<subseteq>\<^sub>m sf_inodes sf"
  "read_dir host p hdr body sf h = Some (r, sf', h') \<Longrightarrow> sf_inodes sf' \<subseteq>\<^sub>m sf_inodes sf"
  by (auto simp: get_attr_def set_attr_def open_file_def open_dir_def unlink_def rmdir_def rename_def readlink_def read_file_def
      write_file_def release_def fsync_def read_dir_def Let_def split: option.splits sum.splits prod.splits if_splits
      elim!: bind_SomeE dest!: insert_file_eq)

lemma session_nodes:
  "init body sf h = Some (r, sf', h') \<Longrightarrow> sf_inodes sf' \<subseteq>\<^sub>m sf_inodes sf"
  "destroy sf h = Some (r, sf', h') \<Longrightarrow> sf_inodes sf' \<subseteq>\<^sub>m sf_inodes sf"
  "release_dir sf h = Some (r, sf', h') \<Longrightarrow> sf_inodes sf' \<subseteq>\<^sub>m sf_inodes sf"
  "flush sf h = Some (r, sf', h') \<Longrightarrow> sf_inodes sf' \<subseteq>\<^sub>m sf_inodes sf"
  "stat_fs sf h = Some (r, sf', h') \<Longrightarrow> sf_inodes sf' \<subseteq>\<^sub>m sf_inodes sf"
  "interrupt sf h = Some (r, sf', h') \<Longrightarrow> sf_inodes sf' \<subseteq>\<^sub>m sf_inodes sf"
  "batch_forget body sf h = Some (r, sf', h') \<Longrightarrow> sf_inodes sf' \<subseteq>\<^sub>m sf_inodes sf"
  by (auto simp: init_def destroy_def release_dir_def flush_def stat_fs_def interrupt_def batch_forget_def Let_def
      split: if_splits elim!: bind_SomeE dest!: batch_forget_loop_le)

lemma dispatch_nodes:
  assumes "nodes_in_folder root sf" "list_all simple_name (request_names (in_opcode hdr) body)"
    and "dispatch host p hdr body sf h = Some (r, sf', h')"
  shows "nodes_in_folder root sf'"
proof (cases "in_opcode hdr \<in> {FUSE_LOOKUP, FUSE_SYMLINK, FUSE_MKNOD, FUSE_CREATE, FUSE_MKDIR}")
  case True
  with assms(2,3) show ?thesis
    using made_inside [OF assms(1)] create_inside [OF assms(1)]
    by (auto simp: request_names_def dispatch_def fuse_opcodes split: if_splits)
next
  case False
  with assms(3) have "sf_inodes sf' \<subseteq>\<^sub>m sf_inodes sf"
    by (auto simp: dispatch_def Let_def split: if_splits intro: other_nodes session_nodes)
  then show ?thesis by (rule nodes_in_folder_le [OF assms(1)])
qed

section \<open>Properties\<close>

text \<open>A session: requests one after the other, with their results.\<close>

fun fuse_session ::
    "('h, 'f) host_fs \<Rightarrow> profile \<Rightarrow> (fuse_in_header \<times> u8 list) list \<Rightarrow> 'f shared_folder \<Rightarrow> 'h \<Rightarrow>
     (fuse_result list \<times> 'f shared_folder \<times> 'h) option" where
  "fuse_session host p [] sf h = Some ([], sf, h)"
| "fuse_session host p ((hdr, body) # reqs) sf h =
     do {
       (r, sf, h) \<leftarrow> dispatch host p hdr body sf h;
       (rs, sf, h) \<leftarrow> fuse_session host p reqs sf h;
       Some (r # rs, sf, h)
     }"

lemma fuse_session_inside:
  assumes "same_inside root A B"
  shows "nodes_in_folder root sf \<Longrightarrow> list_all (\<lambda>(hdr, body). list_all simple_name (request_names (in_opcode hdr) body)) reqs \<Longrightarrow>
    fuse_session A p reqs sf h = fuse_session B p reqs sf h"
proof (induction reqs arbitrary: sf h)
  case (Cons req reqs)
  obtain hdr body where req: "req = (hdr, body)" by (cases req)
  then have names: "list_all simple_name (request_names (in_opcode hdr) body)" using Cons.prems(2) by simp
  have "fuse_session A p reqs sf' h' = fuse_session B p reqs sf' h'" if "dispatch B p hdr body sf h = Some (r, sf', h')" for r sf' h'
    using Cons.IH dispatch_nodes [OF Cons.prems(1) names that] Cons.prems(2) by simp
  then show ?case
    using dispatch_inside [OF assms Cons.prems(1) names, of p h] req by (auto intro!: Option.bind_cong)
qed simp

text \<open>C12: With names that are single path components other than \<^verbatim>\<open>..\<close>, the file server never leaves the shared
  folder: a whole session gives the same results, the same tables and the same host state on two hosts that
  differ in anything but the paths in the folder, so no path outside is ever handed to the host. (Symbolic
  links in the folder are followed by the host itself.)\<close>

theorem shared_folder_confined:
  assumes "same_inside root A B"
    and "list_all (\<lambda>(hdr, body). list_all simple_name (request_names (in_opcode hdr) body)) reqs"
  shows "fuse_session A p reqs (new_shared_folder root) h = fuse_session B p reqs (new_shared_folder root) h"
  by (rule fuse_session_inside [OF assms(1) _ assms(2)]) (simp add: nodes_in_folder_def new_shared_folder_def)

text \<open>The host of the example that lets nobody look at anything outside the folder \<^verbatim>\<open>/s\<close>.\<close>

definition jailed_host :: "(unit, unit) host_fs" where
  "jailed_host = small_host\<lparr>fs_metadata := (\<lambda>path h. if take 2 path = [slash, 115] then Inr small_meta else Inl PermissionDenied)\<rparr>"

theorem shared_folder_confined_witness:
  "fuse_session jailed_host Dev [(demo_header FUSE_LOOKUP 1, [97, 0]), (demo_header FUSE_GETATTR 2, [])] (new_shared_folder [slash, 115]) () =
   fuse_session small_host Dev [(demo_header FUSE_LOOKUP 1, [97, 0]), (demo_header FUSE_GETATTR 2, [])] (new_shared_folder [slash, 115]) ()"
proof (rule shared_folder_confined)
  show "same_inside [slash, 115] jailed_host small_host"
    by (auto simp: same_inside_def jailed_host_def small_host_def dest: in_folder_prefix)
  show "list_all (\<lambda>(hdr, body). list_all simple_name (request_names (in_opcode hdr) body))
      [(demo_header FUSE_LOOKUP 1, [97, 0]), (demo_header FUSE_GETATTR 2, [])]"
    by (simp add: request_names_def demo_header_def fuse_opcodes cstr_def simple_name_def)
qed

text \<open>C40: The server does not check names itself. A LOOKUP of a name that starts with a slash answers with a new
  node for that very path of the host, whatever folder is shared, when the host has something there; the
  guest can then open and change it through the node.\<close>

theorem absolute_name_escapes:
  assumes "sf_inodes sf (in_nodeid hdr) = Some parent" "in_opcode hdr = FUSE_LOOKUP"
    and "hd name = slash" "name \<noteq> []" "valid_utf8 name" "0 \<notin> set name"
    and "fs_metadata host name h = Inr meta"
    and "unat (sf_next_inode sf) < 2 ^ 64 - 1" "unat (meta_len meta) < 2 ^ 64 - 511"
  shows "\<exists>reply sf'. dispatch host p hdr (name @ [0]) sf h = Some (Inr reply, sf', h) \<and>
    sf_inodes sf' (sf_next_inode sf) = Some name \<and> from_le (take 8 reply) = sf_next_inode sf"
proof -
  have "takeWhile (\<lambda>b. b \<noteq> 0) name = name" using assms(6) by (simp add: takeWhile_eq_all_conv) metis
  then have c: "cstr (name @ [0]) = name" by (simp add: cstr_def takeWhile_tail)
  have j: "path_join parent name = name" using assms(3,4) by (simp add: path_join_def)
  have a: "add_chk p (sf_next_inode sf) 1 = Some (sf_next_inode sf + 1)" "add_chk p (meta_len meta) 511 = Some (meta_len meta + 511)"
    using assms(8,9) by (simp_all add: add_chk_def)
  obtain reply where b: "build_entry_out p (sf_next_inode sf) meta = Some reply"
    by (simp add: build_entry_out_def fuse_attr_bytes_def a)
  show ?thesis
    using assms(1,2,5,7) entry_out_nodeid(2) [OF b]
    by (simp add: dispatch_def fuse_opcodes lookup_def c from_utf8_def j insert_inode_def Let_def a entry_reply_def b)
qed

theorem absolute_name_escapes_witness:
  "\<exists>reply sf'. dispatch small_host Dev (demo_header FUSE_LOOKUP 1) ([slash, 101, 116, 99] @ [0]) (new_shared_folder [slash, 115]) () =
     Some (Inr reply, sf', ()) \<and> sf_inodes sf' 2 = Some [slash, 101, 116, 99]"
proof -
  have "valid_utf8 [slash, 101, 116, 99]"
    by (simp add: valid_utf8.simps utf8_step_def byte_at_def)
  then have "\<exists>reply sf'. dispatch small_host Dev (demo_header FUSE_LOOKUP 1) ([slash, 101, 116, 99] @ [0])
      (new_shared_folder [slash, 115]) () = Some (Inr reply, sf', ()) \<and>
      sf_inodes sf' (sf_next_inode (new_shared_folder [slash, 115] :: unit shared_folder)) = Some [slash, 101, 116, 99] \<and>
      from_le (take 8 reply) = sf_next_inode (new_shared_folder [slash, 115] :: unit shared_folder)"
    by (intro absolute_name_escapes [where parent = "[slash, 115]" and meta = small_meta])
      (simp_all add: new_shared_folder_def demo_header_def FUSE_ROOT_ID_def small_host_def small_meta_def)
  then show ?thesis by (auto simp: new_shared_folder_def FUSE_ROOT_ID_def)
qed

text \<open>A special file can never be made: the host call is asked for neither read nor write access, which is
  refused before anything happens.\<close>

lemma special_nodes_fail:
  assumes "in_opcode hdr = FUSE_MKNOD" "body_u32 body 0 = Some mode" "mode AND S_IFMT \<noteq> S_IFREG"
    and "cstr_from body 16 = Some name" "valid_utf8 name" "sf_inodes sf (in_nodeid hdr) = Some parent"
  shows "dispatch host p hdr body sf h = Some (Inl EIO, sf, h)"
  using assms
  by (simp add: dispatch_def fuse_opcodes make_node_def from_utf8_def Let_def open_with_def valid_options_def no_options_def)

text \<open>The root is an ordinary node: a guest can forget it, and is then refused everything that names it.\<close>

lemma forgotten_root_is_gone:
  assumes "in_nodeid hdr = FUSE_ROOT_ID" "in_opcode hdr2 = FUSE_GETATTR" "in_nodeid hdr2 = FUSE_ROOT_ID"
  shows "dispatch host p hdr2 body (Shared_Folder.forget hdr sf) h = Some (Inl EIO, Shared_Folder.forget hdr sf, h)"
  using assms by (simp add: dispatch_def fuse_opcodes get_attr_def forget_def)

end
