(* ===== verification/Fuse_Dirs.thy ===== *)
theory Fuse_Dirs
  imports Fuse_Paths
begin

text \<open>
  Directory listings: a READDIR reply is a run of whole, aligned records from the asked position on, as many as
  fit, so that a client that continues after the last record it has got sees every entry once.
\<close>

section \<open>Records\<close>

text \<open>The record of an entry at a position, padded to a multiple of eight bytes.\<close>

definition dirent :: "u64 \<Rightarrow> dir_entry \<Rightarrow> u8 list" where
  "dirent pos e =
     (let name = to_string_lossy (ent_name e);
          typ = (case ent_meta e of Inl _ \<Rightarrow> 0 | Inr meta \<Rightarrow> dirent_type meta)
      in le64 (ent_ino e) @ le64 pos @ le32 (of_nat (length name)) @ le32 typ @ name @ replicate ((8 - length name mod 8) mod 8) 0)"

definition entry_ok :: "dir_entry \<Rightarrow> bool" where
  "entry_ok e \<longleftrightarrow> \<not> isl (ent_meta e) \<and> length (to_string_lossy (ent_name e)) < 2 ^ 16"

primrec records :: "u64 \<Rightarrow> dir_entry list \<Rightarrow> u8 list" where
  "records pos [] = []"
| "records pos (e # es) = dirent pos e @ records (pos + 1) es"

lemma round_up_8: "n + (8 - n mod 8) mod 8 = (n + 7) div 8 * 8" for n :: nat
proof -
  obtain k r where n: "n = 8 * k + r" "r < 8" by (metis div_mult_mod_eq mult.commute mod_less_divisor zero_less_numeral)
  then have "r = 0 \<or> r = 1 \<or> r = 2 \<or> r = 3 \<or> r = 4 \<or> r = 5 \<or> r = 6 \<or> r = 7" by arith
  with n(1) show ?thesis by auto
qed

lemma dirent_length: "length (dirent pos e) = 24 + (length (to_string_lossy (ent_name e)) + 7) div 8 * 8"
  using round_up_8 [of "length (to_string_lossy (ent_name e))"] by (simp add: dirent_def Let_def)

lemma records_aligned: "8 dvd length (records pos es)"
proof (induction es arbitrary: pos)
  case (Cons e es)
  have "8 dvd length (dirent pos e)" by (simp add: dirent_length)
  with Cons [of "pos + 1"] show ?case by simp
qed simp

lemma and_not_7: "unat (x AND - 8) = unat x div 8 * 8" for x :: u32
proof -
  have seven: "(7 :: u32) = mask 3" by (simp add: mask_eq_exp_minus_1)
  have "x AND - 8 = x AND NOT 7" by simp
  also have "\<dots> = push_bit 3 (drop_bit 3 x)"
    by (rule bit_word_eqI) (auto simp: seven bit_simps)
  finally have "x AND - 8 = push_bit 3 (drop_bit 3 x)" .
  moreover have "unat (x div 8 * 8) = unat x div 8 * 8"
    using unat_less_length [of x] by (simp add: unat_word_ariths unat_div_distrib)
  ultimately show ?thesis by (simp add: push_bit_eq_mult drop_bit_eq_div)
qed

section \<open>The loop\<close>

text \<open>One entry that is not skipped: its record is appended when it fits, and the reply ends when it does not.\<close>

lemma read_dir_loop_record:
  assumes "entry_ok e" "offset < pos" "unat pos < 2 ^ 64 - 1"
  shows "read_dir_loop p offset max_size (e # es) pos out =
    (if unat max_size < length out + length (dirent pos e) then Some (Inr out)
     else read_dir_loop p offset max_size es (pos + 1) (out @ dirent pos e))"
proof -
  define n where "n = length (to_string_lossy (ent_name e))"
  obtain meta where meta: "ent_meta e = Inr meta" using assms(1) by (auto simp: entry_ok_def isl_def) (metis sum.exhaust)
  have n: "n < 2 ^ 16" using assms(1) by (simp add: entry_ok_def n_def)
  define reclen where "reclen = (24 + of_nat n :: u32)"
  have un: "unat (of_nat n :: u32) = n" using n by (simp add: unat_of_nat_less)
  have ur: "unat reclen = 24 + n" using n un by (simp add: reclen_def unat_word_ariths)
  have ur7: "unat (reclen + 7) = 31 + n" using n ur by (simp add: unat_word_ariths)
  have c: "add_chk p 24 (of_nat n :: u32) = Some reclen" "add_chk p reclen 7 = Some (reclen + 7)"
    using n un ur by (simp_all add: add_chk_def reclen_def)
  define padded where "padded = (reclen + 7) AND - 8"
  have "(31 + n) div 8 = 3 + (n + 7) div 8" by linarith
  then have up: "unat padded = 24 + (n + 7) div 8 * 8" by (simp add: padded_def and_not_7 ur7)
  have diff: "(n + 7) div 8 * 8 - n = (8 - n mod 8) mod 8" using round_up_8 [of n] by (metis add_diff_cancel_left')
  have le: "n \<le> (n + 7) div 8 * 8" by simp
  have sub: "sub_chk p padded reclen = Some (padded - reclen)" "unat (padded - reclen) = (8 - n mod 8) mod 8"
    using le ur up diff by (simp_all add: sub_chk_fits word_le_nat_alt unat_sub)
  have pos: "add_chk p pos 1 = Some (pos + 1)" using assms(3) by (simp add: add_chk_def)
  have skip: "\<not> pos \<le> offset" using assms(2) by simp
  show ?thesis
    using dirent_length [of pos e] skip
    by (simp add: meta Let_def n_def [symmetric] c padded_def [symmetric] up sub pos dirent_def)
qed

text \<open>The records of a run of entries that is as long as possible.\<close>

definition full_page :: "u32 \<Rightarrow> u64 \<Rightarrow> dir_entry list \<Rightarrow> nat \<Rightarrow> nat \<Rightarrow> bool" where
  "full_page max_size pos es used k \<longleftrightarrow> k \<le> length es \<and> used + length (records pos (take k es)) \<le> unat max_size \<and>
     (k < length es \<longrightarrow> unat max_size < used + length (records pos (take (Suc k) es)))"

lemma read_dir_loop_page:
  assumes "list_all entry_ok es" "offset < pos" "unat pos + length es < 2 ^ 64" "length out \<le> unat max_size"
  shows "\<exists>k. read_dir_loop p offset max_size es pos out = Some (Inr (out @ records pos (take k es))) \<and>
    full_page max_size pos es (length out) k"
  using assms
proof (induction es arbitrary: pos out)
  case (Cons e es)
  have pos: "unat pos < 2 ^ 64 - 1" using Cons.prems(3) by simp
  note step = read_dir_loop_record [OF _ Cons.prems(2) pos, of e p max_size es out]
  show ?case
  proof (cases "unat max_size < length out + length (dirent pos e)")
    case True
    with step Cons.prems show ?thesis by (intro exI [of _ 0]) (simp add: full_page_def)
  next
    case False
    note up = counter_up [OF pos]
    obtain k where "read_dir_loop p offset max_size es (pos + 1) (out @ dirent pos e) =
          Some (Inr ((out @ dirent pos e) @ records (pos + 1) (take k es)))"
        "full_page max_size (pos + 1) es (length (out @ dirent pos e)) k"
      using Cons.IH [of "pos + 1" "out @ dirent pos e"] Cons.prems False up by (auto intro: order_less_trans)
    with step False Cons.prems(1) show ?thesis by (intro exI [of _ "Suc k"]) (simp add: full_page_def add.assoc)
  qed
qed (simp add: full_page_def)

lemma read_dir_loop_skip:
  assumes "unat pos + i \<le> unat offset + 1" "i \<le> length es" "unat pos + i < 2 ^ 64"
  shows "read_dir_loop p offset max_size es pos out = read_dir_loop p offset max_size (drop i es) (pos + of_nat i) out"
  using assms
proof (induction i arbitrary: es pos)
  case (Suc i)
  obtain e es' where es: "es = e # es'" using Suc.prems(2) by (cases es) auto
  have pos: "unat pos < 2 ^ 64 - 1" "pos \<le> offset" using Suc.prems(1,3) by (simp_all add: word_le_nat_alt)
  have "add_chk p pos 1 = Some (pos + 1)" using pos(1) by (simp add: add_chk_def)
  moreover have "read_dir_loop p offset max_size es' (pos + 1) out =
      read_dir_loop p offset max_size (drop i es') (pos + 1 + of_nat i) out"
    by (rule Suc.IH) (use Suc.prems es counter_up(1) [OF pos(1)] in simp_all)
  ultimately show ?case using pos(2) by (simp add: es add.assoc)
qed simp

section \<open>Properties\<close>

definition listed :: "(io_error + dir_entry) list \<Rightarrow> dir_entry list" where
  "listed found = List.map_filter (\<lambda>e. case e of Inl _ \<Rightarrow> None | Inr entry \<Rightarrow> Some entry) found"

lemma read_dir_loop_from:
  assumes "list_all entry_ok es" "length es < 2 ^ 63"
  shows "\<exists>k. read_dir_loop p offset max_size es 1 [] = Some (Inr (records (offset + 1) (take k (drop (unat offset) es)))) \<and>
    full_page max_size (offset + 1) (drop (unat offset) es) 0 k"
proof -
  define i where "i = min (unat offset) (length es)"
  have skip: "read_dir_loop p offset max_size es 1 [] = read_dir_loop p offset max_size (drop i es) (1 + of_nat i) []"
    by (rule read_dir_loop_skip) (use assms(2) in \<open>auto simp: i_def\<close>)
  show ?thesis
  proof (cases "unat offset < length es")
    case True
    then have i: "i = unat offset" by (simp add: i_def)
    have u: "unat offset < 2 ^ 64 - 1" using True assms(2) by simp
    note up = counter_up [OF this]
    have "\<exists>k. read_dir_loop p offset max_size (drop i es) (offset + 1) [] =
        Some (Inr ([] @ records (offset + 1) (take k (drop i es)))) \<and> full_page max_size (offset + 1) (drop i es) (length ([] :: u8 list)) k"
      by (rule read_dir_loop_page) (use assms True up i in \<open>auto simp: list_all_length\<close>)
    then show ?thesis by (simp add: skip i add.commute)
  next
    case False
    then have "drop (unat offset) es = []" "drop i es = []" by (auto simp: i_def)
    then show ?thesis using skip by (simp add: full_page_def)
  qed
qed

text \<open>C14: A READDIR reply consists of the records of the directory entries that follow the asked offset, in order and
  without a gap, as many as fit into the size the guest gave and no partial one, each padded to eight bytes
  and carrying the offset to continue from; entries that the host cannot read are left out. The metadata of the others can
  be read and their names are shorter than 2^16 bytes.\<close>

theorem read_dir_pages:
  assumes "in_opcode hdr = FUSE_READDIR" "sf_inodes sf (in_nodeid hdr) = Some path" "fs_read_dir host path h = Inr found"
    and "list_all entry_ok (listed found)" "length (listed found) < 2 ^ 63"
    and "body_u64 body 8 = Some offset" "body_u32 body 16 = Some max_size"
  shows "\<exists>k. dispatch host p hdr body sf h =
      Some (Inr (records (offset + 1) (take k (drop (unat offset) (listed found)))), sf, h) \<and>
    full_page max_size (offset + 1) (drop (unat offset) (listed found)) 0 k \<and>
    8 dvd length (records (offset + 1) (take k (drop (unat offset) (listed found))))"
  using read_dir_loop_from [OF assms(4,5), of p offset max_size] assms
  by (auto simp: dispatch_def fuse_opcodes read_dir_def Let_def listed_def [symmetric] records_aligned)

theorem read_dir_pages_witness:
  "\<exists>k. dispatch small_host Dev (demo_header FUSE_READDIR 1) (le64 0 @ le64 1 @ le32 40) (new_shared_folder [slash]) () =
      Some (Inr (records 2 (take k [small_entry 98 12])), new_shared_folder [slash], ()) \<and> full_page 40 2 [small_entry 98 12] 0 k"
proof -
  let ?body = "le64 0 @ le64 1 @ le32 40"
  have l: "listed [Inr (small_entry 97 11), Inl OtherError, Inr (small_entry 98 12)] = [small_entry 97 11, small_entry 98 12]"
    by (simp add: listed_def List.map_filter_def)
  have ok: "list_all entry_ok [small_entry 97 11, small_entry 98 12]"
    by (simp add: entry_ok_def small_entry_def to_string_lossy_valid valid_utf8.simps utf8_step_def byte_at_def)
  have b: "body_u64 ?body 8 = Some 1" "body_u32 ?body 16 = Some 40"
    by (simp_all add: body_u64_def body_u32_def slice_of_def)
  let ?hdr = "demo_header FUSE_READDIR 1" and ?sf = "new_shared_folder [slash] :: unit shared_folder"
    and ?found = "[Inr (small_entry 97 11), Inl OtherError, Inr (small_entry 98 12)]"
  have "in_opcode ?hdr = FUSE_READDIR" "sf_inodes ?sf (in_nodeid ?hdr) = Some [slash]" "fs_read_dir small_host [slash] () = Inr ?found"
    by (simp_all add: demo_header_def new_shared_folder_def FUSE_ROOT_ID_def small_host_def)
  from read_dir_pages [OF this _ _ b, of Dev] ok show ?thesis by (auto simp: l)
qed

end
