(* ===== verification/Virtio_Fs.thy ===== *)
theory Virtio_Fs
  imports Virtio_Device Fuse_Dirs
begin

text \<open>
  The file system device, \<^verbatim>\<open>devices/virtio/devices/fs.rs\<close>: requests are collected from the readable descriptors of a
  chain, given to the file server and answered in the writable ones. The walks along a chain follow the
  guest's links without a bound, so they are partial functions: a chain that runs in a circle is never left.
\<close>

section \<open>Configuration\<close>

record fs_virtio_config =
  fs_tag :: "u8 list"
  fs_request_queues :: u32

definition new_fs_config :: "u8 list \<Rightarrow> u32 \<Rightarrow> fs_virtio_config" where
  "new_fs_config tag request_queues = \<lparr>fs_tag = vec_resize tag 36 0, fs_request_queues = request_queues\<rparr>"

definition fs_config_to_bytes :: "fs_virtio_config \<Rightarrow> usize \<Rightarrow> u8 list" where
  "fs_config_to_bytes c len = vec_resize (fs_tag c @ le32 (fs_request_queues c)) len 0"

text \<open>The state of the host's file system travels with the device.\<close>

record ('h, 'f) fs_virtio =
  fs_guest_memory :: bool
  fs_config :: fs_virtio_config
  fuse_device :: "'f shared_folder"
  fs_host :: 'h

definition new_fs :: "u8 list \<Rightarrow> 'f shared_folder \<Rightarrow> 'h \<Rightarrow> ('h, 'f) fs_virtio" where
  "new_fs name folder h =
     \<lparr>fs_guest_memory = False, fs_config = new_fs_config name 1, fuse_device = folder, fs_host = h\<rparr>"

section \<open>Walking a chain\<close>

partial_function (option) collect_loop ::
    "profile \<Rightarrow> virtio_queue \<Rightarrow> guest_memory \<Rightarrow> virtq_desc \<Rightarrow> u8 list \<Rightarrow> u8 list option" where
  "collect_loop p q m desc fuse_in_bytes =
     (if desc_flags desc AND 2 \<noteq> 0 then Some fuse_in_bytes
      else do {
        buf \<leftarrow> read_guest_memory p m (desc_buf desc) (replicate (unat (desc_len desc)) 0);
        if desc_flags desc AND 1 = 0 then Some (fuse_in_bytes @ buf)
        else do {
          desc \<leftarrow> get_descriptor p q m (desc_next desc);
          collect_loop p q m desc (fuse_in_bytes @ buf)
        }
      })"

definition collect_readable :: "profile \<Rightarrow> virtio_queue \<Rightarrow> guest_memory \<Rightarrow> u16 \<Rightarrow> u8 list option" where
  "collect_readable p q m head = do { desc \<leftarrow> get_descriptor p q m head; collect_loop p q m desc [] }"

partial_function (option) reply_loop ::
    "profile \<Rightarrow> virtio_queue \<Rightarrow> u8 list \<Rightarrow> virtq_desc \<Rightarrow> usize \<Rightarrow> guest_memory \<Rightarrow> (usize \<times> guest_memory) option" where
  "reply_loop p q reply desc written m =
     do {
       (complete, written, m) \<leftarrow>
         (if desc_flags desc AND 2 \<noteq> 0
          then do {
            let n = min (length reply - written) (unat (desc_len desc));
            m \<leftarrow> write_guest_memory p m (desc_buf desc) (take n (drop written reply));
            Some (length reply \<le> written + n, written + n, m)
          }
          else Some (False, written, m));
       if complete \<or> desc_flags desc AND 1 = 0 then Some (written, m)
       else do {
         desc \<leftarrow> get_descriptor p q m (desc_next desc);
         reply_loop p q reply desc written m
       }
     }"

definition write_out_reply ::
    "profile \<Rightarrow> virtio_queue \<Rightarrow> guest_memory \<Rightarrow> u16 \<Rightarrow> u8 list \<Rightarrow> (usize \<times> guest_memory) option" where
  "write_out_reply p q m head reply = do { desc \<leftarrow> get_descriptor p q m head; reply_loop p q reply desc 0 m }"

section \<open>Requests\<close>

definition fuse_reply :: "u64 \<Rightarrow> fuse_result \<Rightarrow> u8 list" where
  "fuse_reply uniq r =
     (case r of
        Inr payload \<Rightarrow>
          out_header_to_bytes \<lparr>out_len = of_nat (out_header_length + length payload), out_error = 0, out_unique = uniq\<rparr> @ payload
      | Inl err \<Rightarrow>
          out_header_to_bytes \<lparr>out_len = of_nat out_header_length, out_error = - err, out_unique = uniq\<rparr>)"

definition fs_hiprio_body ::
    "profile \<Rightarrow> u16 \<Rightarrow> ('h, 'f) fs_virtio loop_state \<Rightarrow> ('h, 'f) fs_virtio loop_state option" where
  "fs_hiprio_body p head = (\<lambda>(d, q, m, did_work).
     do {
       fuse_in_bytes \<leftarrow> collect_readable p q m head;
       let (hdr, _) = new_in_header fuse_in_bytes;
       let d = (if in_opcode hdr = FUSE_FORGET then d\<lparr>fuse_device := forget hdr (fuse_device d)\<rparr> else d);
       (q, m) \<leftarrow> push_used p q m head 0;
       Some (d, q, m, True)
     })"

definition fs_request_body ::
    "('h, 'f) host_fs \<Rightarrow> profile \<Rightarrow> u16 \<Rightarrow> ('h, 'f) fs_virtio loop_state \<Rightarrow> ('h, 'f) fs_virtio loop_state option" where
  "fs_request_body host p head = (\<lambda>(d, q, m, did_work).
     do {
       fuse_in_bytes \<leftarrow> collect_readable p q m head;
       let (hdr, fuse_data) = new_in_header fuse_in_bytes;
       (r, folder, h) \<leftarrow> dispatch host p hdr fuse_data (fuse_device d) (fs_host d);
       (written, m) \<leftarrow> write_out_reply p q m head (fuse_reply (in_unique hdr) r);
       (q, m) \<leftarrow> push_used p q m head 0;
       Some (d\<lparr>fuse_device := folder, fs_host := h\<rparr>, q, m, True)
     })"

definition fs_tick ::
    "('h, 'f) host_fs \<Rightarrow> profile \<Rightarrow> ('h, 'f) fs_virtio \<Rightarrow> usize \<Rightarrow> virtio_queue \<Rightarrow> guest_memory \<Rightarrow>
     ('h, 'f) fs_virtio loop_state option" where
  "fs_tick host p d sel q m =
     (if \<not> fs_guest_memory d then Some (d, q, m, False)
      else if sel = 0 then while_pop (2 ^ 16) p (fs_hiprio_body p) (d, q, m, False)
      else if sel = 1 then while_pop (2 ^ 16) p (fs_request_body host p) (d, q, m, False)
      else Some (d, q, m, False))"

definition fs_ops :: "('h, 'f) host_fs \<Rightarrow> profile \<Rightarrow> ('h, 'f) fs_virtio virtio_ops" where
  "fs_ops host p =
     \<lparr>virtio_type = (\<lambda>d. 0x1A), features = (\<lambda>d. 0), negotiate_features = default_negotiate_features,
      pass_memory = (\<lambda>d. d\<lparr>fs_guest_memory := True\<rparr>), dev_tick = fs_tick host p,
      read_config = (\<lambda>d n. fs_config_to_bytes (fs_config d) n), write_config = default_write_config,
      dev_update = (\<lambda>d qs. (d, qs, False)), dev_reset = default_reset\<rparr>"

section \<open>The device interface\<close>

lemma fs_body_setup:
  "fs_hiprio_body p h (d, q, m, w) = Some (d', q', m', w') \<Longrightarrow> same_setup q q'"
  "fs_request_body host p h (d, q, m, w) = Some (d', q', m', w') \<Longrightarrow> same_setup q q'"
  by (auto simp: fs_hiprio_body_def fs_request_body_def Let_def split: prod.splits elim!: bind_SomeE dest!: push_used_setup)

interpretation fs: virtio_device_config "fs_ops host p" for host p
proof (unfold_locales, goal_cases)
  case (1 d i q m d' q' m' w)
  then show ?case
    by (auto simp: fs_ops_def fs_tick_def split: if_splits dest!: while_pop_setup [rotated] intro: fs_body_setup)
qed (auto simp: fs_ops_def list_all2_same fs_config_to_bytes_def)

end
