(* ===== verification/Device_Maps.thy ===== *)
theory Device_Maps
  imports Ferrum_Prelude
begin

text \<open>
  The two address maps of \<^verbatim>\<open>src/device_maps\<close>: port I/O (\<^verbatim>\<open>io.rs\<close>) and memory-mapped I/O (\<^verbatim>\<open>mmio.rs\<close>).
  A map is a list of regions, an access goes to the first region whose inclusive range contains the
  address, and the device sees the offset from the start of its range. A device is a state with a
  table of functions; \<open>'e\<close> is what devices share with the outside (interrupt queue, clocks, guest
  memory).
\<close>

section \<open>Port I/O\<close>

record ('d, 'e) io_ops =
  io_input :: "'d \<Rightarrow> u16 \<Rightarrow> usize \<Rightarrow> 'e \<Rightarrow> (u8 list \<times> 'd \<times> 'e) option"
  io_output :: "'d \<Rightarrow> u16 \<Rightarrow> u8 list \<Rightarrow> 'e \<Rightarrow> ('d \<times> 'e) option"
  io_irq_handler :: "'d \<Rightarrow> 'd"
  io_tick :: "'d \<Rightarrow> 'e \<Rightarrow> ('d \<times> 'e) option"

record 'd io_region =
  io_device :: 'd
  port_start :: u16
  port_end :: u16

definition new_io_region :: "u16 \<Rightarrow> u16 \<Rightarrow> 'd \<Rightarrow> 'd io_region" where
  "new_io_region lo hi d = \<lparr>io_device = d, port_start = lo, port_end = hi\<rparr>"

definition io_contains :: "'d io_region \<Rightarrow> u16 \<Rightarrow> bool" where
  "io_contains r port \<longleftrightarrow> port_start r \<le> port \<and> port \<le> port_end r"

definition io_region_input ::
    "('d, 'e) io_ops \<Rightarrow> 'd io_region \<Rightarrow> u16 \<Rightarrow> usize \<Rightarrow> 'e \<Rightarrow> (u8 list option \<times> 'd io_region \<times> 'e) option" where
  "io_region_input ops r port len e =
     (if \<not> io_contains r port then Some (None, r, e)
      else do {
        (bs, d, e) \<leftarrow> io_input ops (io_device r) (port - port_start r) len e;
        Some (Some bs, r\<lparr>io_device := d\<rparr>, e)
      })"

definition io_region_output ::
    "('d, 'e) io_ops \<Rightarrow> 'd io_region \<Rightarrow> u16 \<Rightarrow> u8 list \<Rightarrow> 'e \<Rightarrow> (unit option \<times> 'd io_region \<times> 'e) option" where
  "io_region_output ops r port data e =
     (if \<not> io_contains r port then Some (None, r, e)
      else do {
        (d, e) \<leftarrow> io_output ops (io_device r) (port - port_start r) data e;
        Some (Some (), r\<lparr>io_device := d\<rparr>, e)
      })"

definition io_region_irq_handler :: "('d, 'e) io_ops \<Rightarrow> 'd io_region \<Rightarrow> 'd io_region" where
  "io_region_irq_handler ops r = r\<lparr>io_device := io_irq_handler ops (io_device r)\<rparr>"

definition io_region_tick ::
    "('d, 'e) io_ops \<Rightarrow> 'd io_region \<Rightarrow> 'e \<Rightarrow> ('d io_region \<times> 'e) option" where
  "io_region_tick ops r e =
     do { (d, e) \<leftarrow> io_tick ops (io_device r) e; Some (r\<lparr>io_device := d\<rparr>, e) }"

type_synonym 'd io_map = "'d io_region list"

definition io_map_register :: "'d io_map \<Rightarrow> 'd io_region \<Rightarrow> 'd io_map" where
  "io_map_register rs r = rs @ [r]"

fun io_map_input ::
    "('d, 'e) io_ops \<Rightarrow> 'd io_map \<Rightarrow> u16 \<Rightarrow> usize \<Rightarrow> 'e \<Rightarrow> (u8 list option \<times> 'd io_map \<times> 'e) option" where
  "io_map_input ops [] port len e = Some (None, [], e)"
| "io_map_input ops (r # rs) port len e =
     (if io_contains r port then
        do { (bs, r, e) \<leftarrow> io_region_input ops r port len e; Some (bs, r # rs, e) }
      else do { (bs, rs, e) \<leftarrow> io_map_input ops rs port len e; Some (bs, r # rs, e) })"

fun io_map_output ::
    "('d, 'e) io_ops \<Rightarrow> 'd io_map \<Rightarrow> u16 \<Rightarrow> u8 list \<Rightarrow> 'e \<Rightarrow> (unit option \<times> 'd io_map \<times> 'e) option" where
  "io_map_output ops [] port data e = Some (None, [], e)"
| "io_map_output ops (r # rs) port data e =
     (if io_contains r port then
        do { (_, r, e) \<leftarrow> io_region_output ops r port data e; Some (Some (), r # rs, e) }
      else do { (u, rs, e) \<leftarrow> io_map_output ops rs port data e; Some (u, r # rs, e) })"

fun io_map_tick :: "('d, 'e) io_ops \<Rightarrow> 'd io_map \<Rightarrow> 'e \<Rightarrow> ('d io_map \<times> 'e) option" where
  "io_map_tick ops [] e = Some ([], e)"
| "io_map_tick ops (r # rs) e =
     do {
       (r, e) \<leftarrow> io_region_tick ops r e;
       (rs, e) \<leftarrow> io_map_tick ops rs e;
       Some (r # rs, e)
     }"

section \<open>Memory-mapped I/O\<close>

record ('d, 'e) mmio_ops =
  dev_read :: "'d \<Rightarrow> u64 \<Rightarrow> usize \<Rightarrow> 'e \<Rightarrow> (u8 list \<times> 'd \<times> 'e) option"
  dev_write :: "'d \<Rightarrow> u64 \<Rightarrow> u8 list \<Rightarrow> 'e \<Rightarrow> ('d \<times> 'e) option"
  dev_irq_handler :: "'d \<Rightarrow> 'd"
  dev_pass_guest_memory :: "'d \<Rightarrow> 'd"
  dev_poll :: "'d \<Rightarrow> 'e \<Rightarrow> ('d \<times> 'e) option"

record 'd mmio_region =
  mmio_device :: 'd
  addr_start :: u64
  addr_end :: u64

definition new_mmio_region :: "u64 \<Rightarrow> u64 \<Rightarrow> 'd \<Rightarrow> 'd mmio_region" where
  "new_mmio_region lo hi d = \<lparr>mmio_device = d, addr_start = lo, addr_end = hi\<rparr>"

definition mmio_contains :: "'d mmio_region \<Rightarrow> u64 \<Rightarrow> bool" where
  "mmio_contains r addr \<longleftrightarrow> addr_start r \<le> addr \<and> addr \<le> addr_end r"

definition mmio_region_read ::
    "profile \<Rightarrow> ('d, 'e) mmio_ops \<Rightarrow> 'd mmio_region \<Rightarrow> u64 \<Rightarrow> usize \<Rightarrow> 'e \<Rightarrow> (u8 list \<times> 'd mmio_region \<times> 'e) option" where
  "mmio_region_read p ops r addr len e =
     do {
       dev_off \<leftarrow> sub_chk p addr (addr_start r);
       (bs, d, e) \<leftarrow> dev_read ops (mmio_device r) dev_off len e;
       Some (bs, r\<lparr>mmio_device := d\<rparr>, e)
     }"

definition mmio_region_write ::
    "profile \<Rightarrow> ('d, 'e) mmio_ops \<Rightarrow> 'd mmio_region \<Rightarrow> u64 \<Rightarrow> u8 list \<Rightarrow> 'e \<Rightarrow> ('d mmio_region \<times> 'e) option" where
  "mmio_region_write p ops r addr data e =
     do {
       dev_off \<leftarrow> sub_chk p addr (addr_start r);
       (d, e) \<leftarrow> dev_write ops (mmio_device r) dev_off data e;
       Some (r\<lparr>mmio_device := d\<rparr>, e)
     }"

definition mmio_region_irq_handler :: "('d, 'e) mmio_ops \<Rightarrow> 'd mmio_region \<Rightarrow> 'd mmio_region" where
  "mmio_region_irq_handler ops r = r\<lparr>mmio_device := dev_irq_handler ops (mmio_device r)\<rparr>"

definition mmio_region_pass_guest_memory :: "('d, 'e) mmio_ops \<Rightarrow> 'd mmio_region \<Rightarrow> 'd mmio_region" where
  "mmio_region_pass_guest_memory ops r = r\<lparr>mmio_device := dev_pass_guest_memory ops (mmio_device r)\<rparr>"

definition mmio_region_tick ::
    "('d, 'e) mmio_ops \<Rightarrow> 'd mmio_region \<Rightarrow> 'e \<Rightarrow> ('d mmio_region \<times> 'e) option" where
  "mmio_region_tick ops r e =
     do { (d, e) \<leftarrow> dev_poll ops (mmio_device r) e; Some (r\<lparr>mmio_device := d\<rparr>, e) }"

type_synonym 'd mmio_map = "'d mmio_region list"

definition mmio_map_register :: "'d mmio_map \<Rightarrow> 'd mmio_region \<Rightarrow> 'd mmio_map" where
  "mmio_map_register rs r = rs @ [r]"

fun mmio_map_read ::
    "profile \<Rightarrow> ('d, 'e) mmio_ops \<Rightarrow> 'd mmio_map \<Rightarrow> u64 \<Rightarrow> usize \<Rightarrow> 'e \<Rightarrow>
     (u8 list option \<times> 'd mmio_map \<times> 'e) option" where
  "mmio_map_read p ops [] addr len e = Some (None, [], e)"
| "mmio_map_read p ops (r # rs) addr len e =
     (if mmio_contains r addr then
        do { (bs, r, e) \<leftarrow> mmio_region_read p ops r addr len e; Some (Some bs, r # rs, e) }
      else do { (bs, rs, e) \<leftarrow> mmio_map_read p ops rs addr len e; Some (bs, r # rs, e) })"

fun mmio_map_write ::
    "profile \<Rightarrow> ('d, 'e) mmio_ops \<Rightarrow> 'd mmio_map \<Rightarrow> u64 \<Rightarrow> u8 list \<Rightarrow> 'e \<Rightarrow>
     (unit option \<times> 'd mmio_map \<times> 'e) option" where
  "mmio_map_write p ops [] addr data e = Some (None, [], e)"
| "mmio_map_write p ops (r # rs) addr data e =
     (if mmio_contains r addr then
        do { (r, e) \<leftarrow> mmio_region_write p ops r addr data e; Some (Some (), r # rs, e) }
      else do { (u, rs, e) \<leftarrow> mmio_map_write p ops rs addr data e; Some (u, r # rs, e) })"

fun mmio_map_tick :: "('d, 'e) mmio_ops \<Rightarrow> 'd mmio_map \<Rightarrow> 'e \<Rightarrow> ('d mmio_map \<times> 'e) option" where
  "mmio_map_tick ops [] e = Some ([], e)"
| "mmio_map_tick ops (r # rs) e =
     do {
       (r, e) \<leftarrow> mmio_region_tick ops r e;
       (rs, e) \<leftarrow> mmio_map_tick ops rs e;
       Some (r # rs, e)
     }"

definition mmio_map_pass_guest_memory :: "('d, 'e) mmio_ops \<Rightarrow> 'd mmio_map \<Rightarrow> 'd mmio_map" where
  "mmio_map_pass_guest_memory ops rs = map (mmio_region_pass_guest_memory ops) rs"

section \<open>Interfaces: what the run loop relies on\<close>

text \<open>A device answers a read with as many bytes as were asked for. The maps hand that promise on.\<close>

locale io_length =
  fixes ops :: "('d, 'e) io_ops"
  assumes input_length: "io_input ops d port n e = Some (bs, d', e') \<Longrightarrow> length bs = n"
begin

lemma io_map_input_length:
  "io_map_input ops rs port n e = Some (Some bs, rs', e') \<Longrightarrow> length bs = n"
proof (induction rs arbitrary: rs')
  case (Cons r rs)
  then show ?case
    by (auto simp: io_region_input_def split: if_splits elim!: bind_SomeE dest!: input_length)
qed simp

end

locale mmio_length =
  fixes ops :: "('d, 'e) mmio_ops"
  assumes read_length: "dev_read ops d addr n e = Some (bs, d', e') \<Longrightarrow> length bs = n"
begin

lemma mmio_map_read_length:
  "mmio_map_read p ops rs addr n e = Some (Some bs, rs', e') \<Longrightarrow> length bs = n"
proof (induction rs arbitrary: rs')
  case (Cons r rs)
  then show ?case
    by (auto simp: mmio_region_read_def split: if_splits elim!: bind_SomeE dest!: read_length)
qed simp

end

section \<open>Dispatch\<close>

text \<open>Disjoint maps: no address belongs to two regions. There an access reaches the one region that
  contains its address wherever it stands in the list, with the offset inside the range, and no other
  region changes.\<close>

definition io_disjoint :: "'d io_map \<Rightarrow> bool" where
  "io_disjoint rs \<longleftrightarrow> (\<forall>i < length rs. \<forall>j < length rs. \<forall>a. io_contains (rs ! i) a \<longrightarrow> io_contains (rs ! j) a \<longrightarrow> i = j)"

definition mmio_disjoint :: "'d mmio_map \<Rightarrow> bool" where
  "mmio_disjoint rs \<longleftrightarrow>
     (\<forall>i < length rs. \<forall>j < length rs. \<forall>a. mmio_contains (rs ! i) a \<longrightarrow> mmio_contains (rs ! j) a \<longrightarrow> i = j)"

lemma io_map_input_first:
  assumes "i < length rs" "io_contains (rs ! i) port" "\<forall>j < i. \<not> io_contains (rs ! j) port"
  shows "io_map_input ops rs port n e =
    do { (bs, d, e) \<leftarrow> io_input ops (io_device (rs ! i)) (port - port_start (rs ! i)) n e;
         Some (Some bs, rs[i := (rs ! i)\<lparr>io_device := d\<rparr>], e) }"
  using assms
proof (induction rs arbitrary: i)
  case (Cons r rs)
  show ?case
  proof (cases i)
    case 0
    with Cons.prems show ?thesis
      by (auto simp: io_region_input_def bind_assoc split: bind_splits)
  next
    case (Suc k)
    with Cons.prems have "\<not> io_contains r port" "k < length rs" "io_contains (rs ! k) port"
      "\<forall>j < k. \<not> io_contains (rs ! j) port"
      by auto
    with Cons.IH Suc show ?thesis by (auto split: bind_splits)
  qed
qed simp

lemma io_map_output_first:
  assumes "i < length rs" "io_contains (rs ! i) port" "\<forall>j < i. \<not> io_contains (rs ! j) port"
  shows "io_map_output ops rs port data e =
    do { (d, e) \<leftarrow> io_output ops (io_device (rs ! i)) (port - port_start (rs ! i)) data e;
         Some (Some (), rs[i := (rs ! i)\<lparr>io_device := d\<rparr>], e) }"
  using assms
proof (induction rs arbitrary: i)
  case (Cons r rs)
  show ?case
  proof (cases i)
    case 0
    with Cons.prems show ?thesis
      by (auto simp: io_region_output_def split: bind_splits)
  next
    case (Suc k)
    with Cons.prems have "\<not> io_contains r port" "k < length rs" "io_contains (rs ! k) port"
      "\<forall>j < k. \<not> io_contains (rs ! j) port"
      by auto
    with Cons.IH Suc show ?thesis by (auto split: bind_splits)
  qed
qed simp

lemma io_map_none:
  assumes "\<forall>r \<in> set rs. \<not> io_contains r port"
  shows "io_map_input ops rs port n e = Some (None, rs, e)" "io_map_output ops rs port data e = Some (None, rs, e)"
  using assms by (induction rs) auto

lemma mmio_contains_sub [simp]: "mmio_contains r a \<Longrightarrow> sub_chk p a (addr_start r) = Some (a - addr_start r)"
  by (simp add: mmio_contains_def sub_chk_fits)

lemma mmio_map_read_first:
  assumes "i < length rs" "mmio_contains (rs ! i) a" "\<forall>j < i. \<not> mmio_contains (rs ! j) a"
  shows "mmio_map_read p ops rs a n e =
    do { (bs, d, e) \<leftarrow> dev_read ops (mmio_device (rs ! i)) (a - addr_start (rs ! i)) n e;
         Some (Some bs, rs[i := (rs ! i)\<lparr>mmio_device := d\<rparr>], e) }"
  using assms
proof (induction rs arbitrary: i)
  case (Cons r rs)
  show ?case
  proof (cases i)
    case 0
    with Cons.prems show ?thesis
      by (auto simp: mmio_region_read_def split: bind_splits)
  next
    case (Suc k)
    with Cons.prems have "\<not> mmio_contains r a" "k < length rs" "mmio_contains (rs ! k) a"
      "\<forall>j < k. \<not> mmio_contains (rs ! j) a"
      by auto
    with Cons.IH Suc show ?thesis by (auto split: bind_splits)
  qed
qed simp

lemma mmio_map_write_first:
  assumes "i < length rs" "mmio_contains (rs ! i) a" "\<forall>j < i. \<not> mmio_contains (rs ! j) a"
  shows "mmio_map_write p ops rs a data e =
    do { (d, e) \<leftarrow> dev_write ops (mmio_device (rs ! i)) (a - addr_start (rs ! i)) data e;
         Some (Some (), rs[i := (rs ! i)\<lparr>mmio_device := d\<rparr>], e) }"
  using assms
proof (induction rs arbitrary: i)
  case (Cons r rs)
  show ?case
  proof (cases i)
    case 0
    with Cons.prems show ?thesis
      by (auto simp: mmio_region_write_def split: bind_splits)
  next
    case (Suc k)
    with Cons.prems have "\<not> mmio_contains r a" "k < length rs" "mmio_contains (rs ! k) a"
      "\<forall>j < k. \<not> mmio_contains (rs ! j) a"
      by auto
    with Cons.IH Suc show ?thesis by (auto split: bind_splits)
  qed
qed simp

lemma mmio_map_none:
  assumes "\<forall>r \<in> set rs. \<not> mmio_contains r a"
  shows "mmio_map_read p ops rs a n e = Some (None, rs, e)" "mmio_map_write p ops rs a data e = Some (None, rs, e)"
  using assms by (induction rs) auto

lemma io_disjoint_first:
  "io_disjoint rs \<Longrightarrow> i < length rs \<Longrightarrow> io_contains (rs ! i) a \<Longrightarrow> j < i \<Longrightarrow> \<not> io_contains (rs ! j) a"
  by (metis io_disjoint_def less_trans less_irrefl)

lemma mmio_disjoint_first:
  "mmio_disjoint rs \<Longrightarrow> i < length rs \<Longrightarrow> mmio_contains (rs ! i) a \<Longrightarrow> j < i \<Longrightarrow> \<not> mmio_contains (rs ! j) a"
  by (metis mmio_disjoint_def less_trans less_irrefl)

section \<open>What the maps keep\<close>

text \<open>The ranges of a map never change, and a property of the device states that every operation of the
  devices keeps is kept by the map.\<close>

definition io_ranges :: "'d io_map \<Rightarrow> (u16 \<times> u16) list" where
  "io_ranges rs = map (\<lambda>r. (port_start r, port_end r)) rs"

definition mmio_ranges :: "'d mmio_map \<Rightarrow> (u64 \<times> u64) list" where
  "mmio_ranges rs = map (\<lambda>r. (addr_start r, addr_end r)) rs"

lemma io_map_ranges:
  "io_map_input ops rs port n e = Some (r, rs', e') \<Longrightarrow> io_ranges rs' = io_ranges rs"
  "io_map_output ops rs port data e = Some (u, rs', e') \<Longrightarrow> io_ranges rs' = io_ranges rs"
  by (induction rs arbitrary: rs')
    (auto simp: io_ranges_def io_region_input_def io_region_output_def split: if_splits elim!: bind_SomeE)

lemma io_map_tick_ranges: "io_map_tick ops rs e = Some (rs', e') \<Longrightarrow> io_ranges rs' = io_ranges rs"
proof (induction rs arbitrary: rs' e)
  case (Cons r rs)
  then show ?case by (fastforce simp: io_ranges_def io_region_tick_def elim!: bind_SomeE)
qed simp

locale mmio_keeps =
  fixes ops :: "('d, 'e) mmio_ops" and P :: "'d \<Rightarrow> bool"
  assumes read_keeps: "dev_read ops d a n e = Some (bs, d', e') \<Longrightarrow> P d \<Longrightarrow> P d'"
    and write_keeps: "dev_write ops d a x e = Some (d', e') \<Longrightarrow> P d \<Longrightarrow> P d'"
    and poll_keeps: "dev_poll ops d e = Some (d', e') \<Longrightarrow> P d \<Longrightarrow> P d'"
begin

lemma map_read_keeps:
  assumes "\<forall>r \<in> set rs. P (mmio_device r)" "mmio_map_read p ops rs a n e = Some (ret, rs', e')"
  shows "mmio_ranges rs' = mmio_ranges rs \<and> (\<forall>r \<in> set rs'. P (mmio_device r))"
  using assms
proof (induction rs arbitrary: rs')
  case (Cons r rs)
  then show ?case
    by (fastforce simp: mmio_ranges_def mmio_region_read_def split: if_splits elim!: bind_SomeE dest: read_keeps)
qed simp

lemma map_write_keeps:
  assumes "\<forall>r \<in> set rs. P (mmio_device r)" "mmio_map_write p ops rs a x e = Some (u, rs', e')"
  shows "mmio_ranges rs' = mmio_ranges rs \<and> (\<forall>r \<in> set rs'. P (mmio_device r))"
  using assms
proof (induction rs arbitrary: rs')
  case (Cons r rs)
  then show ?case
    by (fastforce simp: mmio_ranges_def mmio_region_write_def split: if_splits elim!: bind_SomeE dest: write_keeps)
qed simp

lemma map_tick_keeps:
  assumes "\<forall>r \<in> set rs. P (mmio_device r)" "mmio_map_tick ops rs e = Some (rs', e')"
  shows "mmio_ranges rs' = mmio_ranges rs \<and> (\<forall>r \<in> set rs'. P (mmio_device r))"
  using assms
proof (induction rs arbitrary: rs' e)
  case (Cons r rs)
  then show ?case
    by (fastforce simp: mmio_ranges_def mmio_region_tick_def elim!: bind_SomeE dest: poll_keeps)
qed simp

end

end
