(* ===== verification/Host_Env.thy ===== *)
theory Host_Env
  imports Irq Device_Maps
begin

text \<open>
  What the port devices see of the host: the shared interrupt queue, the wall clock
  (\<^verbatim>\<open>chrono::Utc::now()\<close>, by the accessors the CMOS clock calls) and the monotonic clock
  (\<^verbatim>\<open>Instant::now()\<close>, in nanoseconds; the timer reads it twice, and \<open>env_next_instant\<close> is the second
  reading). A call reads the clocks it is given; time passes between calls.
\<close>

record utc =
  utc_second :: nat
  utc_minute :: nat
  utc_hour :: nat
  utc_hour12 :: nat
  utc_weekday :: nat
  utc_day :: nat
  utc_month :: nat
  utc_year :: nat

record io_env =
  env_irqs :: irq_queue
  env_utc :: utc
  env_instant :: nat
  env_next_instant :: nat

text \<open>The ranges that \<^verbatim>\<open>chrono\<close> documents for its accessors: \<^verbatim>\<open>hour12\<close> counts 1 to 12,
  \<^verbatim>\<open>number_from_sunday\<close> 1 to 7.\<close>

definition utc_ok :: "utc \<Rightarrow> bool" where
  "utc_ok t \<longleftrightarrow> utc_second t < 60 \<and> utc_minute t < 60 \<and> utc_hour t < 24 \<and>
     1 \<le> utc_hour12 t \<and> utc_hour12 t \<le> 12 \<and> 1 \<le> utc_weekday t \<and> utc_weekday t \<le> 7 \<and>
     1 \<le> utc_day t \<and> utc_day t \<le> 31 \<and> 1 \<le> utc_month t \<and> utc_month t \<le> 12"

text \<open>An environment with an empty queue, one second before a new year.\<close>

definition quiet_env :: io_env where
  "quiet_env = \<lparr>env_irqs = [], env_utc = \<lparr>utc_second = 59, utc_minute = 30, utc_hour = 23, utc_hour12 = 11,
     utc_weekday = 1, utc_day = 31, utc_month = 12, utc_year = 2025\<rparr>, env_instant = 0, env_next_instant = 0\<rparr>"

lemma quiet_env_ok: "utc_ok (env_utc quiet_env)"
  by (simp add: utc_ok_def quiet_env_def)

end
