(* ===== verification/Cmos.thy ===== *)
theory Cmos
  imports Host_Env
begin

text \<open>
  The CMOS clock, \<^verbatim>\<open>src/devices/cmos.rs\<close>, at ports \<^verbatim>\<open>0x70\<close> and \<^verbatim>\<open>0x71\<close>: an index register that selects a
  clock field or a status register, time read in binary or BCD, and the flags of status register B.
\<close>

datatype cmos_register =
    Unset | Seconds | Minute | Hour | SecondAlarm | MinuteAlarm | HourAlarm | DayOfWeek | DayOfMonth
  | Month | Year | StatusA | StatusB | StatusC | StatusD

record cmos =
  cmos_reg :: cmos_register
  uip :: bool
  oscillator :: u8
  rate :: u8
  halt :: bool
  periodic_irq :: bool
  enable_alrm :: bool
  enable_up_ended_irq :: bool
  squ_wave :: bool
  bin_mode :: bool
  hour_12 :: bool
  ds_enable :: bool

definition to_bcd :: "u8 \<Rightarrow> u8" where
  "to_bcd val = push_bit 4 (val div 10) OR (val mod 10)"

definition new_cmos :: cmos where
  "new_cmos =
     \<lparr>cmos_reg = Unset, uip = False, oscillator = 2, rate = 6, halt = False, periodic_irq = False,
      enable_alrm = False, enable_up_ended_irq = False, squ_wave = False, bin_mode = False,
      hour_12 = False, ds_enable = False\<rparr>"

definition set_uip :: "cmos \<Rightarrow> bool \<Rightarrow> cmos" where "set_uip c v = c\<lparr>uip := v\<rparr>"
definition set_oscillator :: "cmos \<Rightarrow> u8 \<Rightarrow> cmos" where "set_oscillator c v = c\<lparr>oscillator := v\<rparr>"
definition set_rate :: "cmos \<Rightarrow> u8 \<Rightarrow> cmos" where "set_rate c v = c\<lparr>rate := v\<rparr>"

definition clock_value :: "cmos \<Rightarrow> u8 \<Rightarrow> u8" where
  "clock_value c val = (if bin_mode c then val else to_bcd val)"

definition status_a :: "cmos \<Rightarrow> u8" where
  "status_a c = push_bit 7 (of_bool8 (uip c)) OR push_bit 4 (oscillator c) OR rate c"

definition status_b :: "cmos \<Rightarrow> u8" where
  "status_b c =
     push_bit 7 (of_bool8 (halt c)) OR push_bit 6 (of_bool8 (periodic_irq c)) OR
     push_bit 5 (of_bool8 (enable_alrm c)) OR push_bit 4 (of_bool8 (enable_up_ended_irq c)) OR
     push_bit 3 (of_bool8 (squ_wave c)) OR push_bit 2 (of_bool8 (bin_mode c)) OR
     push_bit 1 (of_bool8 (\<not> hour_12 c)) OR of_bool8 (ds_enable c)"

definition cmos_input :: "cmos \<Rightarrow> u16 \<Rightarrow> usize \<Rightarrow> 'x io_env_scheme \<Rightarrow> (u8 list \<times> cmos \<times> 'x io_env_scheme) option" where
  "cmos_input c port len e =
     (let now = env_utc e;
          val = (if port = 1 then
              (case cmos_reg c of
                 Seconds \<Rightarrow> clock_value c (of_nat (utc_second now))
               | Minute \<Rightarrow> clock_value c (of_nat (utc_minute now))
               | Hour \<Rightarrow> clock_value c (of_nat (if hour_12 c then utc_hour12 now else utc_hour now))
               | DayOfWeek \<Rightarrow> of_nat (utc_weekday now)
               | DayOfMonth \<Rightarrow> clock_value c (of_nat (utc_day now))
               | Month \<Rightarrow> clock_value c (of_nat (utc_month now))
               | Year \<Rightarrow> clock_value c (of_nat (utc_year now mod 100))
               | StatusA \<Rightarrow> status_a c
               | StatusB \<Rightarrow> status_b c
               | StatusC \<Rightarrow> 0
               | StatusD \<Rightarrow> 0x80
               | _ \<Rightarrow> 0)
            else 0)
      in Some (replicate len val, c, e))"

definition select_register :: "cmos_register \<Rightarrow> u8 \<Rightarrow> cmos_register" where
  "select_register old index =
     (if index = 0x00 then Seconds else if index = 0x01 then SecondAlarm
      else if index = 0x02 then Minute else if index = 0x03 then MinuteAlarm
      else if index = 0x04 then Hour else if index = 0x05 then HourAlarm
      else if index = 0x06 then DayOfWeek else if index = 0x07 then DayOfMonth
      else if index = 0x08 then Month else if index = 0x09 then Year
      else if index = 0x0A then StatusA else if index = 0x0B then StatusB
      else if index = 0x0C then StatusC else if index = 0x0D then StatusD
      else old)"

definition set_status_b :: "cmos \<Rightarrow> u8 \<Rightarrow> cmos" where
  "set_status_b c val =
     c\<lparr>halt := drop_bit 7 val AND 1 \<noteq> 0, periodic_irq := drop_bit 6 val AND 1 \<noteq> 0,
       enable_alrm := drop_bit 5 val AND 1 \<noteq> 0, enable_up_ended_irq := drop_bit 4 val AND 1 \<noteq> 0,
       squ_wave := drop_bit 3 val AND 1 \<noteq> 0, bin_mode := drop_bit 2 val AND 1 \<noteq> 0,
       hour_12 := drop_bit 1 val AND 1 = 0, ds_enable := val AND 1 \<noteq> 0\<rparr>"

definition cmos_output :: "cmos \<Rightarrow> u16 \<Rightarrow> u8 list \<Rightarrow> 'x io_env_scheme \<Rightarrow> (cmos \<times> 'x io_env_scheme) option" where
  "cmos_output c port data e =
     (if port = 0 then
        (if data = [] then None
         else do {
           last_byte \<leftarrow> index_at data (length data - 1);
           let index = last_byte AND 0x7F;
           Some (c\<lparr>cmos_reg := select_register (cmos_reg c) index\<rparr>, e)
         })
      else if port = 1 then
        (if cmos_reg c = StatusB
         then do { val \<leftarrow> index_at data 0; Some (set_status_b c val, e) }
         else Some (c, e))
      else Some (c, e))"

definition cmos_ops :: "(cmos, 'x io_env_scheme) io_ops" where
  "cmos_ops = \<lparr>io_input = cmos_input, io_output = cmos_output, io_irq_handler = (\<lambda>c. c),
     io_tick = (\<lambda>c e. Some (c, e))\<rparr>"

interpretation cmos: io_length cmos_ops
  by unfold_locales (auto simp: cmos_ops_def cmos_input_def Let_def)

section \<open>BCD\<close>

definition bcd_value :: "u8 \<Rightarrow> nat" where
  "bcd_value b = 10 * unat (drop_bit 4 b) + unat (b AND 0x0F)"

lemma unat_div_mod_10: "unat (v div 10) = unat v div 10" "unat (v mod 10) = unat v mod 10" for v :: u8
  by (simp_all add: unat_div unat_mod)

lemma low_nibble_bits: "unat b < 16 \<Longrightarrow> bit b n \<Longrightarrow> n < 4" for b :: u8
proof (rule ccontr)
  assume *: "unat b < 16" "bit b n" "\<not> n < 4"
  then have "unat (take_bit 4 b) = unat b"
    using take_bit_nat_eq_self [of "unat b" 4] by (simp add: unsigned_take_bit_eq)
  then have "take_bit 4 b = b" by (simp only: word_unat_eq_iff)
  with * show False by (metis bit_take_bit_iff)
qed

lemma nibbles:
  fixes hi lo :: u8
  assumes "unat hi < 16" "unat lo < 16"
  shows "drop_bit 4 (push_bit 4 hi OR lo) = hi" "(push_bit 4 hi OR lo) AND 0x0F = lo"
proof -
  have mask: "(0x0F :: u8) = mask 4" by (simp add: mask_eq_exp_minus_1)
  show "drop_bit 4 (push_bit 4 hi OR lo) = hi"
    by (rule bit_word_eqI) (auto simp: bit_simps dest: low_nibble_bits [OF assms(1)] low_nibble_bits [OF assms(2)])
  show "(push_bit 4 hi OR lo) AND 0x0F = lo"
    unfolding mask
    by (rule bit_word_eqI) (auto simp: bit_simps dest: low_nibble_bits [OF assms(2)])
qed

lemma to_bcd_digits:
  assumes "unat v < 100"
  shows "unat (drop_bit 4 (to_bcd v)) = unat v div 10" "unat (to_bcd v AND 0x0F) = unat v mod 10"
    "bcd_value (to_bcd v) = unat v"
proof -
  have "unat (v div 10) < 16" "unat (v mod 10) < 16"
    using assms by (simp_all add: unat_div_mod_10)
  note n = nibbles [OF this]
  show a: "unat (drop_bit 4 (to_bcd v)) = unat v div 10" and b: "unat (to_bcd v AND 0x0F) = unat v mod 10"
    unfolding to_bcd_def n unat_div_mod_10 by (rule refl)+
  show "bcd_value (to_bcd v) = unat v" by (simp add: bcd_value_def a b)
qed

section \<open>Status register B\<close>

lemma bit_of_bool8 [simp]: "bit (of_bool8 b) n \<longleftrightarrow> b \<and> n = 0"
  by (simp add: of_bool8_def bit_1_iff)

lemma drop_bit_and_1: "drop_bit k v AND 1 = 0 \<longleftrightarrow> \<not> bit v k" for v :: "'a::len word"
  by (simp add: and_one_eq bit_iff_odd_drop_bit mod_2_eq_odd)

lemma bit_push_of_bool8: "bit (push_bit k (of_bool8 b)) n \<longleftrightarrow> b \<and> n = k \<and> k < 8"
  by (auto simp: bit_push_bit_iff dest: bit_imp_le_length)

lemma bit_status_b:
  "bit (status_b c) n \<longleftrightarrow>
     (n = 7 \<and> halt c) \<or> (n = 6 \<and> periodic_irq c) \<or> (n = 5 \<and> enable_alrm c) \<or>
     (n = 4 \<and> enable_up_ended_irq c) \<or> (n = 3 \<and> squ_wave c) \<or> (n = 2 \<and> bin_mode c) \<or>
     (n = 1 \<and> \<not> hour_12 c) \<or> (n = 0 \<and> ds_enable c)"
  unfolding status_b_def bit_or_iff bit_push_of_bool8 bit_of_bool8 by auto

lemma less_8_cases: "n < (8 :: nat) \<Longrightarrow> n = 0 \<or> n = 1 \<or> n = 2 \<or> n = 3 \<or> n = 4 \<or> n = 5 \<or> n = 6 \<or> n = 7"
  by presburger

lemma status_b_set: "status_b (set_status_b c v) = v"
proof (rule bit_word_eqI)
  have 0: "v AND 1 = 0 \<longleftrightarrow> \<not> bit v 0" using drop_bit_and_1 [of 0 v] by simp
  fix n assume "n < LENGTH(8)"
  then have n: "n = 0 \<or> n = 1 \<or> n = 2 \<or> n = 3 \<or> n = 4 \<or> n = 5 \<or> n = 6 \<or> n = 7"
    by (intro less_8_cases) simp
  have flags: "halt (set_status_b c v) = bit v 7" "periodic_irq (set_status_b c v) = bit v 6"
    "enable_alrm (set_status_b c v) = bit v 5" "enable_up_ended_irq (set_status_b c v) = bit v 4"
    "squ_wave (set_status_b c v) = bit v 3" "bin_mode (set_status_b c v) = bit v 2"
    "hour_12 (set_status_b c v) = (\<not> bit v 1)" "ds_enable (set_status_b c v) = bit v 0"
    unfolding set_status_b_def drop_bit_and_1 0 by simp_all
  show "bit (status_b (set_status_b c v)) n = bit v n"
    unfolding bit_status_b flags using n by auto
qed

section \<open>Properties\<close>

text \<open>Selecting a register through port 0 and then reading one byte of it through port 1.\<close>

definition cmos_read_register :: "cmos \<Rightarrow> u8 \<Rightarrow> 'x io_env_scheme \<Rightarrow> u8 option" where
  "cmos_read_register c index e =
     do {
       (c, e) \<leftarrow> cmos_output c 0 [index] e;
       (bs, c, e) \<leftarrow> cmos_input c 1 1 e;
       index_at bs 0
     }"

lemma cmos_select: "cmos_output c 0 [index] e =
    Some (c\<lparr>cmos_reg := select_register (cmos_reg c) (index AND 0x7F)\<rparr>, e)"
  by (simp add: cmos_output_def index_at_def)

text \<open>What a guest writes to status register B is what it reads back, in every bit, with or without
  the NMI bit in the register index, and the mode bits take effect: bit 2 selects binary and bit 1
  the 24-hour format.\<close>

theorem cmos_status_b_roundtrip:
  assumes "index AND 0x7F = 0x0B"
  shows "\<exists>c1 c2. cmos_output c 0 [index] e = Some (c1, e) \<and> cmos_output c1 1 [v] e = Some (c2, e) \<and>
    cmos_read_register c2 index e = Some v \<and> (bin_mode c2 \<longleftrightarrow> bit v 2) \<and> (hour_12 c2 \<longleftrightarrow> \<not> bit v 1)"
proof -
  let ?c1 = "c\<lparr>cmos_reg := StatusB\<rparr>" and ?c2 = "set_status_b (c\<lparr>cmos_reg := StatusB\<rparr>) v"
  have "cmos_output c 0 [index] e = Some (?c1, e)"
    by (simp add: cmos_select assms select_register_def)
  moreover have "cmos_output ?c1 1 [v] e = Some (?c2, e)"
    by (simp add: cmos_output_def index_at_def)
  moreover have "status_b (?c2\<lparr>cmos_reg := StatusB\<rparr>) = status_b ?c2" by (simp add: status_b_def)
  then have "cmos_read_register ?c2 index e = Some v"
    by (simp add: cmos_read_register_def cmos_select assms select_register_def cmos_input_def status_b_set index_at_def)
  moreover have "bin_mode ?c2 = bit v 2" "hour_12 ?c2 = (\<not> bit v 1)"
    unfolding set_status_b_def drop_bit_and_1 by simp_all
  ultimately show ?thesis by blast
qed

text \<open>The registers of the time of day and date, with the value each stands for.\<close>

definition clock_fields :: "cmos \<Rightarrow> utc \<Rightarrow> (u8 \<times> nat) list" where
  "clock_fields c now =
     [(0x00, utc_second now), (0x02, utc_minute now),
      (0x04, if hour_12 c then utc_hour12 now else utc_hour now),
      (0x07, utc_day now), (0x08, utc_month now), (0x09, utc_year now mod 100)]"

text \<open>Each clock register reads as its field of the host's UTC time, in plain binary when the binary
  mode is on and otherwise as two decimal digits that stand for it.\<close>

theorem cmos_reads_time:
  assumes "utc_ok (env_utc e)" "(index, val) \<in> set (clock_fields c (env_utc e))"
  shows "\<exists>b. cmos_read_register c index e = Some b \<and>
    (if bin_mode c then unat b = val else bcd_value b = val \<and> unat (drop_bit 4 b) < 10 \<and> unat (b AND 0x0F) < 10)"
proof -
  have v: "val < 100" using assms by (auto simp: clock_fields_def utc_ok_def split: if_splits)
  then have u: "unat (of_nat val :: u8) = val" by (simp add: unat_of_nat)
  have r: "cmos_read_register c index e = Some (clock_value c (of_nat val))"
    using assms(2)
    by (auto simp: clock_fields_def cmos_read_register_def cmos_select select_register_def cmos_input_def
        clock_value_def index_at_def Let_def)
  have "unat (of_nat val :: u8) < 100" using u v by simp
  note digits = to_bcd_digits [OF this]
  show ?thesis
    using digits u v by (auto simp: r clock_value_def)
qed

end
