(* ===== verification/Serial.thy ===== *)
theory Serial
  imports Host_Env
begin

text \<open>
  The 16550-style serial port, \<^verbatim>\<open>src/devices/serial.rs\<close>: the register file behind eight ports, the
  receive buffer filled by the keyboard thread through a shared queue, and interrupt line 4 driven
  from the interrupt identification register. The keyboard thread is modelled by its effect on the
  queue, one key event at a time; what is printed or logged is kept as the list of host calls.
\<close>

section \<open>State\<close>

datatype serial_mode = Terminal | LogFile

datatype host_call = Print u8 | WriteLog "u8 list"

record serial =
  ser_data :: "u8 list"
  ser_irq :: bool
  ser_queue :: "u8 list"
  ser_mode :: serial_mode
  ier :: u8
  iir :: u8
  fcr :: u8
  lcr :: u8
  mcr :: u8
  lsr :: u8
  msr :: u8
  scr :: u8
  dll :: u8
  dlh :: u8
  thr_empty :: bool
  ser_out :: "host_call list"

definition new_serial :: "serial_mode \<Rightarrow> serial" where
  "new_serial mode =
     \<lparr>ser_data = [], ser_irq = False, ser_queue = [], ser_mode = mode, ier = 0, iir = 0x01, fcr = 0, lcr = 0,
      mcr = 0, lsr = 0x60, msr = 0, scr = 0, dll = 0, dlh = 0, thr_empty = True, ser_out = []\<rparr>"

section \<open>The keyboard thread\<close>

text \<open>Key codes and modifiers as the terminal library reports them; a character is its code point.\<close>

datatype key_code =
    KChar nat | KEnter | KBackspace | KDelete | KEsc | KTab | KBackTab | KUp | KDown | KRight | KLeft
  | KHome | KEnd | KPageUp | KPageDown | KInsert | KF nat | KOther

record key_mods =
  mod_control :: bool
  mod_other :: bool

definition encode_utf8 :: "nat \<Rightarrow> u8 list" where
  "encode_utf8 c =
     (if c < 0x80 then [of_nat c]
      else if c < 0x800 then [of_nat (0xC0 + c div 64), of_nat (0x80 + c mod 64)]
      else if c < 0x10000
      then [of_nat (0xE0 + c div 4096), of_nat (0x80 + c div 64 mod 64), of_nat (0x80 + c mod 64)]
      else [of_nat (0xF0 + c div 262144), of_nat (0x80 + c div 4096 mod 64),
            of_nat (0x80 + c div 64 mod 64), of_nat (0x80 + c mod 64)])"

definition function_key_bytes :: "nat \<Rightarrow> u8 list option" where
  "function_key_bytes n =
     (if n = 1 then Some [0x1b, 0x4f, 0x50] else if n = 2 then Some [0x1b, 0x4f, 0x51]
      else if n = 3 then Some [0x1b, 0x4f, 0x52] else if n = 4 then Some [0x1b, 0x4f, 0x53]
      else if n = 5 then Some [0x1b, 0x5b, 0x31, 0x35, 0x7e]
      else if n = 6 then Some [0x1b, 0x5b, 0x31, 0x37, 0x7e]
      else if n = 7 then Some [0x1b, 0x5b, 0x31, 0x38, 0x7e]
      else if n = 8 then Some [0x1b, 0x5b, 0x31, 0x39, 0x7e]
      else if n = 9 then Some [0x1b, 0x5b, 0x32, 0x30, 0x7e]
      else if n = 10 then Some [0x1b, 0x5b, 0x32, 0x31, 0x7e]
      else if n = 11 then Some [0x1b, 0x5b, 0x32, 0x33, 0x7e]
      else if n = 12 then Some [0x1b, 0x5b, 0x32, 0x34, 0x7e]
      else None)"

definition key_bytes :: "key_code \<Rightarrow> key_mods \<Rightarrow> u8 list option" where
  "key_bytes code mods =
     (case code of
        KChar c \<Rightarrow> Some (if mod_control mods then [of_nat c AND 0x1F] else encode_utf8 c)
      | KEnter \<Rightarrow> Some [0x0d]
      | KBackspace \<Rightarrow> Some [0x7f]
      | KDelete \<Rightarrow> Some [0x1b, 0x5b, 0x33, 0x7e]
      | KEsc \<Rightarrow> Some [0x1b]
      | KTab \<Rightarrow> Some [0x09]
      | KBackTab \<Rightarrow> Some [0x1b, 0x5b, 0x5a]
      | KUp \<Rightarrow> Some [0x1b, 0x5b, 0x41]
      | KDown \<Rightarrow> Some [0x1b, 0x5b, 0x42]
      | KRight \<Rightarrow> Some [0x1b, 0x5b, 0x43]
      | KLeft \<Rightarrow> Some [0x1b, 0x5b, 0x44]
      | KHome \<Rightarrow> Some [0x1b, 0x5b, 0x48]
      | KEnd \<Rightarrow> Some [0x1b, 0x5b, 0x46]
      | KPageUp \<Rightarrow> Some [0x1b, 0x5b, 0x35, 0x7e]
      | KPageDown \<Rightarrow> Some [0x1b, 0x5b, 0x36, 0x7e]
      | KInsert \<Rightarrow> Some [0x1b, 0x5b, 0x32, 0x7e]
      | KF n \<Rightarrow> function_key_bytes n
      | KOther \<Rightarrow> None)"

text \<open>One press: \<open>None\<close> is \<^verbatim>\<open>process::exit\<close> (control-Z), otherwise the queue with the key's bytes.\<close>

definition key_press :: "key_code \<Rightarrow> key_mods \<Rightarrow> u8 list \<Rightarrow> u8 list option" where
  "key_press code mods queue =
     (if code = KChar 0x7a \<and> mod_control mods \<and> \<not> mod_other mods then None
      else case key_bytes code mods of
          Some bs \<Rightarrow> Some (queue @ bs)
        | None \<Rightarrow> Some queue)"

section \<open>Interrupts and status\<close>

definition ser_trigger_irq :: "serial \<Rightarrow> irq_queue \<Rightarrow> irq_queue" where
  "ser_trigger_irq s irqs = (if ser_irq s then trigger_irq irqs (new_irq_command 4 True) else irqs)"

definition deassert_irq :: "serial \<Rightarrow> irq_queue \<Rightarrow> irq_queue" where
  "deassert_irq s irqs = (if ser_irq s then trigger_irq irqs (new_irq_command 4 False) else irqs)"

definition set_data :: "serial \<Rightarrow> u8 list \<Rightarrow> irq_queue \<Rightarrow> serial \<times> irq_queue" where
  "set_data s new_data irqs = (s\<lparr>ser_data := ser_data s @ new_data\<rparr>, ser_trigger_irq s irqs)"

definition fifo_bits :: "u8 \<Rightarrow> u8 \<Rightarrow> u8" where
  "fifo_bits f i = (if f AND 0x01 \<noteq> 0 then i OR 0xC0 else i AND NOT 0xC0)"

definition update_iir :: "serial \<Rightarrow> irq_queue \<Rightarrow> serial \<times> irq_queue" where
  "update_iir s irqs =
     (let was_pending = (iir s AND 0x01 = 0);
          i = fifo_bits (fcr s) (iir s);
          (i, now_pending) =
            (if ier s AND 0x01 \<noteq> 0 \<and> ser_data s \<noteq> [] then (((i AND NOT 0x01) AND 0xF1) OR push_bit 1 0x04, True)
             else if ier s AND 0x02 \<noteq> 0 \<and> thr_empty s then (((i AND NOT 0x01) AND 0xF1) OR push_bit 1 0x02, True)
             else (i OR 0x01, False));
          s = s\<lparr>iir := i\<rparr>
      in (s, if now_pending \<and> \<not> was_pending then ser_trigger_irq s irqs
             else if \<not> now_pending \<and> was_pending then deassert_irq s irqs else irqs))"

definition update_lsr :: "serial \<Rightarrow> serial" where
  "update_lsr s =
     (let l = lsr s OR 0x60
      in s\<lparr>lsr := (if ser_data s \<noteq> [] then l OR 0x01 else l AND NOT 0x01)\<rparr>)"

section \<open>Ports\<close>

text \<open>\<open>length\<close> calls of \<^verbatim>\<open>pop_back\<close>, a missing byte reading as zero.\<close>

fun pop_bytes :: "nat \<Rightarrow> u8 list \<Rightarrow> u8 list \<times> u8 list" where
  "pop_bytes 0 data = ([], data)"
| "pop_bytes (Suc n) data =
     (let (b, data) = (if data = [] then (0, []) else (last data, butlast data));
          (out, data) = pop_bytes n data
      in (b # out, data))"

definition serial_input :: "serial \<Rightarrow> u16 \<Rightarrow> usize \<Rightarrow> 'x io_env_scheme \<Rightarrow> (u8 list \<times> serial \<times> 'x io_env_scheme) option" where
  "serial_input s port len e =
     (let dlab = (lcr s AND 0x80 \<noteq> 0) in
      if port = 0 then
        (if dlab then Some (replicate len (dll s), s, e)
         else
           (let (out, data) = pop_bytes len (ser_data s);
                (s, irqs) = update_iir (s\<lparr>ser_data := data\<rparr>) (env_irqs e)
            in Some (out, s, e\<lparr>env_irqs := irqs\<rparr>)))
      else if port = 1 then Some (replicate len (if dlab then dlh s else ier s), s, e)
      else if port = 2 then Some (replicate len (iir s), s, e)
      else if port = 3 then Some (replicate len (lcr s), s, e)
      else if port = 4 then Some (replicate len (mcr s), s, e)
      else if port = 5 then (let s = update_lsr s in Some (replicate len (lsr s), s, e))
      else if port = 6 then Some (replicate len (msr s), s, e)
      else if port = 7 then Some (replicate len (scr s), s, e)
      else Some (replicate len 0, s, e))"

definition with_iir :: "serial \<Rightarrow> 'x io_env_scheme \<Rightarrow> serial \<times> 'x io_env_scheme" where
  "with_iir s e = (let (s, irqs) = update_iir s (env_irqs e) in (s, e\<lparr>env_irqs := irqs\<rparr>))"

definition transmit :: "serial \<Rightarrow> u8 \<Rightarrow> u8 list \<Rightarrow> serial" where
  "transmit s val data =
     s\<lparr>ser_out := ser_out s @ [case ser_mode s of Terminal \<Rightarrow> Print val | LogFile \<Rightarrow> WriteLog data]\<rparr>"

definition serial_output :: "serial \<Rightarrow> u16 \<Rightarrow> u8 list \<Rightarrow> 'x io_env_scheme \<Rightarrow> (serial \<times> 'x io_env_scheme) option" where
  "serial_output s port data e =
     do {
       let dlab = (lcr s AND 0x80 \<noteq> 0);
       val \<leftarrow> index_at data 0;
       Some
         (if port = 0 then
            (if dlab then (s\<lparr>dll := val\<rparr>, e) else with_iir ((transmit s val data)\<lparr>thr_empty := True\<rparr>) e)
          else if port = 1 then
            (if dlab then (s\<lparr>dlh := val\<rparr>, e) else with_iir (s\<lparr>ier := val AND 0x0F\<rparr>) e)
          else if port = 2 then with_iir (s\<lparr>fcr := val, iir := fifo_bits val (iir s)\<rparr>) e
          else if port = 3 then (s\<lparr>lcr := val\<rparr>, e)
          else if port = 4 then (s\<lparr>mcr := val\<rparr>, e)
          else if port = 7 then (s\<lparr>scr := val\<rparr>, e)
          else (s, e))
     }"

definition serial_tick :: "serial \<Rightarrow> 'x io_env_scheme \<Rightarrow> (serial \<times> 'x io_env_scheme) option" where
  "serial_tick s e =
     (let (s, e) = with_iir (s\<lparr>ser_data := ser_data s @ rev (ser_queue s), ser_queue := []\<rparr>) e
      in Some (update_lsr s, e))"

definition serial_ops :: "(serial, 'x io_env_scheme) io_ops" where
  "serial_ops = \<lparr>io_input = serial_input, io_output = serial_output,
     io_irq_handler = (\<lambda>s. s\<lparr>ser_irq := True\<rparr>), io_tick = serial_tick\<rparr>"

section \<open>Lemmas\<close>

lemma pop_bytes_eq:
  "pop_bytes n data = (take n (rev data) @ replicate (n - length data) 0, take (length data - n) data)"
proof (induction n arbitrary: data)
  case (Suc n)
  show ?case
  proof (cases data rule: rev_cases)
    case (snoc xs x)
    then show ?thesis by (simp add: Suc Let_def)
  qed (simp add: Suc Let_def)
qed simp

interpretation serial: io_length serial_ops
  by unfold_locales
    (auto simp: serial_ops_def serial_input_def pop_bytes_eq Let_def split: if_splits prod.splits)

section \<open>Interrupt identification and the line\<close>

text \<open>Commands that raise and lower line 4 in turn, the last one a raise when an interrupt is pending.\<close>

abbreviation raise_line :: irq_command where "raise_line \<equiv> new_irq_command 4 True"
abbreviation lower_line :: irq_command where "lower_line \<equiv> new_irq_command 4 False"

definition turns :: "nat \<Rightarrow> bool \<Rightarrow> irq_queue" where
  "turns k pending = concat (replicate k [raise_line, lower_line]) @ (if pending then [raise_line] else [])"

lemma turns_lower: "turns k True @ [lower_line] = turns (Suc k) False"
proof -
  have "concat (replicate k xs) @ xs = xs @ concat (replicate k xs)" for xs :: irq_queue by (induction k) simp_all
  from this [of "[raise_line, lower_line]"] show ?thesis by (simp add: turns_def)
qed

lemma turns_raise: "turns k False @ [raise_line] = turns k True"
  by (simp add: turns_def)

lemma turns_level [simp]: "line_level 4 False (turns k pending) = pending"
  by (induction k) (auto simp: turns_def)

definition rx_pending :: "serial \<Rightarrow> bool" where
  "rx_pending s \<longleftrightarrow> ier s AND 0x01 \<noteq> 0 \<and> ser_data s \<noteq> []"

definition tx_pending :: "serial \<Rightarrow> bool" where
  "tx_pending s \<longleftrightarrow> ier s AND 0x02 \<noteq> 0 \<and> thr_empty s"

lemma and_1_bit: "x AND 1 = 0 \<longleftrightarrow> \<not> bit x 0" for x :: "'a::len word"
  by (simp add: and_one_eq mod_2_eq_odd bit_0)

lemmas parity_simps = bit_0 even_or_iff even_and_iff even_not_iff

lemma fifo_bits_pending [simp]: "bit (fifo_bits f i) 0 = bit i 0"
  by (simp add: fifo_bits_def parity_simps)

lemma update_iir_simps [simp]:
  "ser_irq (fst (update_iir s cmds)) = ser_irq s"
  "ser_data (fst (update_iir s cmds)) = ser_data s"
  "ser_queue (fst (update_iir s cmds)) = ser_queue s"
  "ier (fst (update_iir s cmds)) = ier s" "thr_empty (fst (update_iir s cmds)) = thr_empty s"
  "lcr (fst (update_iir s cmds)) = lcr s" "ser_out (fst (update_iir s cmds)) = ser_out s"
  by (simp_all add: update_iir_def Let_def split: prod.splits)

lemma update_iir_pending:
  "bit (iir (fst (update_iir s cmds))) 0 \<longleftrightarrow> \<not> (rx_pending s \<or> tx_pending s)"
  by (auto simp: update_iir_def Let_def rx_pending_def tx_pending_def parity_simps)

text \<open>The port has its interrupt handler and the commands it has queued so far fit its identification register.\<close>

definition line_ok :: "serial \<Rightarrow> irq_queue \<Rightarrow> bool" where
  "line_ok s own \<longleftrightarrow> ser_irq s \<and> (\<exists>k. own = turns k (\<not> bit (iir s) 0))"

text \<open>Between operations the register also reports exactly what is pending.\<close>

definition serial_inv :: "serial \<Rightarrow> irq_queue \<Rightarrow> bool" where
  "serial_inv s own \<longleftrightarrow> line_ok s own \<and> (\<not> bit (iir s) 0 \<longleftrightarrow> rx_pending s \<or> tx_pending s)"

lemma serial_inv_line: "serial_inv s own \<Longrightarrow> line_ok s own"
  by (simp add: serial_inv_def)

lemma serial_inv_other [simp]:
  "serial_inv (s\<lparr>dll := v\<rparr>) own = serial_inv s own" "serial_inv (s\<lparr>dlh := v\<rparr>) own = serial_inv s own"
  "serial_inv (s\<lparr>lcr := v\<rparr>) own = serial_inv s own" "serial_inv (s\<lparr>mcr := v\<rparr>) own = serial_inv s own"
  "serial_inv (s\<lparr>scr := v\<rparr>) own = serial_inv s own" "serial_inv (s\<lparr>lsr := v\<rparr>) own = serial_inv s own"
  "serial_inv (s\<lparr>ser_queue := bs\<rparr>) own = serial_inv s own"
  by (simp_all add: serial_inv_def line_ok_def rx_pending_def tx_pending_def)

lemma update_iir_inv:
  assumes "line_ok s own"
  shows "serial_inv (fst (update_iir s cmds)) (own @ appended cmds (snd (update_iir s cmds)))"
proof -
  let ?now = "rx_pending s \<or> tx_pending s" and ?s = "fst (update_iir s cmds)"
  obtain k where k: "own = turns k (\<not> bit (iir s) 0)" "ser_irq s" using assms by (auto simp: line_ok_def)
  have "snd (update_iir s cmds) =
      (if ?now \<and> bit (iir s) 0 then trigger_irq cmds raise_line
       else if \<not> ?now \<and> \<not> bit (iir s) 0 then trigger_irq cmds lower_line else cmds)"
    using k(2)
    by (auto simp: update_iir_def Let_def rx_pending_def tx_pending_def ser_trigger_irq_def deassert_irq_def and_1_bit)
  then have "\<exists>k. own @ appended cmds (snd (update_iir s cmds)) = turns k ?now"
    using k(1) turns_lower [of k] by (cases "bit (iir s) 0"; cases ?now) (auto simp: turns_raise)
  moreover have "\<not> bit (iir ?s) 0 \<longleftrightarrow> ?now" "rx_pending ?s = rx_pending s" "tx_pending ?s = tx_pending s"
    using update_iir_pending [of s cmds] by (simp_all add: rx_pending_def tx_pending_def)
  ultimately show ?thesis using k(2) by (simp add: serial_inv_def line_ok_def)
qed

lemma with_iir_inv:
  assumes "line_ok s own" "with_iir s e = (s', e')"
  shows "serial_inv s' (own @ appended (env_irqs e) (env_irqs e'))"
  using assms(2) update_iir_inv [OF assms(1), of "env_irqs e"] by (auto simp: with_iir_def split: prod.splits)

lemma serial_inv_input:
  assumes "serial_inv s own" "serial_input s port n e = Some (bs, s', e')"
  shows "serial_inv s' (own @ appended (env_irqs e) (env_irqs e'))"
proof (cases "port = 0 \<and> lcr s AND 0x80 = 0")
  case True
  let ?s = "s\<lparr>ser_data := snd (pop_bytes n (ser_data s))\<rparr>"
  have "line_ok ?s own" using serial_inv_line [OF assms(1)] by (simp add: line_ok_def)
  from update_iir_inv [OF this, of "env_irqs e"] show ?thesis
    using assms(2) True by (auto simp: serial_input_def Let_def split: prod.splits)
next
  case False
  then show ?thesis
    using assms by (auto simp: serial_input_def Let_def update_lsr_def split: if_splits)
qed

lemma serial_inv_output:
  assumes "serial_inv s own" "serial_output s port data e = Some (s', e')"
  shows "serial_inv s' (own @ appended (env_irqs e) (env_irqs e'))"
proof -
  from assms(2) obtain v where v: "index_at data 0 = Some v"
    by (auto simp: serial_output_def Let_def elim!: bind_SomeE)
  have "line_ok ((transmit s v data)\<lparr>thr_empty := True\<rparr>) own" "line_ok (s\<lparr>ier := v AND 0x0F\<rparr>) own"
    "line_ok (s\<lparr>fcr := v, iir := fifo_bits v (iir s)\<rparr>) own"
    using serial_inv_line [OF assms(1)] by (simp_all add: line_ok_def transmit_def)
  note iir = this [THEN with_iir_inv]
  show ?thesis
    using assms v iir by (auto simp: serial_output_def Let_def split: if_splits)
qed

lemma serial_inv_tick:
  assumes "serial_inv s own" "serial_tick s e = Some (s', e')"
  shows "serial_inv s' (own @ appended (env_irqs e) (env_irqs e'))"
proof -
  let ?s = "s\<lparr>ser_data := ser_data s @ rev (ser_queue s), ser_queue := []\<rparr>"
  have "line_ok ?s own" using serial_inv_line [OF assms(1)] by (simp add: line_ok_def)
  then have "serial_inv s1 (own @ appended (env_irqs e) (env_irqs e1))" if "with_iir ?s e = (s1, e1)" for s1 e1
    using that by (rule with_iir_inv)
  with assms(2) show ?thesis
    by (auto simp: serial_tick_def Let_def update_lsr_def split: prod.splits)
qed

section \<open>Received bytes\<close>

lemma update_lsr_simps [simp]:
  "ser_data (update_lsr s) = ser_data s" "ser_queue (update_lsr s) = ser_queue s"
  "lcr (update_lsr s) = lcr s" "bit (lsr (update_lsr s)) 0 \<longleftrightarrow> ser_data s \<noteq> []"
  by (simp_all add: update_lsr_def Let_def parity_simps)

lemma serial_tick_eq:
  "serial_tick s e =
    (let u = update_iir (s\<lparr>ser_data := ser_data s @ rev (ser_queue s), ser_queue := []\<rparr>) (env_irqs e)
     in Some (update_lsr (fst u), e\<lparr>env_irqs := snd u\<rparr>))"
  by (simp add: serial_tick_def with_iir_def Let_def split: prod.splits)

lemma serial_tick_state:
  assumes "serial_tick s e = Some (s', e')"
  shows "ser_data s' = ser_data s @ rev (ser_queue s)" "ser_queue s' = []" "lcr s' = lcr s"
    "lsr s' AND 1 = 0 \<longleftrightarrow> ser_data s' = []"
  using assms by (auto simp: serial_tick_eq Let_def and_1_bit)

lemma serial_input_bytes:
  assumes "lcr s AND 0x80 = 0"
  shows "\<exists>s' e'. serial_input s 0 n e =
      Some (take n (rev (ser_data s)) @ replicate (n - length (ser_data s)) 0, s', e') \<and>
    ser_data s' = take (length (ser_data s) - n) (ser_data s)"
  using assms
  by (auto simp: serial_input_def pop_bytes_eq Let_def dest!: arg_cong [of _ _ fst] split: prod.splits)

section \<open>Identification codes\<close>

lemma iir_code:
  "((x AND 0xF1) OR 8) AND 0x0E = 8" "((x AND 0xF1) OR 4) AND 0x0E = 4" for x :: u8
  by (simp_all add: bit.conj_disj_distrib2 and.assoc)

section \<open>The port among its neighbours\<close>

text \<open>The states of one port and the commands that it has queued so far: the guest accesses its registers, the tick thread
  ticks it, keys are pressed. The environment of each operation is arbitrary, so between them other devices, among them the
  other ports on the same line, queue what they like and the tick thread takes what it finds. \<^verbatim>\<open>set_data\<close>,
  which only the tests call, is left out.\<close>

inductive serial_run :: "serial_mode \<Rightarrow> serial \<Rightarrow> irq_queue \<Rightarrow> bool" for mode where
  power_on: "serial_run mode ((new_serial mode)\<lparr>ser_irq := True\<rparr>) []"
| port_in: "serial_run mode s own \<Longrightarrow> serial_input s port n (e :: io_env) = Some (bs, s', e') \<Longrightarrow>
    serial_run mode s' (own @ appended (env_irqs e) (env_irqs e'))"
| port_out: "serial_run mode s own \<Longrightarrow> serial_output s port data (e :: io_env) = Some (s', e') \<Longrightarrow>
    serial_run mode s' (own @ appended (env_irqs e) (env_irqs e'))"
| timer: "serial_run mode s own \<Longrightarrow> serial_tick s (e :: io_env) = Some (s', e') \<Longrightarrow>
    serial_run mode s' (own @ appended (env_irqs e) (env_irqs e'))"
| key: "serial_run mode s own \<Longrightarrow> key_press code mods (ser_queue s) = Some q \<Longrightarrow> serial_run mode (s\<lparr>ser_queue := q\<rparr>) own"

lemma serial_run_inv: "serial_run mode s own \<Longrightarrow> serial_inv s own"
proof (induction rule: serial_run.induct)
  case power_on
  show ?case by (auto simp: serial_inv_def line_ok_def new_serial_def rx_pending_def tx_pending_def turns_def intro: exI [of _ 0])
next
  case (key s own code mods q)
  then show ?case by simp
qed (auto intro: serial_inv_input serial_inv_output serial_inv_tick)

section \<open>Properties\<close>

text \<open>C35: However register accesses, key presses and ticks of a serial port interleave, and whatever else happens to
  the interrupt queue between them, the commands that the port itself queues raise and lower line 4 in turn, beginning
  with a raise, and the last one is a raise exactly when the identification register reports a pending interrupt (bit 0
  clear), which is when received data or an empty transmitter is pending and enabled. So a port that has the line to
  itself keeps it high exactly while it has an interrupt pending.\<close>

theorem serial_line_follows_iir:
  assumes "serial_run mode s own"
  shows "(\<exists>k. own = turns k (iir s AND 1 = 0)) \<and> (line_level 4 False own \<longleftrightarrow> iir s AND 1 = 0) \<and>
    (iir s AND 1 = 0 \<longleftrightarrow> rx_pending s \<or> tx_pending s)"
proof -
  from serial_run_inv [OF assms] obtain k where "own = turns k (iir s AND 1 = 0)" "iir s AND 1 = 0 \<longleftrightarrow> rx_pending s \<or> tx_pending s"
    unfolding serial_inv_def line_ok_def and_1_bit by blast
  then show ?thesis by auto
qed

text \<open>The guest enables the transmitter interrupt and disables it again.\<close>

lemma serial_ier_steps:
  fixes e :: "'x io_env_scheme"
  shows "serial_output ((new_serial mode)\<lparr>ser_irq := True\<rparr>) 1 [2] e =
      Some ((new_serial mode)\<lparr>ser_irq := True, ier := 2, iir := 4\<rparr>, e\<lparr>env_irqs := env_irqs e @ [raise_line]\<rparr>)"
    "serial_output ((new_serial mode)\<lparr>ser_irq := True, ier := 2, iir := 4\<rparr>) 1 [0] e =
      Some ((new_serial mode)\<lparr>ser_irq := True, ier := 0, iir := 5\<rparr>, e\<lparr>env_irqs := env_irqs e @ [lower_line]\<rparr>)"
  by (simp_all add: serial_output_def index_at_def with_iir_def update_iir_def fifo_bits_def new_serial_def
      ser_trigger_irq_def deassert_irq_def trigger_irq_def Let_def)

theorem serial_line_follows_iir_witness:
  "\<exists>s own. serial_run Terminal s own \<and> iir s AND 1 = 1 \<and> own = [raise_line, lower_line] \<and> (\<exists>k. own = turns k False) \<and>
     \<not> line_level 4 False own"
proof -
  have "serial_run Terminal ((new_serial Terminal)\<lparr>ser_irq := True, ier := 2, iir := 4\<rparr>) [raise_line]"
    using serial_run.port_out [OF serial_run.power_on serial_ier_steps(1) [where e = quiet_env]] by simp
  from serial_run.port_out [OF this serial_ier_steps(2) [where e = quiet_env]]
  have "serial_run Terminal ((new_serial Terminal)\<lparr>ser_irq := True, ier := 0, iir := 5\<rparr>) [raise_line, lower_line]" by simp
  from this serial_line_follows_iir [OF this] show ?thesis by fastforce
qed

text \<open>The three ports of the main program share line 4, and a level that each of them sets on its own is not the
  disjunction of their requests: when a second port raises the line and lowers it again, the line is low while the
  first still has its interrupt pending.\<close>

theorem shared_line_loses_interrupt:
  fixes e :: io_env
  defines "com \<equiv> \<lambda>mode. (new_serial mode)\<lparr>ser_irq := True\<rparr>"
  shows "\<exists>com1 com2 com2' e1 e2 e3. serial_output (com Terminal) 1 [2] e = Some (com1, e1) \<and>
    serial_output (com LogFile) 1 [2] e1 = Some (com2, e2) \<and> serial_output com2 1 [0] e2 = Some (com2', e3) \<and>
    iir com1 AND 1 = 0 \<and> \<not> line_level 4 lv (env_irqs e3)"
  unfolding com_def by (simp add: serial_ier_steps)

text \<open>C36: The bytes a guest reads after a tick. The tick moves the typed bytes over and empties the queue
  of the keyboard thread; reading \<open>n\<close> bytes of the data port, with DLAB clear, then gives the bytes of that tick in
  the order they were typed, followed by what was left unread before it, padded with zeros, and
  removes them. Bytes left over from an earlier tick are therefore read after the newer ones.\<close>

theorem serial_reads_typed_bytes:
  assumes "serial_tick s e = Some (s1, e1)" "lcr s AND 0x80 = 0"
  shows "\<exists>s2 e2. serial_input s1 0 n e1 =
      Some (take n (ser_queue s @ rev (ser_data s) @ replicate n 0), s2, e2) \<and> ser_queue s1 = [] \<and>
    ser_data s2 = take (length (ser_data s) + length (ser_queue s) - n) (ser_data s @ rev (ser_queue s))"
  using serial_input_bytes [of s1 n e1] serial_tick_state [OF assms(1)] assms(2)
  by (auto simp: min_def)

theorem serial_reads_typed_bytes_witness:
  "\<exists>s1 e1 s2 e2. serial_tick ((new_serial Terminal)\<lparr>ser_queue := [0x68, 0x69], ser_data := [0x61]\<rparr>) quiet_env = Some (s1, e1) \<and>
     serial_input s1 0 4 e1 = Some ([0x68, 0x69, 0x61, 0], s2, e2) \<and> ser_data s2 = []"
proof -
  let ?s = "(new_serial Terminal)\<lparr>ser_queue := [0x68, 0x69], ser_data := [0x61]\<rparr>"
  obtain s1 e1 where t: "serial_tick ?s quiet_env = Some (s1, e1)"
    by (auto simp: serial_tick_eq Let_def)
  from serial_reads_typed_bytes [OF t, of 4] t show ?thesis by (auto simp: new_serial_def numeral_eq_Suc)
qed

text \<open>The identification code reported for received data is 0x08 and for an empty transmitter 0x04,
  each one bit too far left: a 16550 reports 0x04 for received data and 0x02 for an empty transmitter,
  so a driver takes the transmitter interrupt of this port for received data.\<close>

theorem serial_iir_codes:
  "iir (fst (update_iir s cmds)) AND 0x0E =
    (if rx_pending s then 0x08 else if tx_pending s then 0x04 else iir s AND 0x0E)"
proof -
  have *: "fifo_bits f i AND 0x0E = i AND 0x0E" for f i
    by (simp add: fifo_bits_def bit.conj_disj_distrib2 and.assoc)
  have "(fifo_bits f i OR 1) AND 0x0E = i AND 0x0E" for f i
    by (simp add: bit.conj_disj_distrib2 *)
  then show ?thesis
    by (simp add: update_iir_def Let_def rx_pending_def tx_pending_def iir_code)
qed

end
