(* ===== verification/Pit.thy ===== *)
theory Pit
  imports Complex_Main Host_Env
begin

text \<open>
  The interval timer, \<^verbatim>\<open>src/devices/timer.rs\<close>: the command register, the divisor programmed in one or
  two bytes, and the tick that turns elapsed time into pulses on line 0. The \<^verbatim>\<open>f64\<close> operations are a
  parameter, a table of functions on a type \<open>'f\<close>; the theorems on programming hold for every table,
  and the one on pulses for those that round as IEEE 754 binary64 arithmetic does.
\<close>

record 'f f64_ops =
  f_of_nat :: "nat \<Rightarrow> 'f"
  f_add :: "'f \<Rightarrow> 'f \<Rightarrow> 'f"
  f_sub :: "'f \<Rightarrow> 'f \<Rightarrow> 'f"
  f_mul :: "'f \<Rightarrow> 'f \<Rightarrow> 'f"
  f_div :: "'f \<Rightarrow> 'f \<Rightarrow> 'f"
  f_ge :: "'f \<Rightarrow> 'f \<Rightarrow> bool"
  f_eq :: "'f \<Rightarrow> 'f \<Rightarrow> bool"

definition PIT_BASE_HZ :: "'f f64_ops \<Rightarrow> 'f" where
  "PIT_BASE_HZ fl = f_of_nat fl 1193182"

record 'f pit =
  pit_irq :: bool
  pit_line :: u32
  access_mode :: u8
  op_mode :: u8
  divisor :: u32
  latch_lo :: bool
  acc_ns :: 'f
  pit_period :: 'f
  last_tick :: nat
  programmed :: bool

definition period_ns :: "'f f64_ops \<Rightarrow> u32 \<Rightarrow> 'f" where
  "period_ns fl dv =
     (let d = f_of_nat fl (unat (if dv = 0 then 65536 else dv))
      in f_mul fl (f_div fl d (PIT_BASE_HZ fl)) (f_of_nat fl 1000000000))"

definition new_pit :: "'f f64_ops \<Rightarrow> nat \<Rightarrow> 'f pit" where
  "new_pit fl now =
     \<lparr>pit_irq = False, pit_line = 0, access_mode = 3, op_mode = 3, divisor = 65536, latch_lo = True,
      acc_ns = f_of_nat fl 0, pit_period = period_ns fl 65536, last_tick = now, programmed = False\<rparr>"

definition update_period :: "'f f64_ops \<Rightarrow> 'f pit \<Rightarrow> 'f pit" where
  "update_period fl s = s\<lparr>pit_period := period_ns fl (divisor s)\<rparr>"

definition pit_command :: "'f pit \<Rightarrow> u8 \<Rightarrow> 'f pit" where
  "pit_command s val =
     (let channel = drop_bit 6 val AND 0x3 in
      if channel \<noteq> 0 then s
      else s\<lparr>access_mode := drop_bit 4 val AND 0x3, op_mode := drop_bit 1 val AND 0x7, latch_lo := True,
             divisor := 0\<rparr>)"

definition pit_data :: "'f f64_ops \<Rightarrow> 'f pit \<Rightarrow> u8 \<Rightarrow> 'f pit" where
  "pit_data fl s val =
     (if access_mode s = 1 then (update_period fl (s\<lparr>divisor := ucast val\<rparr>))\<lparr>programmed := True\<rparr>
      else if access_mode s = 2
      then (update_period fl (s\<lparr>divisor := push_bit 8 (ucast val)\<rparr>))\<lparr>programmed := True\<rparr>
      else if access_mode s = 3 then
        (if latch_lo s then s\<lparr>divisor := ucast val, latch_lo := False\<rparr>
         else (update_period fl (s\<lparr>divisor := divisor s OR push_bit 8 (ucast val), latch_lo := True\<rparr>))
                \<lparr>programmed := True\<rparr>)
      else s)"

definition pit_output :: "'f f64_ops \<Rightarrow> 'f pit \<Rightarrow> u16 \<Rightarrow> u8 list \<Rightarrow> 'x io_env_scheme \<Rightarrow> ('f pit \<times> 'x io_env_scheme) option" where
  "pit_output fl s port data e =
     do {
       val \<leftarrow> index_at data 0;
       Some (if port = 0x3 then pit_command s val else if port = 0x0 then pit_data fl s val else s, e)
     }"

definition pit_input :: "'f pit \<Rightarrow> u16 \<Rightarrow> usize \<Rightarrow> 'x io_env_scheme \<Rightarrow> (u8 list \<times> 'f pit \<times> 'x io_env_scheme) option" where
  "pit_input s port len e = Some (replicate len 0, s, e)"

fun pit_fire :: "nat \<Rightarrow> 'f f64_ops \<Rightarrow> 'f \<Rightarrow> u32 \<Rightarrow> 'f \<Rightarrow> irq_queue \<Rightarrow> ('f \<times> irq_queue) option" where
  "pit_fire 0 fl period line acc irqs = (if f_ge fl acc period then None else Some (acc, irqs))"
| "pit_fire (Suc fuel) fl period line acc irqs =
     (if f_ge fl acc period
      then pit_fire fuel fl period line (f_sub fl acc period)
             (trigger_irq (trigger_irq irqs (new_irq_command line True)) (new_irq_command line False))
      else Some (acc, irqs))"

definition pit_tick :: "nat \<Rightarrow> 'f f64_ops \<Rightarrow> 'f pit \<Rightarrow> 'x io_env_scheme \<Rightarrow> ('f pit \<times> 'x io_env_scheme) option" where
  "pit_tick fuel fl s e =
     (if \<not> pit_irq s \<or> f_eq fl (pit_period s) (f_of_nat fl 0) \<or> \<not> programmed s then Some (s, e)
      else do {
        let acc = f_add fl (acc_ns s) (f_of_nat fl (env_instant e - last_tick s));
        let s = s\<lparr>acc_ns := acc, last_tick := env_next_instant e\<rparr>;
        (acc, irqs) \<leftarrow> pit_fire fuel fl (pit_period s) (pit_line s) (acc_ns s) (env_irqs e);
        Some (s\<lparr>acc_ns := acc\<rparr>, e\<lparr>env_irqs := irqs\<rparr>)
      })"

definition pit_ops :: "nat \<Rightarrow> 'f f64_ops \<Rightarrow> ('f pit, 'x io_env_scheme) io_ops" where
  "pit_ops fuel fl = \<lparr>io_input = pit_input, io_output = pit_output fl,
     io_irq_handler = (\<lambda>s. s\<lparr>pit_irq := True\<rparr>), io_tick = pit_tick fuel fl\<rparr>"

interpretation pit: io_length "pit_ops fuel fl" for fuel fl
  by unfold_locales (auto simp: pit_ops_def pit_input_def)

section \<open>Programming the divisor\<close>

text \<open>The 16-bit count that two data bytes stand for.\<close>

lemma two_byte_divisor:
  "(ucast lo :: u32) OR push_bit 8 (ucast hi) = of_nat (unat lo + 256 * unat hi)" for lo hi :: u8
proof -
  have "(ucast lo :: u32) OR push_bit 8 (ucast hi) = ucast lo + push_bit 8 (ucast hi)"
    by (rule disjunctive_add_eq_or [symmetric]) (rule bit_word_eqI, auto simp: bit_simps dest: bit_imp_le_length)
  also have "\<dots> = of_nat (unat lo + 256 * unat hi)"
    by (simp add: push_bit_eq_mult)
  finally show ?thesis .
qed

section \<open>Pulses\<close>

definition pulse :: "u32 \<Rightarrow> irq_queue" where
  "pulse line = [new_irq_command line True, new_irq_command line False]"

text \<open>Binary64 arithmetic as IEEE 754 describes it: a number has a value unless it is infinite or not a number (\<open>fin\<close>), comparisons
  compare values, and a conversion, sum, difference, product or quotient is the exact result up to a relative error of at
  most half a unit in the last of 53 binary places, unless it leaves the range of the format. For products and
  quotients the result also has to stay away from zero, where the format has fewer places.\<close>

definition f64_eps :: real where
  "f64_eps = 1 / 2 ^ 53"

definition f64_range :: real where
  "f64_range = 2 ^ 1000"

definition rounds_to :: "('f \<Rightarrow> bool) \<Rightarrow> ('f \<Rightarrow> real) \<Rightarrow> 'f \<Rightarrow> real \<Rightarrow> bool" where
  "rounds_to fin val a x \<longleftrightarrow> fin a \<and> \<bar>val a - x\<bar> \<le> f64_eps * \<bar>x\<bar>"

definition f64_arith :: "'f f64_ops \<Rightarrow> ('f \<Rightarrow> bool) \<Rightarrow> ('f \<Rightarrow> real) \<Rightarrow> bool" where
  "f64_arith fl fin val \<longleftrightarrow>
     (\<forall>n < 2 ^ 128. rounds_to fin val (f_of_nat fl n) (real n)) \<and>
     (\<forall>a b. fin a \<and> fin b \<longrightarrow>
        f_ge fl a b = (val b \<le> val a) \<and> f_eq fl a b = (val a = val b) \<and>
        (\<bar>val a + val b\<bar> \<le> f64_range \<longrightarrow> rounds_to fin val (f_add fl a b) (val a + val b)) \<and>
        (\<bar>val a - val b\<bar> \<le> f64_range \<longrightarrow> rounds_to fin val (f_sub fl a b) (val a - val b)) \<and>
        (1 / f64_range \<le> \<bar>val a * val b\<bar> \<and> \<bar>val a * val b\<bar> \<le> f64_range \<longrightarrow> rounds_to fin val (f_mul fl a b) (val a * val b)) \<and>
        (1 / f64_range \<le> \<bar>val a / val b\<bar> \<and> \<bar>val a / val b\<bar> \<le> f64_range \<longrightarrow> rounds_to fin val (f_div fl a b) (val a / val b)))"

lemma f64_zero:
  assumes "f64_arith fl fin val"
  shows "fin (f_of_nat fl 0)" "val (f_of_nat fl 0) = 0"
proof -
  have "rounds_to fin val (f_of_nat fl 0) (real 0)" using assms unfolding f64_arith_def by (metis zero_less_numeral zero_less_power)
  then show "fin (f_of_nat fl 0)" "val (f_of_nat fl 0) = 0" by (simp_all add: rounds_to_def)
qed

lemma f64_rules:
  assumes "f64_arith fl fin val" "fin a" "fin b"
  shows "f_ge fl a b \<longleftrightarrow> val b \<le> val a" "f_eq fl a b \<longleftrightarrow> val a = val b"
    "\<bar>val a + val b\<bar> \<le> f64_range \<Longrightarrow> rounds_to fin val (f_add fl a b) (val a + val b)"
    "\<bar>val a - val b\<bar> \<le> f64_range \<Longrightarrow> rounds_to fin val (f_sub fl a b) (val a - val b)"
  using assms unfolding f64_arith_def by blast+

text \<open>One turn of the loop: the rest is not negative, and smaller by a period up to the rounding error, which is less than
  half a period.\<close>

lemma f64_sub_period:
  assumes "f64_arith fl fin val" "fin acc" "fin period" "0 < val period" "val period \<le> val acc" "val acc \<le> A" "A \<le> f64_range"
    and "2 * f64_eps * A \<le> val period"
  shows "fin (f_sub fl acc period)" "0 \<le> val (f_sub fl acc period)"
    "\<bar>val acc - (val period + val (f_sub fl acc period))\<bar> \<le> f64_eps * A"
    "2 * val (f_sub fl acc period) \<le> 2 * val acc - val period"
proof -
  let ?d = "val acc - val period" and ?v = "val (f_sub fl acc period)"
  have "rounds_to fin val (f_sub fl acc period) ?d" by (rule f64_rules(4) [OF assms(1-3)]) (use assms(4-7) in simp)
  then have fin: "fin (f_sub fl acc period)" and err: "\<bar>?v - ?d\<bar> \<le> f64_eps * ?d" using assms(5) by (simp_all add: rounds_to_def)
  define x where "x = f64_eps * ?d"
  have d: "0 \<le> ?d" "?d \<le> A" using assms(4-6) by simp_all
  have "x \<le> 1 * ?d" unfolding x_def by (rule mult_right_mono) (use d in \<open>simp_all add: f64_eps_def\<close>)
  moreover have "x \<le> f64_eps * A" unfolding x_def by (rule mult_left_mono) (use d in \<open>simp_all add: f64_eps_def\<close>)
  moreover have "\<bar>?v - ?d\<bar> \<le> x" using err by (simp add: x_def)
  ultimately show "0 \<le> ?v" "\<bar>val acc - (val period + ?v)\<bar> \<le> f64_eps * A" "2 * ?v \<le> 2 * val acc - val period"
    using assms(8) by (simp_all add: abs_le_iff)
  show "fin (f_sub fl acc period)" by (rule fin)
qed

text \<open>So the loop ends, with as many pulses as periods it has taken off.\<close>

lemma pit_fire_counts:
  assumes "f64_arith fl fin val" "fin period" "0 < val period" "A \<le> f64_range" "2 * f64_eps * A \<le> val period"
    and "fin acc" "0 \<le> val acc" "val acc \<le> A" "2 * val acc \<le> real fuel * val period"
  shows "\<exists>n acc'. pit_fire fuel fl period line acc irqs = Some (acc', irqs @ concat (replicate n (pulse line))) \<and>
    fin acc' \<and> 0 \<le> val acc' \<and> val acc' < val period \<and> \<bar>val acc - (real n * val period + val acc')\<bar> \<le> real n * f64_eps * A"
  using assms(6-9)
proof (induction fuel arbitrary: acc irqs)
  case 0
  then have "\<not> f_ge fl acc period" using f64_rules(1) [OF assms(1) 0(1) assms(2)] assms(3) by simp
  with 0 assms(3) show ?case by (auto intro!: exI [of _ 0])
next
  case (Suc fuel)
  note ge = f64_rules(1) [OF assms(1) Suc.prems(1) assms(2)]
  show ?case
  proof (cases "f_ge fl acc period")
    case True
    let ?a = "f_sub fl acc period"
    note sub = f64_sub_period [OF assms(1) Suc.prems(1) assms(2,3) _ Suc.prems(3) assms(4,5), OF True [unfolded ge]]
    have "val ?a \<le> A" "2 * val ?a \<le> real fuel * val period"
      using sub(4) Suc.prems(3,4) assms(3) by (simp_all add: algebra_simps)
    from Suc.IH [OF sub(1,2) this, of "irqs @ pulse line"] obtain n acc' where
      n: "pit_fire fuel fl period line ?a (irqs @ pulse line) = Some (acc', (irqs @ pulse line) @ concat (replicate n (pulse line)))"
      "fin acc'" "0 \<le> val acc'" "val acc' < val period" "\<bar>val ?a - (real n * val period + val acc')\<bar> \<le> real n * f64_eps * A"
      by blast
    have "real (Suc n) * val period = real n * val period + val period" "real (Suc n) * f64_eps * A = real n * f64_eps * A + f64_eps * A"
      by (simp_all add: algebra_simps)
    with n(5) sub(3) have "\<bar>val acc - (real (Suc n) * val period + val acc')\<bar> \<le> real (Suc n) * f64_eps * A" by linarith
    with n True show ?thesis by (intro exI [of _ "Suc n"]) (simp add: pulse_def trigger_irq_def)
  next
    case False
    with ge Suc.prems show ?thesis by (auto intro!: exI [of _ 0])
  qed
qed

text \<open>The accumulator with the elapsed time added.\<close>

lemma f64_elapsed:
  assumes "f64_arith fl fin val" "fin a" "0 \<le> val a" "T = val a + real k" "T < 2 ^ 128"
  shows "fin (f_add fl a (f_of_nat fl k))" "0 \<le> val (f_add fl a (f_of_nat fl k))"
    "\<bar>T - val (f_add fl a (f_of_nat fl k))\<bar> \<le> 3 * f64_eps * T" "val (f_add fl a (f_of_nat fl k)) \<le> 2 * T"
proof -
  let ?k = "f_of_nat fl k" and ?s = "val a + val (f_of_nat fl k)"
  have eps: "0 \<le> f64_eps" "f64_eps \<le> 1 / 8" by (simp_all add: f64_eps_def)
  have "real k < 2 ^ 128" using assms(3-5) by simp
  then have "k < 2 ^ 128" by (metis of_nat_less_iff of_nat_numeral of_nat_power)
  then have "rounds_to fin val ?k (real k)" using assms(1) unfolding f64_arith_def by blast
  then have k: "fin ?k" "\<bar>val ?k - real k\<bar> \<le> f64_eps * real k" by (simp_all add: rounds_to_def)
  have kT: "f64_eps * real k \<le> f64_eps * T" by (rule mult_left_mono) (use assms(3,4) eps in simp_all)
  have T: "0 \<le> T" "f64_eps * T \<le> 1 / 8 * T" using assms(3,4) mult_right_mono [OF eps(2), of T] by simp_all
  have "f64_eps * real k \<le> 1 * real k" by (rule mult_right_mono) (use eps in simp_all)
  then have s: "0 \<le> ?s" "?s \<le> 2 * T" "\<bar>?s - T\<bar> \<le> f64_eps * T" using k(2) kT T assms(3,4) by linarith+
  have "?s \<le> 2 ^ 129" using s(2) assms(5) by simp
  also have "\<dots> \<le> f64_range" unfolding f64_range_def by (rule power_increasing) simp_all
  finally have "rounds_to fin val (f_add fl a ?k) ?s" using s(1) by (intro f64_rules(3) [OF assms(1,2) k(1)]) simp
  then have add: "fin (f_add fl a ?k)" "\<bar>val (f_add fl a ?k) - ?s\<bar> \<le> f64_eps * ?s" using s(1) by (simp_all add: rounds_to_def)
  define x where "x = f64_eps * ?s"
  have "x \<le> f64_eps * (2 * T)" unfolding x_def by (rule mult_left_mono) (use s eps in simp_all)
  moreover have "x \<le> 1 * ?s" unfolding x_def by (rule mult_right_mono) (use s eps in simp_all)
  moreover have "\<bar>val (f_add fl a ?k) - ?s\<bar> \<le> x" using add(2) by (simp add: x_def)
  ultimately show "fin (f_add fl a ?k)" "0 \<le> val (f_add fl a ?k)" "\<bar>T - val (f_add fl a ?k)\<bar> \<le> 3 * f64_eps * T"
    "val (f_add fl a ?k) \<le> 2 * T"
    using add(1) s T by (simp_all add: abs_le_iff)
qed

lemma pit_elapsed_fires:
  assumes "f64_arith fl fin val" "fin a" "0 \<le> val a" "fin period" "0 < val period"
    and "T = val a + real k" "T < 2 ^ 128" "4 * f64_eps * T \<le> val period" "4 * T \<le> real fuel * val period"
  shows "\<exists>n acc'. pit_fire fuel fl period line (f_add fl a (f_of_nat fl k)) irqs =
      Some (acc', irqs @ concat (replicate n (pulse line))) \<and> fin acc' \<and> 0 \<le> val acc' \<and> val acc' < val period \<and>
    \<bar>T - (real n * val period + val acc')\<bar> \<le> (2 * real n + 3) * f64_eps * T"
proof -
  let ?acc = "f_add fl a (f_of_nat fl k)"
  note acc = f64_elapsed [OF assms(1-3,6,7)]
  have "2 * T \<le> 2 ^ 129" using assms(7) by simp
  also have "\<dots> \<le> f64_range" unfolding f64_range_def by (rule power_increasing) simp_all
  finally have "2 * T \<le> f64_range" .
  then obtain n acc' where n: "pit_fire fuel fl period line ?acc irqs = Some (acc', irqs @ concat (replicate n (pulse line)))"
      "fin acc'" "0 \<le> val acc'" "val acc' < val period"
      "\<bar>val ?acc - (real n * val period + val acc')\<bar> \<le> real n * f64_eps * (2 * T)"
    using pit_fire_counts [OF assms(1,4,5), of "2 * T" ?acc fuel line irqs] acc assms(8,9) by auto
  have "(2 * real n + 3) * f64_eps * T = real n * f64_eps * (2 * T) + 3 * f64_eps * T" by (simp add: algebra_simps)
  with n(5) acc(3) have "\<bar>T - (real n * val period + val acc')\<bar> \<le> (2 * real n + 3) * f64_eps * T" by linarith
  with n show ?thesis by blast
qed

lemma line_level_pulses: "line_level l lv (concat (replicate n (pulse line))) =
    (if l = line \<and> 0 < n then False else lv)"
  by (induction n arbitrary: lv) (auto simp: pulse_def)

section \<open>Properties\<close>

text \<open>The three port writes with which a driver programs channel 0: the command byte, then the low and
  the high byte of the count.\<close>

definition program_channel0 :: "'f f64_ops \<Rightarrow> 'f pit \<Rightarrow> u8 \<Rightarrow> u8 \<Rightarrow> u8 \<Rightarrow> 'x io_env_scheme \<Rightarrow> ('f pit \<times> 'x io_env_scheme) option" where
  "program_channel0 fl s cmd lo hi e =
     do {
       (s, e) \<leftarrow> pit_output fl s 3 [cmd] e;
       (s, e) \<leftarrow> pit_output fl s 0 [lo] e;
       pit_output fl s 0 [hi] e
     }"

text \<open>Exact rational arithmetic, a table to compute with, and rounding to 53 binary places on the real numbers, a table that
  rounds as the format does but has no bound on the exponent.\<close>

definition rat_ops :: "rat f64_ops" where
  "rat_ops = \<lparr>f_of_nat = of_nat, f_add = (+), f_sub = (-), f_mul = (*), f_div = (/),
     f_ge = (\<lambda>a b. b \<le> a), f_eq = (=)\<rparr>"

definition round53 :: "real \<Rightarrow> real" where
  "round53 x = (let u = 2 powr (\<lfloor>log 2 \<bar>x\<bar>\<rfloor> - 52) in if x = 0 then 0 else u * of_int (round (x / u)))"

definition round_ops :: "real f64_ops" where
  "round_ops = \<lparr>f_of_nat = (\<lambda>n. round53 (real n)), f_add = (\<lambda>a b. round53 (a + b)), f_sub = (\<lambda>a b. round53 (a - b)),
     f_mul = (\<lambda>a b. round53 (a * b)), f_div = (\<lambda>a b. round53 (a / b)), f_ge = (\<lambda>a b. b \<le> a), f_eq = (=)\<rparr>"

lemma round53_error: "\<bar>round53 x - x\<bar> \<le> f64_eps * \<bar>x\<bar>"
proof (cases "x = 0")
  case False
  define u where "u = 2 powr (\<lfloor>log 2 \<bar>x\<bar>\<rfloor> - 52)"
  have u: "0 < u" by (simp add: u_def)
  have "2 powr \<lfloor>log 2 \<bar>x\<bar>\<rfloor> \<le> 2 powr log 2 \<bar>x\<bar>" by (rule powr_mono) simp_all
  then have "u \<le> \<bar>x\<bar> / 2 ^ 52"
    using False by (simp add: u_def powr_diff divide_right_mono)
  moreover have "u * of_int (round (x / u)) - x = u * (of_int (round (x / u)) - x / u)" using u by (simp add: right_diff_distrib)
  then have "\<bar>u * of_int (round (x / u)) - x\<bar> = u * \<bar>of_int (round (x / u)) - x / u\<bar>" using u by (simp add: abs_mult)
  moreover have "u * \<bar>of_int (round (x / u)) - x / u\<bar> \<le> u * (1 / 2)"
    by (rule mult_left_mono) (use u of_int_round_abs_le [of "x / u"] in simp_all)
  moreover have "round53 x = u * of_int (round (x / u))" using False by (simp add: round53_def u_def Let_def)
  ultimately show ?thesis by (simp add: f64_eps_def)
qed (simp add: round53_def)

lemma round_ops_f64: "f64_arith round_ops (\<lambda>_. True) (\<lambda>x. x)"
  unfolding f64_arith_def rounds_to_def round_ops_def f64_ops.simps
  by (blast intro: round53_error)

lemma program_channel0_eq:
  assumes "drop_bit 6 cmd AND 0x3 = 0" "drop_bit 4 cmd AND 0x3 = 3"
  shows "program_channel0 fl s cmd lo hi e =
    Some (s\<lparr>access_mode := 3, op_mode := drop_bit 1 cmd AND 0x7, latch_lo := True,
        divisor := of_nat (unat lo + 256 * unat hi),
        pit_period := period_ns fl (of_nat (unat lo + 256 * unat hi)), programmed := True\<rparr>, e)"
  using assms
  by (simp add: program_channel0_def pit_output_def index_at_def pit_command_def pit_data_def update_period_def
      two_byte_divisor Let_def)

text \<open>Programming channel 0 in the two-byte mode sets the divisor to the 16-bit count of the two bytes,
  a count of zero standing for 65536, whatever was programmed before, and starts the timer.\<close>

theorem pit_programs_divisor:
  assumes "drop_bit 6 cmd AND 0x3 = 0" "drop_bit 4 cmd AND 0x3 = 3"
  shows "\<exists>s'. program_channel0 fl s cmd lo hi e = Some (s', e) \<and> unat (divisor s') = unat lo + 256 * unat hi \<and>
    programmed s' \<and> latch_lo s' \<and> op_mode s' = drop_bit 1 cmd AND 0x7 \<and>
    pit_period s' = (let n = unat lo + 256 * unat hi
      in f_mul fl (f_div fl (f_of_nat fl (if n = 0 then 65536 else n)) (PIT_BASE_HZ fl)) (f_of_nat fl 1000000000))"
proof -
  have unat_less: "unat v < 256" for v :: u8 using unsigned_less [of v, where 'a = nat] by simp
  have b: "unat lo + 256 * unat hi < 2 ^ 16" using unat_less [of lo] unat_less [of hi] by simp
  then have n: "unat (of_nat (unat lo + 256 * unat hi) :: u32) = unat lo + 256 * unat hi"
    by (simp only: unat_of_nat) simp
  then have "(of_nat (unat lo + 256 * unat hi) :: u32) = 0 \<longleftrightarrow> unat lo + 256 * unat hi = 0"
    by (metis unat_0 unat_eq_0)
  with n show ?thesis
    by (simp only: program_channel0_eq [OF assms] period_ns_def Let_def)
      (simp del: of_nat_add of_nat_mult)
qed

text \<open>C37: A tick of a programmed timer queues one pulse (line high, then low) for every whole period in the accumulated
  time, up to the rounding of binary64 arithmetic: the loop ends, the accumulator keeps a rest between 0 and one period,
  and the pulses times the period plus that rest are the time accumulated before plus the time elapsed, with an error of at
  most 2n + 3 relative rounding errors for n pulses. The line is low afterwards if it was low before or there
  was a pulse. The time must be so short that a rounding error of it is at most a quarter of a period.\<close>

theorem pit_tick_pulses:
  assumes "f64_arith fl fin val" "pit_irq s" "programmed s" "fin (acc_ns s)" "0 \<le> val (acc_ns s)"
    and "fin (pit_period s)" "0 < val (pit_period s)"
    and "T = val (acc_ns s) + real (env_instant e - last_tick s)" "T < 2 ^ 128"
    and "4 * f64_eps * T \<le> val (pit_period s)" "4 * T \<le> real fuel * val (pit_period s)"
  shows "\<exists>n rest cmds. cmds = env_irqs e @ concat (replicate n (pulse (pit_line s))) \<and>
    pit_tick fuel fl s e = Some (s\<lparr>last_tick := env_next_instant e, acc_ns := rest\<rparr>, e\<lparr>env_irqs := cmds\<rparr>) \<and>
    fin rest \<and> 0 \<le> val rest \<and> val rest < val (pit_period s) \<and>
    \<bar>T - (real n * val (pit_period s) + val rest)\<bar> \<le> (2 * real n + 3) * f64_eps * T \<and>
    (line_level (pit_line s) lv cmds \<longleftrightarrow> n = 0 \<and> line_level (pit_line s) lv (env_irqs e))"
proof -
  have "\<not> f_eq fl (pit_period s) (f_of_nat fl 0)"
    using f64_rules(2) [OF assms(1,6) f64_zero(1) [OF assms(1)]] f64_zero(2) [OF assms(1)] assms(7) by simp
  moreover obtain n rest where n: "pit_fire fuel fl (pit_period s) (pit_line s)
        (f_add fl (acc_ns s) (f_of_nat fl (env_instant e - last_tick s))) (env_irqs e) =
      Some (rest, env_irqs e @ concat (replicate n (pulse (pit_line s))))"
      "fin rest" "0 \<le> val rest" "val rest < val (pit_period s)"
      "\<bar>T - (real n * val (pit_period s) + val rest)\<bar> \<le> (2 * real n + 3) * f64_eps * T"
    using pit_elapsed_fires [OF assms(1,4-11)] by blast
  ultimately have "pit_tick fuel fl s e = Some (s\<lparr>last_tick := env_next_instant e, acc_ns := rest\<rparr>,
      e\<lparr>env_irqs := env_irqs e @ concat (replicate n (pulse (pit_line s)))\<rparr>)"
    using assms(2,3) by (simp add: pit_tick_def Let_def)
  with n(2-5) show ?thesis by (intro exI [of _ n] exI [of _ rest]) (auto simp: line_level_pulses)
qed

text \<open>25 nanoseconds at a period of 10.\<close>

theorem pit_tick_pulses_witness:
  "let s = (new_pit round_ops 0)\<lparr>pit_irq := True, programmed := True, pit_period := 10\<rparr>;
       e = quiet_env\<lparr>env_instant := 25, env_next_instant := 25\<rparr>
   in \<exists>rest. pit_tick 10 round_ops s e = Some (s\<lparr>last_tick := 25, acc_ns := rest\<rparr>, e\<lparr>env_irqs := pulse 0 @ pulse 0\<rparr>) \<and>
     \<bar>rest - 5\<bar> \<le> 1 / 2 ^ 40"
proof -
  let ?s = "(new_pit round_ops 0)\<lparr>pit_irq := True, programmed := True, pit_period := 10\<rparr>"
  let ?e = "quiet_env\<lparr>env_instant := 25, env_next_instant := 25\<rparr>"
  have "acc_ns ?s = 0" by (simp add: new_pit_def round_ops_def round53_def)
  from pit_tick_pulses [OF round_ops_f64, of ?s 25 ?e 10 False] this obtain n rest where
    n: "pit_tick 10 round_ops ?s ?e =
        Some (?s\<lparr>last_tick := 25, acc_ns := rest\<rparr>, ?e\<lparr>env_irqs := concat (replicate n (pulse 0))\<rparr>)"
    "0 \<le> rest" "rest < 10" "\<bar>25 - (real n * 10 + rest)\<bar> \<le> (2 * real n + 3) * f64_eps * 25"
    by (auto simp: new_pit_def quiet_env_def f64_eps_def)
  have "(2 * real n + 3) * f64_eps * 25 \<le> (real n + 1) / 2 ^ 44" by (simp add: f64_eps_def)
  with n(4) have err: "25 - (real n * 10 + rest) \<le> (real n + 1) / 2 ^ 44" "(real n * 10 + rest) - 25 \<le> (real n + 1) / 2 ^ 44"
    unfolding abs_le_iff by linarith+
  then have "real n < 3" "1 < real n" using n(2,3) by (simp add: field_simps, simp add: field_simps)
  then have two: "n = 2" by linarith
  from err [unfolded two] have "\<bar>rest - 5\<bar> \<le> 1 / 2 ^ 40" unfolding abs_le_iff by simp
  with n(1) show ?thesis unfolding Let_def two by (auto simp: numeral_2_eq_2 quiet_env_def)
qed

text \<open>Time is not counted from the moment the timer is programmed but from power-on: programming does
  not restart the clock and no tick before it does, so the first tick after programming queues a pulse
  for every period that fits in the whole time since the timer was created.\<close>

theorem pit_first_tick_counts_from_power_on:
  assumes "drop_bit 6 cmd AND 0x3 = 0" "drop_bit 4 cmd AND 0x3 = 3" "f64_arith fl fin val"
    and "program_channel0 fl ((new_pit fl t0)\<lparr>pit_irq := True\<rparr>) cmd lo hi e = Some (s, e1)"
    and "fin (pit_period s)" "0 < val (pit_period s)" "T = real (env_instant e - t0)" "T < 2 ^ 128"
    and "4 * f64_eps * T \<le> val (pit_period s)" "4 * T \<le> real fuel * val (pit_period s)"
  shows "pit_tick k fl ((new_pit fl t0)\<lparr>pit_irq := True\<rparr>) e0 = Some ((new_pit fl t0)\<lparr>pit_irq := True\<rparr>, e0) \<and>
    (\<exists>n s'. pit_tick fuel fl s e1 = Some (s', e\<lparr>env_irqs := env_irqs e @ concat (replicate n (pulse 0))\<rparr>) \<and>
      \<bar>T - (real n * val (pit_period s) + val (acc_ns s'))\<bar> \<le> (2 * real n + 3) * f64_eps * T \<and> val (acc_ns s') < val (pit_period s))"
proof -
  have s: "pit_irq s" "programmed s" "last_tick s = t0" "acc_ns s = f_of_nat fl 0" "pit_line s = 0" "e1 = e"
    using assms(4) by (auto simp: program_channel0_eq [OF assms(1,2)] new_pit_def)
  note zero = f64_zero [OF assms(3)]
  have ne: "\<not> f_eq fl (pit_period s) (f_of_nat fl 0)" using f64_rules(2) [OF assms(3,5) zero(1)] zero(2) assms(6) by simp
  have T: "T = val (f_of_nat fl 0) + real (env_instant e - t0)" using assms(7) zero(2) by simp
  have "0 \<le> val (f_of_nat fl 0)" using zero(2) by simp
  from pit_elapsed_fires [OF assms(3) zero(1) this assms(5,6) T assms(8-10), of 0 "env_irqs e"] obtain n acc' where
    n: "pit_fire fuel fl (pit_period s) 0 (f_add fl (f_of_nat fl 0) (f_of_nat fl (env_instant e - t0))) (env_irqs e) =
      Some (acc', env_irqs e @ concat (replicate n (pulse 0)))" "val acc' < val (pit_period s)"
      "\<bar>T - (real n * val (pit_period s) + val acc')\<bar> \<le> (2 * real n + 3) * f64_eps * T"
    by blast
  then have "pit_tick fuel fl s e1 = Some (s\<lparr>last_tick := env_next_instant e, acc_ns := acc'\<rparr>,
      e\<lparr>env_irqs := env_irqs e @ concat (replicate n (pulse 0))\<rparr>)"
    using s ne by (simp add: pit_tick_def Let_def)
  with n(2,3) have "\<exists>n s'. pit_tick fuel fl s e1 = Some (s', e\<lparr>env_irqs := env_irqs e @ concat (replicate n (pulse 0))\<rparr>) \<and>
      \<bar>T - (real n * val (pit_period s) + val (acc_ns s'))\<bar> \<le> (2 * real n + 3) * f64_eps * T \<and> val (acc_ns s') < val (pit_period s)"
    by (intro exI [of _ n] exI [of _ "s\<lparr>last_tick := env_next_instant e, acc_ns := acc'\<rparr>"]) simp
  moreover have "pit_tick k fl ((new_pit fl t0)\<lparr>pit_irq := True\<rparr>) e0 = Some ((new_pit fl t0)\<lparr>pit_irq := True\<rparr>, e0)"
    by (simp add: pit_tick_def new_pit_def)
  ultimately show ?thesis by blast
qed

end
