(* ===== verification/Acpi.thy ===== *)
theory Acpi
  imports Ferrum_Prelude
begin

text \<open>
  The ACPI tables that the machine configuration injects into guest memory,
  \<^verbatim>\<open>src/machine_config/acpi/\<close>: FADT, MADT, XSDT and RSDP, built by patching a zeroed vector, and the
  place of each (\<^verbatim>\<open>Binary\<close> of \<^verbatim>\<open>src/machine_config/binary.rs\<close>). The content of the DSDT file is a
  parameter. A patch \<open>(i, j, d)\<close> stands for \<^verbatim>\<open>v[i..j].copy_from_slice(d)\<close>, and for \<^verbatim>\<open>v[i] = b\<close> when \<open>d\<close> is
  the one byte \<open>b\<close>; both panic out of range.
\<close>

section \<open>Binaries and patches\<close>

record boot_binary =
  bin_data :: "u8 list"
  bin_offset :: u64

definition new_binary :: "u8 list \<Rightarrow> u64 \<Rightarrow> boot_binary" where
  "new_binary data off = \<lparr>bin_data = data, bin_offset = off\<rparr>"

definition reset_vector :: boot_binary where
  "reset_vector = \<lparr>bin_data = [0xEA, 0x00, 0x7E, 0x00, 0x00], bin_offset = 0xFFF0\<rparr>"

definition ascii :: "string \<Rightarrow> u8 list" where
  "ascii s = map (\<lambda>c. of_nat (of_char c)) s"

type_synonym patch = "nat \<times> nat \<times> u8 list"

definition byte_patch :: "nat \<Rightarrow> u8 \<Rightarrow> patch" where
  "byte_patch i b = (i, i + 1, [b])"

fun patch_all :: "u8 list \<Rightarrow> patch list \<Rightarrow> u8 list option" where
  "patch_all v [] = Some v"
| "patch_all v ((i, j, d) # ps) = do { v \<leftarrow> put_slice v i j d; patch_all v ps }"

definition checksum :: "u8 list \<Rightarrow> u8" where
  "checksum data = fold (\<lambda>b acc. acc + b) data 0"

section \<open>FADT\<close>

definition fadt_patches :: "u64 \<Rightarrow> patch list" where
  "fadt_patches dsdt_addr =
    [(0, 4, ascii ''FACP''), (4, 8, le32 244), byte_patch 8 2, byte_patch 9 0,
     (10, 16, ascii ''FERRUM''), (16, 24, ascii ''FVM_FADT''), (24, 28, le32 1), (28, 32, ascii ''FVM ''),
     (32, 36, le32 1), (36, 40, le32 0), (40, 44, le32 (ucast dsdt_addr)), (46, 48, le16 9),
     (48, 52, le32 0xB2), byte_patch 52 0xF1, byte_patch 53 0xF0,
     (56, 60, le32 0x0600), (64, 68, le32 0x0604), (76, 80, le32 0x0608), (80, 84, le32 0x0620),
     byte_patch 88 4, byte_patch 89 2, byte_patch 91 4, byte_patch 92 0x10,
     byte_patch 106 0x0D, byte_patch 108 0x32, (109, 111, le16 0), (112, 116, le32 0x03),
     byte_patch 116 1, byte_patch 117 8, byte_patch 118 0, byte_patch 119 1,
     (120, 128, le64 0x0CF9), byte_patch 128 0x0A, (132, 140, le64 0), (140, 148, le64 dsdt_addr)]"

definition build_fadt :: "u64 \<Rightarrow> boot_binary option" where
  "build_fadt dsdt_addr =
     do {
       fadt \<leftarrow> patch_all (replicate 244 0) (fadt_patches dsdt_addr);
       fadt \<leftarrow> set_at fadt 9 (- checksum fadt);
       Some (new_binary fadt 0xE0400)
     }"

section \<open>MADT\<close>

definition madt_length :: "profile \<Rightarrow> u8 \<Rightarrow> u8 option" where
  "madt_length p vcpu_num =
     do { a \<leftarrow> mul_chk p vcpu_num 8; b \<leftarrow> add_chk p 44 a; add_chk p b 12 }"

definition madt_header :: "u8 \<Rightarrow> patch list" where
  "madt_header len =
    [(0, 4, ascii ''APIC''), (4, 8, le32 (ucast len)), byte_patch 8 2, byte_patch 9 0,
     (10, 16, ascii ''FERRUM''), (16, 24, ascii ''FVM_MADT''), (24, 28, le32 1), (28, 32, ascii ''FVM ''),
     (32, 36, le32 1), (36, 40, le32 0xFEE00000), (40, 44, le32 1)]"

definition vcpu_patches :: "nat \<Rightarrow> u8 \<Rightarrow> patch list" where
  "vcpu_patches off vcpu_id =
    [byte_patch off 0, byte_patch (off + 1) 8, byte_patch (off + 2) vcpu_id, byte_patch (off + 3) vcpu_id,
     (off + 4, off + 8, le32 1)]"

fun madt_vcpus :: "u8 list \<Rightarrow> nat \<Rightarrow> u8 list \<Rightarrow> (u8 list \<times> nat) option" where
  "madt_vcpus madt off [] = Some (madt, off)"
| "madt_vcpus madt off (vcpu_id # ids) =
     do { madt \<leftarrow> patch_all madt (vcpu_patches off vcpu_id); madt_vcpus madt (off + 8) ids }"

definition ioapic_patches :: "nat \<Rightarrow> patch list" where
  "ioapic_patches off =
    [byte_patch off 1, byte_patch (off + 1) 12, byte_patch (off + 2) 0, byte_patch (off + 3) 0,
     (off + 4, off + 8, le32 0xFEC00000), (off + 8, off + 12, le32 0)]"

definition vcpu_range :: "u8 \<Rightarrow> u8 list" where
  "vcpu_range n = map of_nat [0..<unat n]"

definition build_madt :: "profile \<Rightarrow> u8 \<Rightarrow> boot_binary option" where
  "build_madt p vcpu_num =
     do {
       len \<leftarrow> madt_length p vcpu_num;
       madt \<leftarrow> patch_all (replicate (unat len) 0) (madt_header len);
       (madt, off) \<leftarrow> madt_vcpus madt 44 (vcpu_range vcpu_num);
       madt \<leftarrow> patch_all madt (ioapic_patches off);
       madt \<leftarrow> set_at madt 9 (- checksum madt);
       Some (new_binary madt 0xE0500)
     }"

section \<open>XSDT and RSDP\<close>

definition xsdt_header :: "usize \<Rightarrow> patch list" where
  "xsdt_header total_len =
    [(0, 4, ascii ''XSDT''), (4, 8, le32 (of_nat total_len)), byte_patch 8 0x01,
     (10, 16, ascii ''FERRUM''), (16, 24, ascii ''FERRUM  ''), (24, 28, le32 1), (28, 32, ascii ''FERR''),
     (32, 36, le32 1)]"

fun xsdt_entries :: "nat \<Rightarrow> u64 list \<Rightarrow> patch list" where
  "xsdt_entries i [] = []"
| "xsdt_entries i (addr # addrs) = (36 + i * 8, 36 + i * 8 + 8, le64 addr) # xsdt_entries (Suc i) addrs"

definition xsdt_checksum :: "u8 list \<Rightarrow> u8" where
  "xsdt_checksum data = - checksum data"

definition build_xsdt :: "u64 list \<Rightarrow> boot_binary option" where
  "build_xsdt table_addrs =
     do {
       let total_len = 36 + length table_addrs * 8;
       xsdt \<leftarrow> patch_all (replicate total_len 0) (xsdt_header total_len @ xsdt_entries 0 table_addrs);
       xsdt \<leftarrow> set_at xsdt 9 (xsdt_checksum xsdt);
       Some (new_binary xsdt 0xE00E0)
     }"

definition rsdp_patches :: "u64 \<Rightarrow> patch list" where
  "rsdp_patches xsdt_addr =
    [(0, 8, ascii ''RSD PTR ''), (9, 15, ascii ''FERRUM''), byte_patch 15 0x02, (16, 20, le32 0),
     (20, 24, le32 36), (24, 32, le64 xsdt_addr), byte_patch 8 0]"

definition build_rsdp :: "u64 \<Rightarrow> boot_binary option" where
  "build_rsdp xsdt_addr =
     do {
       rsdp \<leftarrow> patch_all (replicate 36 0) (rsdp_patches xsdt_addr);
       head \<leftarrow> slice_of rsdp 0 20;
       rsdp \<leftarrow> set_at rsdp 8 (0 - checksum head);
       rsdp \<leftarrow> set_at rsdp 32 0;
       whole \<leftarrow> slice_of rsdp 0 36;
       rsdp \<leftarrow> set_at rsdp 32 (0 - checksum whole);
       Some (new_binary rsdp 0xE0000)
     }"

text \<open>\<^verbatim>\<open>load_dsdt\<close>, with the bytes of the compiled file.\<close>

definition load_dsdt :: "u8 list \<Rightarrow> boot_binary" where
  "load_dsdt dsdt = new_binary dsdt 0xE0800"

section \<open>Lemmas: patches\<close>

definition patches_fit :: "nat \<Rightarrow> patch list \<Rightarrow> bool" where
  "patches_fit n ps \<longleftrightarrow> list_all (\<lambda>(i, j, d). i \<le> j \<and> j \<le> n \<and> length d = j - i) ps"

definition patches_avoid :: "nat \<Rightarrow> nat \<Rightarrow> patch list \<Rightarrow> bool" where
  "patches_avoid i n ps \<longleftrightarrow> list_all (\<lambda>(a, b, d). b \<le> i \<or> i + n \<le> a) ps"

lemma patch_all_total:
  "patches_fit (length v) ps \<Longrightarrow> \<exists>v'. patch_all v ps = Some v' \<and> length v' = length v"
proof (induction ps arbitrary: v)
  case (Cons p ps)
  obtain i j d where p: "p = (i, j, d)" by (cases p)
  with Cons.prems have "put_slice v i j d = Some (copy_at v i d)" and "length (copy_at v i d) = length v"
    by (auto simp: patches_fit_def put_slice_def)
  with Cons.IH [of "copy_at v i d"] Cons.prems p show ?case by (auto simp: patches_fit_def)
qed simp

lemma patch_all_length: "patch_all v ps = Some v' \<Longrightarrow> length v' = length v"
proof (induction ps arbitrary: v)
  case (Cons p ps)
  then show ?case by (cases p) (auto elim!: bind_SomeE simp: put_slice_length)
qed simp

lemma patch_all_append: "patch_all v (ps @ qs) = do { v \<leftarrow> patch_all v ps; patch_all v qs }"
proof (induction ps arbitrary: v)
  case (Cons p ps)
  then show ?case by (cases p) simp
qed simp

lemma patch_all_avoid:
  assumes "patch_all v ps = Some v'" "patches_avoid i n ps" "i + n \<le> length v"
  shows "take n (drop i v') = take n (drop i v)"
  using assms
proof (induction ps arbitrary: v)
  case (Cons p ps)
  obtain a b d where p: "p = (a, b, d)" by (cases p)
  from Cons.prems p obtain v1 where v1: "put_slice v a b d = Some v1" "patch_all v1 ps = Some v'"
    by (auto elim!: bind_SomeE)
  have "take n (drop i v1) = take n (drop i v)"
    using v1(1) Cons.prems(2,3) p
    by (auto simp: put_slice_def patches_avoid_def split: if_splits intro!: copy_at_disjoint)
  with Cons.IH [OF v1(2)] Cons.prems put_slice_length [OF v1(1)] show ?case
    by (simp add: patches_avoid_def)
qed simp

text \<open>A field holds what was patched there, when no later patch overlaps it.\<close>

lemma patch_all_field:
  assumes "patch_all v (ps @ (i, j, d) # qs) = Some v'" "patches_avoid i (j - i) qs"
  shows "take (j - i) (drop i v') = d" "length d = j - i" "j \<le> length v'" "i \<le> j"
proof -
  from assms(1) obtain v1 v2 where v: "patch_all v ps = Some v1" "put_slice v1 i j d = Some v2"
      "patch_all v2 qs = Some v'"
    by (auto simp: patch_all_append elim!: bind_SomeE)
  from v(2) have *: "i \<le> j" "j \<le> length v1" "length d = j - i" "v2 = copy_at v1 i d"
    by (auto simp: put_slice_def split: if_splits)
  then have "take (j - i) (drop i v2) = d" using copy_at_same [of i d v1] by simp
  moreover have "take (j - i) (drop i v') = take (j - i) (drop i v2)"
    using patch_all_avoid [OF v(3) assms(2)] * put_slice_length [OF v(2)] by simp
  ultimately show "take (j - i) (drop i v') = d" by simp
  show "length d = j - i" "i \<le> j" using * by auto
  show "j \<le> length v'" using * patch_all_length [OF v(3)] put_slice_length [OF v(2)] by simp
qed

section \<open>Lemmas: checksums\<close>

lemma fold_add_sum_list: "fold (\<lambda>b acc. acc + b) xs s = s + sum_list xs" for s :: "'a::comm_monoid_add"
  by (induction xs arbitrary: s) (auto simp: ac_simps)

lemma checksum_sum_list: "checksum xs = sum_list xs"
  by (simp add: checksum_def fold_add_sum_list)

lemma sum_list_set: "i < length xs \<Longrightarrow> sum_list (xs[i := x]) = sum_list xs - xs ! i + x"
  for x :: "'a::ab_group_add"
proof (induction xs arbitrary: i)
  case (Cons a xs)
  then show ?case by (cases i) (auto simp: algebra_simps)
qed simp

lemma checksum_fixed:
  assumes "i < length xs" "xs ! i = 0"
  shows "checksum (xs[i := - checksum xs]) = 0"
  using assms by (simp add: checksum_sum_list sum_list_set)

lemma sealed_field:
  assumes "i + n \<le> 9 \<or> 9 < i"
  shows "take n (drop i (t[9 := x])) = take n (drop i t)"
  using assms by (auto intro!: nth_equalityI simp: nth_list_update)

section \<open>FADT, XSDT, RSDP\<close>

lemma fadt_fits: "patches_fit 244 (fadt_patches a)"
  by (simp add: patches_fit_def fadt_patches_def byte_patch_def ascii_def)

lemma build_fadt_spec:
  obtains t where "build_fadt a = Some (new_binary (t[9 := - checksum t]) 0xE0400)" "length t = 244" "t ! 9 = 0"
    "patch_all (replicate 244 0) (fadt_patches a) = Some t"
proof -
  obtain t where t: "patch_all (replicate 244 0) (fadt_patches a) = Some t" "length t = 244"
    using patch_all_total [of "replicate 244 0" "fadt_patches a"] fadt_fits by auto
  have "take (10 - 9) (drop 9 t) = [0]"
    by (rule patch_all_field(1) [of _ "take 3 (fadt_patches a)" 9 10 "[0]" "drop 4 (fadt_patches a)"])
      (use t in \<open>simp_all add: fadt_patches_def byte_patch_def patches_avoid_def\<close>)
  then have "t ! 9 = 0" using t(2) by (simp add: take_Suc hd_drop_conv_nth)
  with t show thesis by (intro that) (simp_all add: build_fadt_def set_at_def)
qed

lemma xsdt_entries_fit: "patches_fit (36 + (i + length as) * 8) (xsdt_entries i as)"
proof (induction as arbitrary: i)
  case (Cons a as)
  show ?case using Cons.IH [of "Suc i"] by (simp add: patches_fit_def algebra_simps)
qed (simp add: patches_fit_def)

lemma xsdt_entries_avoid: "k + n \<le> 36 + i * 8 \<Longrightarrow> patches_avoid k n (xsdt_entries i as)"
  by (induction as arbitrary: i) (auto simp: patches_avoid_def)

lemma xsdt_entries_split:
  "k < length as \<Longrightarrow>
    xsdt_entries i as = xsdt_entries i (take k as) @ (36 + (i + k) * 8, 36 + (i + k) * 8 + 8, le64 (as ! k)) #
      xsdt_entries (i + Suc k) (drop (Suc k) as)"
proof (induction as arbitrary: i k)
  case (Cons a as)
  then show ?case by (cases k) auto
qed simp

lemma xsdt_fits: "patches_fit (36 + length as * 8) (xsdt_header (36 + length as * 8) @ xsdt_entries 0 as)"
  using xsdt_entries_fit [of 0 as]
  by (simp add: patches_fit_def xsdt_header_def byte_patch_def ascii_def)

lemma build_xsdt_spec:
  obtains t where "build_xsdt as = Some (new_binary (t[9 := - checksum t]) 0xE00E0)"
    "length t = 36 + length as * 8" "t ! 9 = 0"
    "patch_all (replicate (36 + length as * 8) 0) (xsdt_header (36 + length as * 8) @ xsdt_entries 0 as) = Some t"
proof -
  let ?n = "36 + length as * 8" and ?ps = "xsdt_header (36 + length as * 8) @ xsdt_entries 0 as"
  obtain t where t: "patch_all (replicate ?n 0) ?ps = Some t" "length t = ?n"
    using patch_all_total [of "replicate ?n 0" ?ps] xsdt_fits by auto
  have "patches_avoid 9 1 ?ps"
    using xsdt_entries_avoid [of 9 1 0 as] by (simp add: patches_avoid_def xsdt_header_def byte_patch_def)
  from patch_all_avoid [OF t(1) this] have "take 1 (drop 9 t) = [0]" by simp
  then have "t ! 9 = 0" using t(2) by (simp add: take_Suc hd_drop_conv_nth)
  with t show thesis
    by (intro that) (simp_all add: build_xsdt_def set_at_def xsdt_checksum_def Let_def del: replicate.simps)
qed

text \<open>The two checksums of the RSDP: bytes 0 to 19, and the whole table.\<close>

lemma rsdp_fits: "patches_fit 36 (rsdp_patches a)"
  by (simp add: patches_fit_def rsdp_patches_def byte_patch_def ascii_def)

lemma build_rsdp_spec:
  obtains t where "build_rsdp a = Some (new_binary t 0xE0000)" "length t = 36"
    "checksum (take 20 t) = 0" "checksum t = 0" "take 8 t = ascii ''RSD PTR ''"
    "from_le (take 8 (drop 24 t)) = a"
proof -
  obtain r where r: "patch_all (replicate 36 0) (rsdp_patches a) = Some r" "length r = 36"
    using patch_all_total [of "replicate 36 0" "rsdp_patches a"] rsdp_fits by auto
  have "take (9 - 8) (drop 8 r) = [0]"
    by (rule patch_all_field(1) [of _ "take 6 (rsdp_patches a)" 8 9 "[0]" "[]"])
      (use r in \<open>simp_all add: rsdp_patches_def byte_patch_def patches_avoid_def\<close>)
  then have r8: "r ! 8 = 0" using r(2) by (simp add: take_Suc hd_drop_conv_nth)
  define r1 where "r1 = r[8 := - checksum (take 20 r)]"
  define t where "t = r1[32 := - checksum (r1[32 := 0])]"
  have "checksum (take 20 r1) = 0"
    using checksum_fixed [of 8 "take 20 r"] r r8 by (simp add: r1_def take_update_swap)
  then have c20: "checksum (take 20 t) = 0" by (simp add: t_def)
  have "checksum ((r1[32 := 0])[32 := - checksum (r1[32 := 0])]) = 0"
    by (rule checksum_fixed) (simp_all add: r1_def r(2))
  then have c: "checksum t = 0" by (simp add: t_def)
  have f1: "take (8 - 0) (drop 0 r) = ascii ''RSD PTR ''"
    by (rule patch_all_field(1) [of _ "[]" 0 8 _ "tl (rsdp_patches a)"])
      (use r in \<open>simp_all add: rsdp_patches_def byte_patch_def patches_avoid_def\<close>)
  have f2: "take (32 - 24) (drop 24 r) = le64 a"
    by (rule patch_all_field(1) [of _ "take 5 (rsdp_patches a)" 24 32 _ "drop 6 (rsdp_patches a)"])
      (use r in \<open>simp_all add: rsdp_patches_def byte_patch_def patches_avoid_def\<close>)
  have "take 8 t = take 8 r" "take 8 (drop 24 t) = take 8 (drop 24 r)"
    by (auto intro!: nth_equalityI simp: t_def r1_def nth_list_update)
  with f1 f2 c20 c r show thesis
    by (intro that [of t]) (simp_all add: build_rsdp_def slice_of_def set_at_def t_def r1_def)
qed

section \<open>MADT\<close>

text \<open>What an operating system reads off the table: a list of entries, each with its type and length.\<close>

datatype madt_entry = Lapic (acpi_uid: u8) (apic_id: u8) (lapic_flags: u32)
  | Ioapic (ioapic_id: u8) (ioapic_addr: u32) (gsi_base: u32) | OtherEntry u8

definition decode_entry :: "u8 \<Rightarrow> u8 list \<Rightarrow> madt_entry" where
  "decode_entry t body =
     (if t = 0 then Lapic (body ! 0) (body ! 1) (from_le (take 4 (drop 2 body)))
      else if t = 1 then Ioapic (body ! 0) (from_le (take 4 (drop 2 body))) (from_le (take 4 (drop 6 body)))
      else OtherEntry t)"

fun parse_entries :: "u8 list \<Rightarrow> madt_entry list option" where
  "parse_entries [] = Some []"
| "parse_entries [t] = None"
| "parse_entries (t # l # xs) =
     (if unat l < 2 \<or> length xs < unat l - 2 then None
      else do {
        es \<leftarrow> parse_entries (drop (unat l - 2) xs);
        Some (decode_entry t (take (unat l - 2) xs) # es)
      })"

definition cpu_entry :: "u8 \<Rightarrow> u8 list" where
  "cpu_entry i = [0, 8, i, i] @ le32 1"

definition ioapic_entry :: "u8 list" where
  "ioapic_entry = [1, 12, 0, 0] @ le32 0xFEC00000 @ le32 0"

lemma length_cpu_entry [simp]: "length (cpu_entry i) = 8"
  by (simp add: cpu_entry_def)

lemma put_block:
  assumes "length mid = length d"
  shows "put_slice (pre @ mid @ post) (length pre) (length pre + length d) d = Some (pre @ d @ post)"
  using assms by (simp add: put_slice_def copy_at_def)

text \<open>The MADT is patched from its start to its end without a gap, so it is a concatenation.\<close>

fun consecutive :: "nat \<Rightarrow> u8 list list \<Rightarrow> patch list" where
  "consecutive off [] = []"
| "consecutive off (d # ds) = (off, off + length d, d) # consecutive (off + length d) ds"

lemma patch_consecutive:
  "length mid = length (concat ds) \<Longrightarrow> off = length pre \<Longrightarrow>
    patch_all (pre @ mid @ post) (consecutive off ds) = Some (pre @ concat ds @ post)"
proof (induction ds arbitrary: pre mid off)
  case (Cons d ds)
  from Cons.prems(1) have "length (take (length d) mid) = length d" by simp
  then obtain a b where mid: "mid = a @ b" "length a = length d"
    by (metis append_take_drop_id)
  have "put_slice (pre @ mid @ post) off (off + length d) d = Some (pre @ d @ b @ post)"
    using Cons.prems(2) mid put_block [of a d pre "b @ post"] by simp
  with Cons.IH [of b "off + length d" "pre @ d"] Cons.prems mid show ?case by simp
qed simp

lemma vcpu_consecutive: "vcpu_patches off i = consecutive off [[0], [8], [i], [i], le32 1]"
  by (simp add: vcpu_patches_def byte_patch_def)

lemma ioapic_consecutive:
  "ioapic_patches off = consecutive off [[1], [12], [0], [0], le32 0xFEC00000, le32 0]"
  by (simp add: ioapic_patches_def byte_patch_def)

definition madt_fields :: "u8 \<Rightarrow> u8 list list" where
  "madt_fields len = [ascii ''APIC'', le32 (ucast len), [2], [0], ascii ''FERRUM'', ascii ''FVM_MADT'', le32 1,
     ascii ''FVM '', le32 1, le32 0xFEE00000, le32 1]"

lemma header_consecutive: "madt_header len = consecutive 0 (madt_fields len)"
  by (simp add: madt_header_def madt_fields_def byte_patch_def ascii_def)

lemma length_madt_fields: "length (concat (madt_fields len)) = 44"
  by (simp add: madt_fields_def ascii_def)

lemma madt_vcpus_blocks:
  "length mid = 8 * length ids \<Longrightarrow> off = length pre \<Longrightarrow>
    madt_vcpus (pre @ mid @ post) off ids =
      Some (pre @ concat (map cpu_entry ids) @ post, off + 8 * length ids)"
proof (induction ids arbitrary: pre mid off)
  case (Cons i ids)
  from Cons.prems(1) have "length (take 8 mid) = 8" by simp
  then obtain a b where mid: "mid = a @ b" "length a = 8"
    by (metis append_take_drop_id)
  have "patch_all (pre @ a @ b @ post) (vcpu_patches off i) = Some (pre @ cpu_entry i @ b @ post)"
    unfolding vcpu_consecutive
    by (subst patch_consecutive) (use Cons.prems mid in \<open>simp_all add: cpu_entry_def\<close>)
  with Cons.IH [of b "off + 8" "pre @ cpu_entry i"] Cons.prems mid show ?case by simp
qed simp

lemma length_vcpu_range [simp]: "length (vcpu_range n) = unat n"
  by (simp add: vcpu_range_def)

definition madt_body :: "u8 \<Rightarrow> u8 \<Rightarrow> u8 list" where
  "madt_body len n = concat (madt_fields len) @ concat (map cpu_entry (vcpu_range n)) @ ioapic_entry"

lemma madt_length_fits:
  assumes "unat n < 25"
  shows "madt_length p n = Some (of_nat (56 + 8 * unat n))"
proof -
  have n8: "unat (n * 8) = unat n * 8" using assms by (simp add: unat_word_ariths)
  moreover have "unat (44 + n * 8) = 44 + unat n * 8" using assms n8 by (simp add: unat_word_ariths)
  ultimately have "madt_length p n = Some (44 + n * 8 + 12)"
    using assms by (simp add: madt_length_def mul_chk_def add_chk_def)
  then show ?thesis by (simp add: algebra_simps)
qed

lemma length_concat_cpus: "length (concat (map cpu_entry ids)) = 8 * length ids"
  by (induction ids) auto

lemma build_madt_body:
  assumes "unat n < 25"
  defines "len \<equiv> of_nat (56 + 8 * unat n)"
  shows "build_madt p n = Some (new_binary ((madt_body len n)[9 := - checksum (madt_body len n)]) 0xE0500)"
    "length (madt_body len n) = 56 + 8 * unat n" "madt_body len n ! 9 = 0"
proof -
  have ulen: "unat len = 56 + 8 * unat n"
    unfolding len_def by (rule unat_of_nat_less) (use assms in simp)
  let ?h = "concat (madt_fields len)" and ?k = "8 * unat n"
  have zeros: "replicate (unat len) (0 :: u8) = [] @ replicate 44 0 @ replicate ?k 0 @ replicate 12 0"
    using ulen by (simp add: replicate_add [symmetric] del: replicate.simps)
  have 1: "patch_all (replicate (unat len) 0) (madt_header len) = Some (?h @ replicate ?k 0 @ replicate 12 0)"
    unfolding zeros header_consecutive
    by (subst patch_consecutive) (simp_all only: length_madt_fields length_replicate list.size append_Nil)
  have 2: "madt_vcpus (?h @ replicate ?k 0 @ replicate 12 0) 44 (vcpu_range n)
      = Some (?h @ concat (map cpu_entry (vcpu_range n)) @ replicate 12 0, 44 + ?k)"
    by (subst madt_vcpus_blocks) (simp_all add: length_madt_fields del: replicate.simps)
  have 3: "patch_all (?h @ concat (map cpu_entry (vcpu_range n)) @ replicate 12 0) (ioapic_patches (44 + ?k))
      = Some (madt_body len n)"
    using patch_consecutive [of "replicate 12 0" "[[1], [12], [0], [0], le32 0xFEC00000, le32 0]" "44 + ?k"
        "?h @ concat (map cpu_entry (vcpu_range n))" "[]"]
    by (simp add: ioapic_consecutive length_madt_fields length_concat_cpus madt_body_def ioapic_entry_def
        del: replicate.simps)
  show l: "length (madt_body len n) = 56 + ?k"
    unfolding madt_body_def length_append length_madt_fields length_concat_cpus
    by (simp add: ioapic_entry_def)
  show "madt_body len n ! 9 = 0"
    by (simp add: madt_body_def madt_fields_def ascii_def nth_append)
  show "build_madt p n = Some (new_binary ((madt_body len n)[9 := - checksum (madt_body len n)]) 0xE0500)"
    using 1 2 3 l madt_length_fits [OF assms(1), of p, folded len_def]
    by (simp add: build_madt_def set_at_def del: replicate.simps)
qed

lemma parse_cpu: "parse_entries (cpu_entry i @ xs) = map_option ((#) (Lapic i i 1)) (parse_entries xs)"
proof -
  have "from_le (le32 1) = (1 :: u32)" by simp
  then show ?thesis
    by (simp add: cpu_entry_def decode_entry_def map_conv_bind_option comp_def)
qed

lemma parse_ioapic: "parse_entries ioapic_entry = Some [Ioapic 0 0xFEC00000 0]"
proof -
  have "from_le (le32 0xFEC00000) = (0xFEC00000 :: u32)" "from_le (le32 0) = (0 :: u32)"
    by (rule from_le_to_le_full, simp)+
  then show ?thesis by (simp add: ioapic_entry_def decode_entry_def)
qed

lemma parse_cpus:
  "parse_entries (concat (map cpu_entry ids) @ ioapic_entry) =
    Some (map (\<lambda>i. Lapic i i 1) ids @ [Ioapic 0 0xFEC00000 0])"
  by (induction ids) (simp_all add: parse_cpu parse_ioapic del: parse_entries.simps)

text \<open>The patches only succeed inside the vector, which an 8-bit length cannot make long enough for 25
  processors.\<close>

lemma patch_all_fit: "patch_all v ps = Some v' \<Longrightarrow> patches_fit (length v) ps"
proof (induction ps arbitrary: v)
  case (Cons p ps)
  obtain i j d where p: "p = (i, j, d)" by (cases p)
  with Cons.prems obtain v1 where v1: "put_slice v i j d = Some v1" "patch_all v1 ps = Some v'"
    by (auto elim!: bind_SomeE)
  with Cons.IH [OF v1(2)] put_slice_length [OF v1(1)] p show ?case
    by (auto simp: patches_fit_def put_slice_def split: if_splits)
qed (simp add: patches_fit_def)

lemma madt_vcpus_offset:
  "madt_vcpus v off ids = Some (v', off') \<Longrightarrow> off' = off + 8 * length ids \<and> length v' = length v"
proof (induction ids arbitrary: v off)
  case (Cons i ids)
  from Cons.prems obtain v1 where "patch_all v (vcpu_patches off i) = Some v1" "madt_vcpus v1 (off + 8) ids = Some (v', off')"
    by (auto elim!: bind_SomeE)
  with Cons.IH [of v1 "off + 8"] patch_all_length [of v "vcpu_patches off i" v1] show ?case by simp
qed simp

lemma build_madt_bound: "build_madt p n = Some b \<Longrightarrow> unat n < 25"
proof -
  assume "build_madt p n = Some b"
  then obtain len v v1 off v2 where s: "patch_all (replicate (unat len) 0) (madt_header len) = Some v"
      "madt_vcpus v 44 (vcpu_range n) = Some (v1, off)" "patch_all v1 (ioapic_patches off) = Some v2"
    by (auto simp: build_madt_def elim!: bind_SomeE)
  have "length v1 = unat len" "off = 44 + 8 * unat n"
    using madt_vcpus_offset [OF s(2)] patch_all_length [OF s(1)] by simp_all
  moreover have "off + 12 \<le> length v1"
    using patch_all_fit [OF s(3)] by (simp add: patches_fit_def ioapic_patches_def)
  ultimately show "unat n < 25"
    using unat_less_length [of len] by simp
qed

section \<open>Fields of the built tables\<close>

lemma sealed_checksum: "length t = n \<Longrightarrow> 9 < n \<Longrightarrow> t ! 9 = 0 \<Longrightarrow> checksum (t[9 := - checksum t]) = 0"
  by (rule checksum_fixed) simp_all

lemma fadt_valid:
  obtains b where "build_fadt a = Some b" "bin_offset b = 0xE0400" "checksum (bin_data b) = 0"
    "length (bin_data b) = 244" "from_le (take 8 (drop 140 (bin_data b))) = a"
proof -
  obtain t where t: "build_fadt a = Some (new_binary (t[9 := - checksum t]) 0xE0400)" "length t = 244" "t ! 9 = 0"
      "patch_all (replicate 244 0) (fadt_patches a) = Some t"
    by (rule build_fadt_spec)
  have "take (148 - 140) (drop 140 t) = le64 a"
    by (rule patch_all_field(1) [of "replicate 244 0" "butlast (fadt_patches a)" 140 148 "le64 a" "[]"])
      (use t(4) in \<open>simp_all add: fadt_patches_def patches_avoid_def\<close>)
  then have "from_le (take 8 (drop 140 (t[9 := - checksum t]))) = a" by (simp add: sealed_field)
  with t(1-3) show thesis
    by (intro that [OF t(1)]) (simp_all add: new_binary_def sealed_checksum [of t 244])
qed

lemma xsdt_valid:
  obtains b where "build_xsdt as = Some b" "bin_offset b = 0xE00E0" "checksum (bin_data b) = 0"
    "length (bin_data b) = 36 + length as * 8"
    "\<forall>k < length as. from_le (take 8 (drop (36 + k * 8) (bin_data b))) = as ! k"
proof -
  let ?n = "36 + length as * 8"
  obtain t where t: "build_xsdt as = Some (new_binary (t[9 := - checksum t]) 0xE00E0)" "length t = ?n" "t ! 9 = 0"
      "patch_all (replicate ?n 0) (xsdt_header ?n @ xsdt_entries 0 as) = Some t"
    by (rule build_xsdt_spec)
  have e: "from_le (take 8 (drop (36 + k * 8) (t[9 := - checksum t]))) = as ! k" if k: "k < length as" for k
  proof -
    let ?i = "36 + k * 8"
    have "patch_all (replicate ?n 0) ((xsdt_header ?n @ xsdt_entries 0 (take k as)) @ (?i, ?i + 8, le64 (as ! k)) #
        xsdt_entries (Suc k) (drop (Suc k) as)) = Some t"
      using t(4) xsdt_entries_split [OF k, of 0] by (simp del: replicate.simps)
    moreover have "patches_avoid ?i (?i + 8 - ?i) (xsdt_entries (Suc k) (drop (Suc k) as))"
      using xsdt_entries_avoid [of ?i 8 "Suc k"] by simp
    ultimately have "take (?i + 8 - ?i) (drop ?i t) = le64 (as ! k)" by (rule patch_all_field(1))
    then show ?thesis by (simp add: sealed_field)
  qed
  show thesis
    by (rule that [OF t(1)]) (use e in \<open>simp_all add: new_binary_def sealed_checksum [OF t(2) _ t(3)] t(2) sealed_field\<close>)
qed

lemma madt_valid:
  assumes "unat n < 25"
  obtains b where "build_madt p n = Some b" "bin_offset b = 0xE0500" "checksum (bin_data b) = 0"
    "length (bin_data b) = 56 + 8 * unat n"
    "parse_entries (drop 44 (bin_data b)) = Some (map (\<lambda>i. Lapic i i 1) (vcpu_range n) @ [Ioapic 0 0xFEC00000 0])"
proof -
  let ?b = "madt_body (of_nat (56 + 8 * unat n)) n"
  note b = build_madt_body [OF assms]
  have "drop 44 ?b = concat (map cpu_entry (vcpu_range n)) @ ioapic_entry"
    by (simp only: madt_body_def drop_append length_madt_fields) (simp add: length_madt_fields)
  then have "parse_entries (drop 44 (?b[9 := - checksum ?b])) =
      Some (map (\<lambda>i. Lapic i i 1) (vcpu_range n) @ [Ioapic 0 0xFEC00000 0])"
    by (simp add: drop_update_cancel parse_cpus)
  then show thesis
    by (intro that [OF b(1) [of p]]) (use b in \<open>simp_all add: new_binary_def checksum_fixed\<close>)
qed

section \<open>Properties\<close>

text \<open>C32: The MADT can be built exactly for up to 24 processors: its length is computed in eight bits, so
  for more the build panics (on the overflow, or on a patch past the end of the shorter vector).\<close>

theorem madt_processor_limit: "(\<exists>b. build_madt p n = Some b) \<longleftrightarrow> unat n < 25"
  using build_madt_bound [of p n] madt_valid [of n p] by metis

text \<open>C31: The MADT that is built describes the machine: its bytes sum to zero, and an operating system
  that walks its entries finds one enabled local APIC for each processor, numbered from 0, and one I/O
  APIC at 0xFEC00000 with interrupt base 0.\<close>

theorem madt_describes_processors:
  assumes "unat n < 25"
  shows "\<exists>b. build_madt p n = Some b \<and> checksum (bin_data b) = 0 \<and>
    parse_entries (drop 44 (bin_data b)) =
      Some (map (\<lambda>i. Lapic (of_nat i) (of_nat i) 1) [0..<unat n] @ [Ioapic 0 0xFEC00000 0])"
proof -
  obtain b where "build_madt p n = Some b" "checksum (bin_data b) = 0"
      "parse_entries (drop 44 (bin_data b)) = Some (map (\<lambda>i. Lapic i i 1) (vcpu_range n) @ [Ioapic 0 0xFEC00000 0])"
    by (rule madt_valid [OF assms])
  then show ?thesis by (simp add: vcpu_range_def comp_def)
qed

theorem madt_describes_processors_witness:
  "\<exists>b. build_madt Dev 2 = Some b \<and>
     parse_entries (drop 44 (bin_data b)) = Some [Lapic 0 0 1, Lapic 1 1 1, Ioapic 0 0xFEC00000 0]"
  using madt_describes_processors [of 2 Dev] by (auto simp: upt_rec)

end
