(* ===== verification/Machine_Config.thy ===== *)
theory Machine_Config
  imports Acpi Irq
begin

text \<open>
  The machine configuration, \<^verbatim>\<open>src/machine_config/\<close>: the memory map handed to the firmware
  (\<^verbatim>\<open>mem_map.rs\<close>), \<^verbatim>\<open>inject_memmap\<close> and \<^verbatim>\<open>inject_acpi_tables\<close> of \<^verbatim>\<open>machine_config.rs\<close>, and the memory and
  boot part of the configuration that \<^verbatim>\<open>src/main.rs\<close> builds. The device lists of the configuration are
  the two type parameters.
\<close>

section \<open>Memory map entries\<close>

datatype mem_type =
    Reserved | LoaderCode | LoaderData | BootServicesCode | BootServicesData | RuntimeServicesCode
  | RuntimeServicesData | ConventionalMemory | Unusable | ACPIReclaimMemory | ACPIMemoryNVS | MMIO

primrec mem_type_code :: "mem_type \<Rightarrow> u32" where
  "mem_type_code Reserved = 0"
| "mem_type_code LoaderCode = 1"
| "mem_type_code LoaderData = 2"
| "mem_type_code BootServicesCode = 3"
| "mem_type_code BootServicesData = 4"
| "mem_type_code RuntimeServicesCode = 5"
| "mem_type_code RuntimeServicesData = 6"
| "mem_type_code ConventionalMemory = 7"
| "mem_type_code Unusable = 8"
| "mem_type_code ACPIReclaimMemory = 9"
| "mem_type_code ACPIMemoryNVS = 10"
| "mem_type_code MMIO = 11"

lemma mem_type_code_inj: "mem_type_code a = mem_type_code b \<Longrightarrow> a = b"
  by (cases a; cases b) simp_all

instantiation mem_type :: linorder
begin

definition less_eq_mem_type :: "mem_type \<Rightarrow> mem_type \<Rightarrow> bool" where
  "less_eq_mem_type a b \<longleftrightarrow> mem_type_code a \<le> mem_type_code b"

definition less_mem_type :: "mem_type \<Rightarrow> mem_type \<Rightarrow> bool" where
  "less_mem_type a b \<longleftrightarrow> mem_type_code a < mem_type_code b"

instance
  by standard (auto simp: less_eq_mem_type_def less_mem_type_def intro: mem_type_code_inj)

end

record mem_map =
  map_start :: u64
  map_end :: u64
  map_type :: u32

definition mem_map_as_bytes :: "mem_map \<Rightarrow> u8 list" where
  "mem_map_as_bytes e = le64 (map_start e) @ le64 (map_end e) @ le32 (map_type e)"

record mem_map_header =
  mgk_num :: u32
  map_length :: u32

definition mem_map_header_as_bytes :: "mem_map_header \<Rightarrow> u8 list" where
  "mem_map_header_as_bytes h = le32 (mgk_num h) @ le32 (map_length h)"

section \<open>The configuration\<close>

record mem_config =
  cfg_size :: usize
  cfg_offset :: u64

record ('io, 'mm) machine_config =
  memory_regions :: "mem_config list"
  binaries :: "boot_binary list"
  io_devices :: "'io list"
  mmio_devices :: "'mm list"
  cfg_irq_map :: "irq_map list"
  code_entry :: usize
  total_vcpus :: u8

definition APIC_RESERVED_START :: u64 where "APIC_RESERVED_START = 0xFEC00000"
definition APIC_RESERVED_END :: u64 where "APIC_RESERVED_END = 0xFEE01000"

definition entry :: "u64 \<Rightarrow> u64 \<Rightarrow> mem_type \<Rightarrow> mem_map" where
  "entry s e t = \<lparr>map_start = s, map_end = e, map_type = mem_type_code t\<rparr>"

definition memmap_entries :: "u64 \<Rightarrow> mem_map list" where
  "memmap_entries ram_end =
    [entry 0x00000 0x00500 Reserved, entry 0x00500 0x9F000 ConventionalMemory,
     entry 0x9F000 0xA0000 ACPIReclaimMemory, entry 0xA0000 0x100000 Reserved,
     entry 0x100000 0x200000 BootServicesCode, entry 0x200000 0x3000000 ConventionalMemory,
     entry 0x3000000 0x4000000 RuntimeServicesData, entry 0x4000000 APIC_RESERVED_START ConventionalMemory,
     entry APIC_RESERVED_START APIC_RESERVED_END Reserved,
     entry APIC_RESERVED_END ram_end ConventionalMemory,
     entry 0x400000000 0x400010000 MMIO]"

definition memmap_bytes :: "u64 \<Rightarrow> u8 list" where
  "memmap_bytes ram_end =
     (let mm = sort_key map_start (memmap_entries ram_end)
      in mem_map_header_as_bytes \<lparr>mgk_num = 0xFE02FE02, map_length = of_nat (length mm)\<rparr> @
         concat (map mem_map_as_bytes mm))"

definition inject_memmap :: "profile \<Rightarrow> ('io, 'mm) machine_config \<Rightarrow> ('io, 'mm) machine_config option" where
  "inject_memmap p cfg =
     do {
       r0 \<leftarrow> index_at (memory_regions cfg) 0;
       ram_end \<leftarrow> sub_chk p (of_nat (cfg_size r0)) (cfg_offset r0);
       Some (cfg\<lparr>binaries := binaries cfg @ [\<lparr>bin_data = memmap_bytes ram_end, bin_offset = 0x7000\<rparr>]\<rparr>)
     }"

definition inject_acpi_tables ::
    "profile \<Rightarrow> u8 list \<Rightarrow> ('io, 'mm) machine_config \<Rightarrow> ('io, 'mm) machine_config option" where
  "inject_acpi_tables p dsdt cfg =
     do {
       let dsdt_bin = load_dsdt dsdt;
       fadt_bin \<leftarrow> build_fadt (bin_offset dsdt_bin);
       madt_bin \<leftarrow> build_madt p (total_vcpus cfg);
       xsdt_bin \<leftarrow> build_xsdt [bin_offset fadt_bin, bin_offset madt_bin];
       rsdp_bin \<leftarrow> build_rsdp (bin_offset xsdt_bin);
       Some (cfg\<lparr>binaries := binaries cfg @ [dsdt_bin, fadt_bin, madt_bin, rsdp_bin, xsdt_bin]\<rparr>)
     }"

text \<open>The configuration of \<^verbatim>\<open>src/main.rs\<close>, with the contents of the two firmware files and of the DSDT.\<close>

definition main_config :: "u8 list \<Rightarrow> u8 list \<Rightarrow> 'io list \<Rightarrow> 'mm list \<Rightarrow> ('io, 'mm) machine_config" where
  "main_config firmware firmware64 ios mms =
     \<lparr>memory_regions = [\<lparr>cfg_size = 4 * 1024 * 1024 * 1024, cfg_offset = 0x0000\<rparr>],
      binaries = [new_binary firmware 0x7E00, new_binary firmware64 0x100000, reset_vector],
      io_devices = ios, mmio_devices = mms, cfg_irq_map = default_map, code_entry = 0xFFF0,
      total_vcpus = 8\<rparr>"

definition main_boot_config ::
    "profile \<Rightarrow> u8 list \<Rightarrow> u8 list \<Rightarrow> u8 list \<Rightarrow> 'io list \<Rightarrow> 'mm list \<Rightarrow> ('io, 'mm) machine_config option" where
  "main_boot_config p firmware firmware64 dsdt ios mms =
     do { cfg \<leftarrow> inject_memmap p (main_config firmware firmware64 ios mms); inject_acpi_tables p dsdt cfg }"

section \<open>Specification: reading the map back\<close>

text \<open>What the firmware does with the bytes: a count, then that many 20-byte entries.\<close>

definition decode_map_entry :: "u8 list \<Rightarrow> mem_map" where
  "decode_map_entry b = \<lparr>map_start = from_le (take 8 b), map_end = from_le (take 8 (drop 8 b)),
     map_type = from_le (take 4 (drop 16 b))\<rparr>"

primrec decode_map_entries :: "nat \<Rightarrow> u8 list \<Rightarrow> mem_map list option" where
  "decode_map_entries 0 bs = Some []"
| "decode_map_entries (Suc n) bs =
     (if length bs < 20 then None
      else map_option ((#) (decode_map_entry bs)) (decode_map_entries n (drop 20 bs)))"

definition decode_memmap :: "u8 list \<Rightarrow> mem_map list option" where
  "decode_memmap bs =
     (if length bs < 8 \<or> from_le (take 4 bs) \<noteq> (0xFE02FE02 :: u32) then None
      else decode_map_entries (unat (from_le (take 4 (drop 4 bs)) :: u32)) (drop 8 bs))"

text \<open>Ascending, without overlap, and without inverted entries.\<close>

fun map_ordered :: "mem_map list \<Rightarrow> bool" where
  "map_ordered (a # b # es) \<longleftrightarrow> map_start a < map_end a \<and> map_end a \<le> map_start b \<and> map_ordered (b # es)"
| "map_ordered [a] \<longleftrightarrow> map_start a < map_end a"
| "map_ordered [] \<longleftrightarrow> True"

definition usable :: "mem_map list \<Rightarrow> u64 set" where
  "usable es = {a. \<exists>e \<in> set es. map_type e = mem_type_code ConventionalMemory \<and> map_start e \<le> a \<and> a < map_end e}"

section \<open>Lemmas\<close>

lemma length_mem_map_as_bytes [simp]: "length (mem_map_as_bytes e) = 20"
  by (simp add: mem_map_as_bytes_def)

lemma decode_encode_entry: "decode_map_entry (mem_map_as_bytes e @ bs) = e"
  by (simp add: decode_map_entry_def mem_map_as_bytes_def)

lemma decode_encode_entries: "decode_map_entries (length es) (concat (map mem_map_as_bytes es) @ bs) = Some es"
  by (induction es) (simp_all add: decode_encode_entry)

lemma decode_memmap_bytes:
  "decode_memmap (memmap_bytes r) = Some (sort_key map_start (memmap_entries r))"
proof -
  let ?mm = "sort_key map_start (memmap_entries r)"
  have len: "length ?mm = 11" by (simp add: memmap_entries_def)
  have magic: "from_le (le32 0xFE02FE02) = (0xFE02FE02 :: u32)" and count: "from_le (le32 11) = (11 :: u32)"
    by (rule from_le_to_le_full, simp)+
  have "decode_map_entries 11 (concat (map mem_map_as_bytes ?mm)) = Some ?mm"
    using decode_encode_entries [of ?mm "[]"] len by simp
  then show ?thesis
    using len magic count
    by (simp add: decode_memmap_def memmap_bytes_def mem_map_header_as_bytes_def Let_def
        del: decode_map_entries.simps)
qed

lemma sort_key_ordered: "sorted (map f xs) \<Longrightarrow> sort_key f xs = xs"
  by (induction xs) (simp_all add: insort_is_Cons)

lemma memmap_sorted: "sort_key map_start (memmap_entries r) = memmap_entries r"
  by (rule sort_key_ordered)
    (simp add: memmap_entries_def entry_def APIC_RESERVED_START_def APIC_RESERVED_END_def)

lemma memmap_ordered:
  assumes "0xFEE01000 < r" "r \<le> 0x400000000"
  shows "map_ordered (memmap_entries r)"
  using assms by (simp add: memmap_entries_def entry_def APIC_RESERVED_START_def APIC_RESERVED_END_def)

lemma usable_memmap:
  "usable (memmap_entries r) =
    {0x500..<0x9F000} \<union> {0x200000..<0x3000000} \<union> {0x4000000..<0xFEC00000} \<union> {0xFEE01000..<r}"
  by (auto simp: usable_def memmap_entries_def entry_def APIC_RESERVED_START_def APIC_RESERVED_END_def)

section \<open>Properties\<close>

text \<open>C30: The ACPI tables injected for up to 24 processors are linked and sealed: the RSDP points at the
  XSDT, the XSDT at the FADT and the MADT, the FADT at the DSDT, each at the address where the
  configuration puts that table, and the bytes of every built table (and the first twenty of the RSDP)
  sum to zero.\<close>

theorem acpi_tables_linked:
  assumes "unat (total_vcpus cfg) < 25"
  shows "\<exists>fadt madt rsdp xsdt. inject_acpi_tables p dsdt cfg =
      Some (cfg\<lparr>binaries := binaries cfg @ [load_dsdt dsdt, fadt, madt, rsdp, xsdt]\<rparr>) \<and>
    from_le (take 8 (drop 24 (bin_data rsdp))) = bin_offset xsdt \<and>
    from_le (take 8 (drop 36 (bin_data xsdt))) = bin_offset fadt \<and>
    from_le (take 8 (drop 44 (bin_data xsdt))) = bin_offset madt \<and>
    from_le (take 8 (drop 140 (bin_data fadt))) = bin_offset (load_dsdt dsdt) \<and>
    (\<forall>b \<in> {fadt, madt, rsdp, xsdt}. checksum (bin_data b) = 0) \<and> checksum (take 20 (bin_data rsdp)) = 0"
proof -
  obtain fadt where f: "build_fadt (bin_offset (load_dsdt dsdt)) = Some fadt" "checksum (bin_data fadt) = 0"
      "from_le (take 8 (drop 140 (bin_data fadt))) = bin_offset (load_dsdt dsdt)"
    by (rule fadt_valid)
  obtain madt where m: "build_madt p (total_vcpus cfg) = Some madt" "checksum (bin_data madt) = 0"
    by (rule madt_valid [OF assms])
  obtain xsdt where x: "build_xsdt [bin_offset fadt, bin_offset madt] = Some xsdt" "checksum (bin_data xsdt) = 0"
      "\<forall>k < length [bin_offset fadt, bin_offset madt].
        from_le (take 8 (drop (36 + k * 8) (bin_data xsdt))) = [bin_offset fadt, bin_offset madt] ! k"
    by (rule xsdt_valid [of "[bin_offset fadt, bin_offset madt]"])
  obtain t where r: "build_rsdp (bin_offset xsdt) = Some (new_binary t 0xE0000)" "checksum (take 20 t) = 0"
      "checksum t = 0" "from_le (take 8 (drop 24 t)) = bin_offset xsdt"
    by (rule build_rsdp_spec)
  have "from_le (take 8 (drop 36 (bin_data xsdt))) = bin_offset fadt"
    "from_le (take 8 (drop 44 (bin_data xsdt))) = bin_offset madt"
    using x(3) [rule_format, of 0] x(3) [rule_format, of 1] by simp_all
  with f m x(1,2) r show ?thesis
    by (intro exI [of _ fadt] exI [of _ madt] exI [of _ "new_binary t 0xE0000"] exI [of _ xsdt])
      (simp add: inject_acpi_tables_def new_binary_def)
qed

theorem acpi_tables_linked_witness:
  "\<exists>fadt madt rsdp xsdt. inject_acpi_tables Dev [1] (main_config [] [] [] []) =
      Some ((main_config [] [] [] [])\<lparr>binaries := binaries (main_config [] [] [] []) @ [load_dsdt [1], fadt, madt, rsdp, xsdt]\<rparr>) \<and>
    from_le (take 8 (drop 24 (bin_data rsdp))) = bin_offset xsdt"
  using acpi_tables_linked [of "main_config [] [] [] []" Dev "[1]"] by (auto simp: main_config_def)

text \<open>C33: The firmware reads back the memory map that is injected at 0x7000: for RAM that starts at zero
  and ends above the local APIC page and not above the MMIO window it decodes to entries in ascending
  order, none of them empty or overlapping another, and the memory offered as usable is RAM without
  the two APIC windows, the first megabyte's reserved parts and the boot and runtime ranges.\<close>

theorem memmap_roundtrip:
  assumes "memory_regions cfg = \<lparr>cfg_size = sz, cfg_offset = 0\<rparr> # rest" "0xFEE01000 < sz" "sz \<le> 0x400000000"
  shows "\<exists>b es. inject_memmap p cfg = Some (cfg\<lparr>binaries := binaries cfg @ [b]\<rparr>) \<and> bin_offset b = 0x7000 \<and>
    decode_memmap (bin_data b) = Some es \<and> map_ordered es \<and>
    usable es = {0x500..<0x9F000} \<union> {0x200000..<0x3000000} \<union> {0x4000000..<0xFEC00000} \<union> {0xFEE01000..<of_nat sz}"
proof -
  let ?r = "of_nat sz :: u64"
  have u: "unat ?r = sz" by (rule unat_of_nat_less) (use assms(3) in simp)
  then have b: "0xFEE01000 < ?r" "?r \<le> 0x400000000"
    using assms(2,3) by (simp_all add: word_less_nat_alt word_le_nat_alt)
  have "inject_memmap p cfg =
      Some (cfg\<lparr>binaries := binaries cfg @ [\<lparr>bin_data = memmap_bytes ?r, bin_offset = 0x7000\<rparr>]\<rparr>)"
    using assms(1) by (simp add: inject_memmap_def index_at_def sub_chk_fits)
  then show ?thesis
    using decode_memmap_bytes [of ?r] memmap_ordered [OF b] usable_memmap [of ?r] by (auto simp: memmap_sorted)
qed

theorem memmap_roundtrip_witness:
  "\<exists>b es. inject_memmap Dev (main_config [] [] [] []) =
      Some ((main_config [] [] [] [])\<lparr>binaries := binaries (main_config [] [] [] []) @ [b]\<rparr>) \<and>
    decode_memmap (bin_data b) = Some es \<and> map_ordered es"
  using memmap_roundtrip [of "main_config [] [] [] []" "4 * 1024 * 1024 * 1024" "[]" Dev] by (auto simp: main_config_def)

end
