(* ===== verification/Vm_Builder.thy ===== *)
theory Vm_Builder
  imports Guest_Memory Machine_Config Device_Maps
begin

text \<open>
  Building the machine, \<^verbatim>\<open>src/vm/builder.rs\<close>: one logical memory region per configured region, the KVM
  slots that cover it except for the pages of the in-kernel interrupt controllers, the boot binaries
  copied into it, interrupt routing, and the two device maps. The host calls are parameters: \<open>mmap\<close>
  answers with the address of a zeroed block or fails, \<open>kvm_ok\<close> says whether the kernel accepts a slot
  after the ones it has.
\<close>

section \<open>Guest memory and KVM slots\<close>

definition IOAPIC_START :: u64 where "IOAPIC_START = 0xFEC00000"
definition IOAPIC_END :: u64 where "IOAPIC_END = 0xFEC01000"
definition LAPIC_START :: u64 where "LAPIC_START = 0xFEE00000"
definition LAPIC_END :: u64 where "LAPIC_END = 0xFEE01000"

type_synonym seg = "u64 \<times> u64"

fun carve_seg :: "seg \<Rightarrow> seg \<Rightarrow> seg list" where
  "carve_seg (hole_start, hole_end) (seg_start, seg_end) =
     (if seg_end \<le> hole_start \<or> hole_end \<le> seg_start then [(seg_start, seg_end)]
      else (if seg_start < hole_start then [(seg_start, hole_start)] else []) @
           (if hole_end < seg_end then [(hole_end, seg_end)] else []))"

definition carve_hole :: "seg \<Rightarrow> seg list \<Rightarrow> seg list" where
  "carve_hole hole segs = concat (map (carve_seg hole) segs)"

definition carve_segments :: "u64 \<Rightarrow> u64 \<Rightarrow> seg list" where
  "carve_segments s e =
     fold carve_hole [(IOAPIC_START, IOAPIC_END), (LAPIC_START, LAPIC_END)] [(s, e)]"

record kvm_slot =
  slot :: u32
  guest_phys_addr :: u64
  memory_size :: u64
  userspace_addr :: u64

record host_mem =
  mmap :: "usize \<Rightarrow> u64 option"
  kvm_ok :: "kvm_slot list \<Rightarrow> kvm_slot \<Rightarrow> bool"

fun register_slots ::
    "host_mem \<Rightarrow> profile \<Rightarrow> u64 \<Rightarrow> u64 \<Rightarrow> u32 \<Rightarrow> seg list \<Rightarrow> kvm_slot list \<Rightarrow> kvm_slot list option" where
  "register_slots host p hva s n [] slots = Some slots"
| "register_slots host p hva s n ((seg_start, seg_end) # segs) slots =
     do {
       sz \<leftarrow> sub_chk p seg_end seg_start;
       d \<leftarrow> sub_chk p seg_start s;
       ua \<leftarrow> add_chk p hva d;
       let region = \<lparr>slot = n, guest_phys_addr = seg_start, memory_size = sz, userspace_addr = ua\<rparr>;
       if \<not> kvm_ok host slots region then None
       else do { n \<leftarrow> add_chk p n 1; register_slots host p hva s n segs (slots @ [region]) }
     }"

record vm_mem =
  vm_regions :: guest_memory
  vm_slots :: "kvm_slot list"

definition new_mem :: "host_mem \<Rightarrow> profile \<Rightarrow> usize \<Rightarrow> u64 \<Rightarrow> vm_mem \<Rightarrow> vm_mem option" where
  "new_mem host p sz off vm =
     do {
       userspace_mem \<leftarrow> mmap host sz;
       let region = new_region (Some (replicate sz 0)) (of_nat sz) off;
       e \<leftarrow> add_chk p off (of_nat sz);
       slots \<leftarrow> register_slots host p userspace_mem off 0 (carve_segments off e) (vm_slots vm);
       Some \<lparr>vm_regions = vm_regions vm @ [region], vm_slots = slots\<rparr>
     }"

section \<open>Boot binaries\<close>

definition load_binary :: "profile \<Rightarrow> mem_config \<Rightarrow> boot_binary \<Rightarrow> mem_region \<Rightarrow> mem_region option" where
  "load_binary p mem b r =
     (if cfg_offset mem \<le> bin_offset b then
        do {
          e \<leftarrow> add_chk p (cfg_offset mem) (of_nat (cfg_size mem));
          if bin_offset b < e then
            do {
              let code_offset = unat (bin_offset b) - unat (cfg_offset mem);
              if cfg_size mem < code_offset then None
              else
                (let remaining = cfg_size mem - code_offset in
                 if remaining < length (bin_data b) then None
                 else region_write r (bin_data b) (of_nat code_offset))
            }
          else Some r
        }
      else Some r)"

fun load_binaries :: "profile \<Rightarrow> mem_config \<Rightarrow> boot_binary list \<Rightarrow> mem_region \<Rightarrow> mem_region option" where
  "load_binaries p mem [] r = Some r"
| "load_binaries p mem (b # bs) r = do { r \<leftarrow> load_binary p mem b r; load_binaries p mem bs r }"

fun build_memory ::
    "host_mem \<Rightarrow> profile \<Rightarrow> boot_binary list \<Rightarrow> mem_config list \<Rightarrow> vm_mem \<Rightarrow> vm_mem option" where
  "build_memory host p bins [] vm = Some vm"
| "build_memory host p bins (mem # mems) vm =
     do {
       vm \<leftarrow> new_mem host p (cfg_size mem) (cfg_offset mem) vm;
       r \<leftarrow> load_binaries p mem bins (last (vm_regions vm));
       build_memory host p bins mems (vm\<lparr>vm_regions := butlast (vm_regions vm) @ [r]\<rparr>)
     }"

section \<open>Routing and devices\<close>

record ('io, 'mm) vm =
  vm_mem_state :: vm_mem
  vm_routing :: "irq_map list"
  vm_io_map :: "'io io_map"
  vm_mmio_map :: "'mm mmio_map"

definition wire_io :: "('io, 'e) io_ops \<Rightarrow> 'io io_region list \<Rightarrow> 'io io_map" where
  "wire_io ops regions = fold (\<lambda>r m. io_map_register m (io_region_irq_handler ops r)) regions []"

definition wire_mmio :: "('mm, 'e) mmio_ops \<Rightarrow> 'mm mmio_region list \<Rightarrow> 'mm mmio_map" where
  "wire_mmio ops regions =
     fold (\<lambda>r m. mmio_map_register m (mmio_region_pass_guest_memory ops (mmio_region_irq_handler ops r))) regions []"

definition new_vm ::
    "host_mem \<Rightarrow> profile \<Rightarrow> ('io, 'e) io_ops \<Rightarrow> ('mm, 'f) mmio_ops \<Rightarrow>
     ('io io_region, 'mm mmio_region) machine_config \<Rightarrow> ('io, 'mm) vm option" where
  "new_vm host p io mm cfg =
     do {
       mem \<leftarrow> build_memory host p (binaries cfg) (memory_regions cfg) \<lparr>vm_regions = [], vm_slots = []\<rparr>;
       Some \<lparr>vm_mem_state = mem, vm_routing = cfg_irq_map cfg, vm_io_map = wire_io io (io_devices cfg),
             vm_mmio_map = wire_mmio mm (mmio_devices cfg)\<rparr>
     }"

section \<open>Lemmas: carving\<close>

definition seg_set :: "seg \<Rightarrow> u64 set" where
  "seg_set s = {fst s..<snd s}"

definition segs_set :: "seg list \<Rightarrow> u64 set" where
  "segs_set ss = (\<Union>s \<in> set ss. seg_set s)"

fun segs_ordered :: "seg list \<Rightarrow> bool" where
  "segs_ordered [] \<longleftrightarrow> True"
| "segs_ordered (s # ss) \<longleftrightarrow> fst s < snd s \<and> (\<forall>t \<in> set ss. snd s \<le> fst t) \<and> segs_ordered ss"

lemma carve_seg_set: "fst h \<le> snd h \<Longrightarrow> segs_set (carve_seg h s) = seg_set s - seg_set h"
  by (cases h; cases s) (auto simp: segs_set_def seg_set_def)

lemma carve_hole_set: "fst h \<le> snd h \<Longrightarrow> segs_set (carve_hole h ss) = segs_set ss - seg_set h"
  using carve_seg_set [of h] by (auto simp: carve_hole_def segs_set_def)

lemma carve_seg_bounds: "t \<in> set (carve_seg h s) \<Longrightarrow> fst s \<le> fst t \<and> snd t \<le> snd s"
  by (cases h; cases s) (auto split: if_splits)

lemma segs_ordered_append:
  "segs_ordered (xs @ ys) \<longleftrightarrow> segs_ordered xs \<and> segs_ordered ys \<and> (\<forall>s \<in> set xs. \<forall>t \<in> set ys. snd s \<le> fst t)"
  by (induction xs) auto

lemma carve_seg_ordered: "fst s < snd s \<Longrightarrow> fst h \<le> snd h \<Longrightarrow> segs_ordered (carve_seg h s)"
  by (cases h; cases s) auto

lemma carve_hole_ordered: "segs_ordered ss \<Longrightarrow> fst h \<le> snd h \<Longrightarrow> segs_ordered (carve_hole h ss)"
proof (induction ss)
  case (Cons s ss)
  have "snd a \<le> fst b" if "a \<in> set (carve_seg h s)" "b \<in> set (carve_hole h ss)" for a b
  proof -
    from that(2) obtain t where "t \<in> set ss" "b \<in> set (carve_seg h t)" by (auto simp: carve_hole_def)
    with that(1) Cons.prems show ?thesis
      using carve_seg_bounds [of a h s] carve_seg_bounds [of b h t] by fastforce
  qed
  with Cons show ?case
    by (auto simp: carve_hole_def segs_ordered_append carve_seg_ordered)
qed (simp add: carve_hole_def)

lemma carve_segments_spec:
  shows "segs_set (carve_segments s e) = {s..<e} - {IOAPIC_START..<IOAPIC_END} - {LAPIC_START..<LAPIC_END}"
    and "s < e \<Longrightarrow> segs_ordered (carve_segments s e)"
proof -
  have h: "IOAPIC_START \<le> IOAPIC_END" "LAPIC_START \<le> LAPIC_END"
    by (simp_all add: IOAPIC_START_def IOAPIC_END_def LAPIC_START_def LAPIC_END_def)
  then show "segs_set (carve_segments s e) = {s..<e} - {IOAPIC_START..<IOAPIC_END} - {LAPIC_START..<LAPIC_END}"
    by (simp add: carve_segments_def carve_hole_set) (simp add: segs_set_def seg_set_def)
  show "segs_ordered (carve_segments s e)" if "s < e"
    using h that by (simp add: carve_segments_def carve_hole_ordered)
qed

lemma carve_hole_bounds: "t \<in> set (carve_hole h ss) \<Longrightarrow> \<exists>s \<in> set ss. fst s \<le> fst t \<and> snd t \<le> snd s"
  by (auto simp: carve_hole_def dest!: carve_seg_bounds simp del: carve_seg.simps)

lemma carve_segments_bounds: "t \<in> set (carve_segments s e) \<Longrightarrow> s \<le> fst t \<and> snd t \<le> e"
  by (fastforce simp: carve_segments_def dest: carve_hole_bounds)

lemma segs_ordered_sub: "segs_ordered ss \<Longrightarrow> t \<in> set ss \<Longrightarrow> fst t < snd t"
  by (induction ss) auto

section \<open>Lemmas: slots\<close>

definition slot_of :: "u64 \<Rightarrow> u64 \<Rightarrow> nat \<times> seg \<Rightarrow> kvm_slot" where
  "slot_of hva s = (\<lambda>(i, sg). \<lparr>slot = of_nat i, guest_phys_addr = fst sg, memory_size = snd sg - fst sg,
     userspace_addr = hva + (fst sg - s)\<rparr>)"

definition slot_set :: "kvm_slot \<Rightarrow> u64 set" where
  "slot_set sl = {guest_phys_addr sl..<guest_phys_addr sl + memory_size sl}"

lemma register_slots_total:
  assumes "\<forall>xs sl. kvm_ok host xs sl" "\<forall>sg \<in> set segs. s \<le> fst sg \<and> fst sg \<le> snd sg \<and> snd sg \<le> e"
    and "unat hva + (unat e - unat s) < 2 ^ 64" "k + length segs < 2 ^ 32"
  shows "register_slots host p hva s (of_nat k) segs slots = Some (slots @ map (slot_of hva s) (enumerate k segs))"
  using assms(2,4)
proof (induction segs arbitrary: k slots)
  case (Cons sg segs)
  obtain a b where sg: "sg = (a, b)" by (cases sg)
  with Cons.prems have ab: "s \<le> a" "a \<le> b" "b \<le> e" by auto
  have "unat hva + unat (a - s) < 2 ^ 64"
    using ab assms(3) by (simp add: unat_sub_le word_le_nat_alt)
  moreover have "unat (of_nat k :: u32) = k"
    by (rule unat_of_nat_less) (use Cons.prems(2) in simp)
  then have "add_chk p (of_nat k :: u32) 1 = Some (of_nat (Suc k))"
    using Cons.prems(2) by (simp add: add_chk_def)
  ultimately show ?case
    using ab Cons.IH [of "Suc k"] Cons.prems assms(1) sg
    by (simp add: sub_chk_fits add_chk_fits slot_of_def)
qed simp

lemma slot_set_of: "fst sg \<le> snd sg \<Longrightarrow> slot_set (slot_of hva s (i, sg)) = seg_set sg"
  by (simp add: slot_set_def slot_of_def seg_set_def)

lemma slots_cover:
  assumes "\<forall>sg \<in> set segs. fst sg \<le> snd sg"
  shows "(\<Union>sl \<in> set (map (slot_of hva s) (enumerate k segs)). slot_set sl) = segs_set segs"
  using assms by (induction segs arbitrary: k) (auto simp: slot_set_of segs_set_def)

lemma carved_slots_cover:
  assumes "s < e"
  shows "(\<Union>sl \<in> set (map (slot_of hva s) (enumerate k (carve_segments s e))). slot_set sl) =
    {s..<e} - {0xFEC00000..<0xFEC01000} - {0xFEE00000..<0xFEE01000}"
proof -
  have ne: "\<forall>sg \<in> set (carve_segments s e). fst sg \<le> snd sg"
    using segs_ordered_sub [OF carve_segments_spec(2) [OF assms]] by fastforce
  show ?thesis
    unfolding slots_cover [OF ne] carve_segments_spec(1)
    by (simp add: IOAPIC_START_def IOAPIC_END_def LAPIC_START_def LAPIC_END_def)
qed

lemma slots_apart:
  "segs_ordered segs \<Longrightarrow>
    sorted_wrt (\<lambda>a b. slot_set a \<inter> slot_set b = {}) (map (slot_of hva s) (enumerate k segs))"
proof (induction segs arbitrary: k)
  case (Cons sg segs)
  have "slot_set (slot_of hva s (k, sg)) \<inter> slot_set (slot_of hva s x) = {}"
    if x: "x \<in> set (enumerate (Suc k) segs)" for x
  proof -
    obtain i t where it: "x = (i, t)" by (cases x)
    have t: "t \<in> set segs" using x it nth_mem [of "i - Suc k" segs] by (auto simp: in_set_enumerate_eq)
    then have "fst t \<le> snd t" "fst sg \<le> snd sg" "snd sg \<le> fst t"
      using Cons.prems segs_ordered_sub [of segs t] by auto
    then show ?thesis unfolding it by (auto simp: slot_set_of seg_set_def)
  qed
  then show ?case using Cons by auto
qed simp

section \<open>Lemmas: loading\<close>

definition region_for :: "mem_config \<Rightarrow> mem_region \<Rightarrow> bool" where
  "region_for mem r \<longleftrightarrow> wf_region r \<and> ptr r \<noteq> None \<and> mem_offset r = cfg_offset mem \<and>
     unat (mem_size r) = cfg_size mem \<and> unat (cfg_offset mem) + cfg_size mem < 2 ^ 64"

definition bin_fits :: "mem_config \<Rightarrow> boot_binary \<Rightarrow> bool" where
  "bin_fits mem b \<longleftrightarrow> cfg_offset mem \<le> bin_offset b \<and>
     unat (bin_offset b) < unat (cfg_offset mem) + cfg_size mem \<and>
     unat (bin_offset b) + length (bin_data b) \<le> unat (cfg_offset mem) + cfg_size mem"

definition bin_span :: "boot_binary \<Rightarrow> nat set" where
  "bin_span b = span (bin_offset b) (length (bin_data b))"

lemma bin_hits: "region_for mem r \<Longrightarrow> bin_fits mem b \<Longrightarrow> hits r (bin_offset b) (length (bin_data b))"
  by (auto simp: region_for_def bin_fits_def hits_def unat_sub_le word_le_nat_alt)

lemma load_binary_write:
  assumes "region_for mem r" "bin_fits mem b"
  obtains r' where "load_binary p mem b r = Some r'" "region_for mem r'"
    "write_mapped p (bin_offset b) (bin_data b) [r] = Some [r']"
proof -
  from assms obtain blk where blk: "ptr r = Some blk" "wf_region r" by (auto simp: region_for_def)
  note h = bin_hits [OF assms]
  define r' where "r' = r\<lparr>ptr := Some (copy_at blk (unat (bin_offset b - mem_offset r)) (bin_data b))\<rparr>"
  have rw: "region_write r (bin_data b) (bin_offset b - mem_offset r) = Some r'"
    using region_write_hit [OF blk(2) h blk(1)] by (simp add: r'_def)
  then have w: "write_mapped p (bin_offset b) (bin_data b) [r] = Some [r']"
    by (simp add: scan_hit [OF h] del: write_mapped.simps)
  have "region_for mem r'"
    using assms(1) region_write_frame [OF rw] region_write_wf [OF rw] by (simp add: region_for_def)
  moreover have "load_binary p mem b r = Some r'"
  proof -
    from assms have o1: "cfg_offset mem \<le> bin_offset b" "mem_offset r = cfg_offset mem"
      and lt: "unat (cfg_offset mem) + cfg_size mem < 2 ^ 64"
      and fits: "unat (bin_offset b) + length (bin_data b) \<le> unat (cfg_offset mem) + cfg_size mem"
        "unat (bin_offset b) < unat (cfg_offset mem) + cfg_size mem"
      by (auto simp: region_for_def bin_fits_def)
    from lt have us: "unat (of_nat (cfg_size mem) :: u64) = cfg_size mem" by (simp add: unat_of_nat_less)
    have co: "of_nat (unat (bin_offset b) - unat (cfg_offset mem)) = bin_offset b - cfg_offset mem"
      using o1 by (simp add: word_le_nat_alt of_nat_diff)
    have "unat (cfg_offset mem + of_nat (cfg_size mem)) = unat (cfg_offset mem) + cfg_size mem"
      using lt us by (simp add: unat_add_fits)
    then show ?thesis
      using rw o1 lt us fits
      by (auto simp: load_binary_def add_chk_fits word_less_nat_alt word_le_nat_alt Let_def co simp del: of_nat_diff)
  qed
  ultimately show thesis using w by (intro that)
qed

lemma singleton_backed: "region_for mem r \<Longrightarrow> bin_fits mem b \<Longrightarrow> backed [r] (bin_offset b) (length (bin_data b))"
  using bin_hits by (simp add: region_for_def)

lemma load_binaries_image:
  assumes "region_for mem r" "\<forall>b \<in> set bs. bin_fits mem b"
  obtains r' where "load_binaries p mem bs r = Some r'" "region_for mem r'"
    "modifies (\<Union>b \<in> set bs. bin_span b) [r] [r']"
proof -
  have "\<exists>r'. load_binaries p mem bs r = Some r' \<and> region_for mem r' \<and>
      modifies (\<Union>b \<in> set bs. bin_span b) [r] [r']"
    using assms
  proof (induction bs arbitrary: r)
    case Nil
    then show ?case by (simp add: region_for_def)
  next
    case (Cons b bs)
    then have bf: "bin_fits mem b" by simp
    obtain r1 where r1: "load_binary p mem b r = Some r1" "region_for mem r1"
        "write_mapped p (bin_offset b) (bin_data b) [r] = Some [r1]"
      by (rule load_binary_write [OF Cons.prems(1) bf])
    have m1: "modifies (bin_span b) [r] [r1]"
      unfolding bin_span_def
      by (rule write_mapped_modifies [OF _ singleton_backed [OF Cons.prems(1) bf] r1(3)])
        (use Cons.prems(1) in \<open>simp add: region_for_def\<close>)
    from Cons.IH [OF r1(2)] Cons.prems obtain r' where
      r': "load_binaries p mem bs r1 = Some r'" "region_for mem r'" "modifies (\<Union>b \<in> set bs. bin_span b) [r1] [r']"
      by auto
    from modifies_trans [OF m1 r'(3)] r1 r' show ?case by auto
  qed
  then show thesis using that by blast
qed

lemma load_binaries_append:
  "load_binaries p mem (xs @ ys) r = do { r \<leftarrow> load_binaries p mem xs r; load_binaries p mem ys r }"
proof (induction xs arbitrary: r)
  case (Cons b xs)
  then show ?case by (cases "load_binary p mem b r") simp_all
qed simp

text \<open>Every binary that fits is in memory afterwards, unless a later one overlaps it.\<close>

lemma load_binaries_keeps:
  assumes "region_for mem r" "\<forall>b \<in> set (xs @ b # ys). bin_fits mem b"
    and "\<forall>c \<in> set ys. bin_span c \<inter> bin_span b = {}"
    and "load_binaries p mem (xs @ b # ys) r = Some r'"
  shows "bytes_at [r'] (bin_offset b) (length (bin_data b)) = bin_data b"
proof -
  obtain r1 where r1: "load_binaries p mem xs r = Some r1" "region_for mem r1"
    using load_binaries_image [OF assms(1), of xs p] assms(2) by auto
  have bf: "bin_fits mem b" using assms(2) by simp
  obtain r2 where r2: "load_binary p mem b r1 = Some r2" "region_for mem r2"
      "write_mapped p (bin_offset b) (bin_data b) [r1] = Some [r2]"
    by (rule load_binary_write [OF r1(2) bf])
  have wf: "wf_mem [r1]" using r1(2) by (simp add: region_for_def)
  have same: "bytes_at [r2] (bin_offset b) (length (bin_data b)) = bin_data b"
    by (rule bytes_at_write_same [OF singleton_backed [OF r1(2) bf] wf r2(3)])
  have l: "load_binaries p mem ys r2 = Some r'"
    using assms(4) r1(1) r2(1) by (simp add: load_binaries_append)
  obtain r3 where "load_binaries p mem ys r2 = Some r3" "modifies (\<Union>c \<in> set ys. bin_span c) [r2] [r3]"
    using load_binaries_image [OF r2(2), of ys p] assms(2) by auto
  with l have "modifies (\<Union>c \<in> set ys. bin_span c) [r2] [r']" by simp
  moreover have "span (bin_offset b) (length (bin_data b)) \<inter> (\<Union>c \<in> set ys. bin_span c) = {}"
    using assms(3) by (auto simp: bin_span_def)
  ultimately show ?thesis
    using modifies_bytes [OF _ singleton_backed [OF r2(2) bf]] same by metis
qed

lemma build_single:
  assumes "new_mem host p sz off \<lparr>vm_regions = [], vm_slots = []\<rparr> = Some \<lparr>vm_regions = [r], vm_slots = ss\<rparr>"
    and "load_binaries p \<lparr>cfg_size = sz, cfg_offset = off\<rparr> bins r = Some r'"
  shows "build_memory host p bins [\<lparr>cfg_size = sz, cfg_offset = off\<rparr>] \<lparr>vm_regions = [], vm_slots = []\<rparr> =
    Some \<lparr>vm_regions = [r'], vm_slots = ss\<rparr>"
  using assms by simp

lemma new_mem_spec:
  assumes "mmap host sz = Some hva" "\<forall>xs sl. kvm_ok host xs sl"
    and "0 < sz" "unat off + sz < 2 ^ 64" "unat hva + sz < 2 ^ 64"
  defines "segs \<equiv> carve_segments off (off + of_nat sz)"
  shows "new_mem host p sz off vm =
      Some \<lparr>vm_regions = vm_regions vm @ [new_region (Some (replicate sz 0)) (of_nat sz) off],
            vm_slots = vm_slots vm @ map (slot_of hva off) (enumerate 0 segs)\<rparr>"
    and "off < off + of_nat sz"
proof -
  have us: "unat (of_nat sz :: u64) = sz" using assms(4) by (simp add: unat_of_nat_less)
  have ue: "unat (off + of_nat sz) = unat off + sz" using assms(4) us by (simp add: unat_add_fits)
  show lt: "off < off + of_nat sz" using assms(3) ue by (simp add: word_less_nat_alt)
  have ord: "segs_ordered segs" unfolding segs_def by (rule carve_segments_spec(2) [OF lt])
  have b: "\<forall>sg \<in> set segs. off \<le> fst sg \<and> fst sg \<le> snd sg \<and> snd sg \<le> off + of_nat sz"
    using carve_segments_bounds segs_ordered_sub [OF ord] by (fastforce simp: segs_def)
  have "length segs \<le> 4"
    by (simp add: segs_def carve_segments_def carve_hole_def)
  then have "register_slots host p hva off (of_nat 0) segs (vm_slots vm)
      = Some (vm_slots vm @ map (slot_of hva off) (enumerate 0 segs))"
    by (intro register_slots_total [OF assms(2) b]) (use ue assms(5) in simp_all)
  then show "new_mem host p sz off vm =
      Some \<lparr>vm_regions = vm_regions vm @ [new_region (Some (replicate sz 0)) (of_nat sz) off],
            vm_slots = vm_slots vm @ map (slot_of hva off) (enumerate 0 segs)\<rparr>"
    using assms(1,4) us by (simp add: new_mem_def add_chk_fits segs_def)
qed

lemma load_binaries_all:
  assumes "region_for mem r" "\<forall>b \<in> set bs. bin_fits mem b"
    and "sorted_wrt (\<lambda>b c. bin_span c \<inter> bin_span b = {}) bs" "load_binaries p mem bs r = Some r'"
  shows "\<forall>b \<in> set bs. bytes_at [r'] (bin_offset b) (length (bin_data b)) = bin_data b"
proof
  fix b assume "b \<in> set bs"
  then obtain xs ys where bs: "bs = xs @ b # ys" by (auto simp: in_set_conv_decomp)
  show "bytes_at [r'] (bin_offset b) (length (bin_data b)) = bin_data b"
    by (rule load_binaries_keeps [OF assms(1)]) (use assms bs in \<open>auto simp: sorted_wrt_append\<close>)
qed

lemma fresh_region_for:
  assumes "unat off + sz < 2 ^ 64"
  shows "region_for \<lparr>cfg_size = sz, cfg_offset = off\<rparr> (new_region (Some (replicate sz 0)) (of_nat sz) off)"
proof -
  have "unat (of_nat sz :: u64) = sz" using assms by (simp add: unat_of_nat_less)
  with assms show ?thesis by (simp add: region_for_def new_region_def wf_region_def)
qed

section \<open>The boot image of the main program\<close>

abbreviation GiB4 :: nat where "GiB4 \<equiv> 4 * 1024 * 1024 * 1024"

lemma length_map_entries: "length (concat (map mem_map_as_bytes es)) = 20 * length es"
  by (induction es) simp_all

lemma length_memmap_bytes: "length (memmap_bytes r) = 228"
proof -
  have "length (memmap_entries r) = 11" by (simp add: memmap_entries_def)
  then show ?thesis by (simp add: memmap_bytes_def mem_map_header_as_bytes_def length_map_entries Let_def)
qed

lemma main_binaries:
  obtains cfg fadt madt rsdp xsdt where "main_boot_config p fw fw64 dsdt ios mms = Some cfg"
    "memory_regions cfg = [\<lparr>cfg_size = GiB4, cfg_offset = 0\<rparr>]"
    "binaries cfg = [new_binary fw 0x7E00, new_binary fw64 0x100000, reset_vector,
       \<lparr>bin_data = memmap_bytes (of_nat GiB4), bin_offset = 0x7000\<rparr>, new_binary dsdt 0xE0800,
       fadt, madt, rsdp, xsdt]"
    "bin_offset fadt = 0xE0400" "length (bin_data fadt) = 244"
    "bin_offset madt = 0xE0500" "length (bin_data madt) = 120"
    "bin_offset rsdp = 0xE0000" "length (bin_data rsdp) = 36"
    "bin_offset xsdt = 0xE00E0" "length (bin_data xsdt) = 52"
proof -
  obtain fadt where f: "build_fadt 0xE0800 = Some fadt" "bin_offset fadt = 0xE0400" "length (bin_data fadt) = 244"
    by (rule fadt_valid)
  obtain madt where m: "build_madt p 8 = Some madt" "bin_offset madt = 0xE0500" "length (bin_data madt) = 120"
    by (rule madt_valid [of 8 p]) simp_all
  obtain xsdt where x: "build_xsdt [0xE0400, 0xE0500] = Some xsdt" "bin_offset xsdt = 0xE00E0"
      "length (bin_data xsdt) = 52"
    by (rule xsdt_valid [of "[0xE0400, 0xE0500]"]) simp_all
  obtain t where r: "build_rsdp 0xE00E0 = Some (new_binary t 0xE0000)" "length t = 36"
    by (rule build_rsdp_spec)
  let ?c = "main_config fw fw64 ios mms"
  show thesis
    by (rule that [of "?c\<lparr>binaries := binaries ?c @ [\<lparr>bin_data = memmap_bytes (of_nat GiB4), bin_offset = 0x7000\<rparr>,
          new_binary dsdt 0xE0800, fadt, madt, new_binary t 0xE0000, xsdt]\<rparr>" fadt madt "new_binary t 0xE0000" xsdt])
      (use f m x r in \<open>simp_all add: main_boot_config_def inject_memmap_def inject_acpi_tables_def main_config_def
        index_at_def sub_chk_fits load_dsdt_def new_binary_def\<close>)
qed

section \<open>Properties\<close>

text \<open>The whole of guest RAM that the map offers as usable is behind KVM slots.\<close>

text \<open>The KVM slots registered for a region cover exactly the region without the pages of the I/O
  APIC and the local APIC, they do not overlap, and each translates a guest address to the matching
  byte of the block that backs the region.\<close>

theorem slots_cover_memory:
  assumes "mmap host sz = Some hva" "\<forall>xs sl. kvm_ok host xs sl"
    and "0 < sz" "unat off + sz < 2 ^ 64" "unat hva + sz < 2 ^ 64"
  shows "\<exists>vm. new_mem host p sz off \<lparr>vm_regions = [], vm_slots = []\<rparr> = Some vm \<and>
    (\<Union>sl \<in> set (vm_slots vm). slot_set sl) =
      {off..<off + of_nat sz} - {0xFEC00000..<0xFEC01000} - {0xFEE00000..<0xFEE01000} \<and>
    sorted_wrt (\<lambda>a b. slot_set a \<inter> slot_set b = {}) (vm_slots vm) \<and>
    (\<forall>sl \<in> set (vm_slots vm). \<forall>a \<in> slot_set sl.
      userspace_addr sl + (a - guest_phys_addr sl) = hva + (a - off))"
proof -
  let ?segs = "carve_segments off (off + of_nat sz)"
  note n = new_mem_spec [OF assms]
  let ?slots = "map (slot_of hva off) (enumerate 0 ?segs)"
  note cov = carved_slots_cover [OF n(2), of hva 0]
  have apart: "sorted_wrt (\<lambda>a b. slot_set a \<inter> slot_set b = {}) ?slots" by (rule slots_apart [OF carve_segments_spec(2) [OF n(2)]])
  have tr: "\<forall>sl \<in> set ?slots. \<forall>a. userspace_addr sl + (a - guest_phys_addr sl) = hva + (a - off)"
    by (auto simp: slot_of_def)
  show ?thesis
    by (rule exI, rule conjI, rule n(1)) (use cov apart tr in \<open>simp only: vm_mem.simps append_Nil, blast\<close>)
qed

definition good_host :: host_mem where
  "good_host = \<lparr>mmap = (\<lambda>_. Some 0x10000), kvm_ok = (\<lambda>_ _. True)\<rparr>"

text \<open>The machine that the main program configures starts with every binary in place: the build of its
  4 GiB of RAM succeeds when the host grants it, and afterwards the two firmware images, the reset
  vector, the memory map and the five ACPI tables are all in guest memory at their addresses, none
  overwritten by another, as long as the firmware files and the DSDT fit between their neighbours.\<close>

theorem boot_image_in_place:
  assumes "mmap host GiB4 = Some hva" "\<forall>xs sl. kvm_ok host xs sl" "unat hva + GiB4 < 2 ^ 64"
    and "length fw \<le> 0x81F0" "length fw64 \<le> GiB4 - 0x100000" "length dsdt \<le> 0x1F800"
  shows "\<exists>cfg r slots. main_boot_config p fw fw64 dsdt ios mms = Some cfg \<and> length (binaries cfg) = 9 \<and>
    build_memory host p (binaries cfg) (memory_regions cfg) \<lparr>vm_regions = [], vm_slots = []\<rparr> =
      Some \<lparr>vm_regions = [r], vm_slots = slots\<rparr> \<and>
    (\<forall>b \<in> set (binaries cfg). bytes_at [r] (bin_offset b) (length (bin_data b)) = bin_data b)"
proof -
  obtain cfg fadt madt rsdp xsdt where c: "main_boot_config p fw fw64 dsdt ios mms = Some cfg"
    "memory_regions cfg = [\<lparr>cfg_size = GiB4, cfg_offset = 0\<rparr>]"
    and b: "binaries cfg = [new_binary fw 0x7E00, new_binary fw64 0x100000, reset_vector,
       \<lparr>bin_data = memmap_bytes (of_nat GiB4), bin_offset = 0x7000\<rparr>, new_binary dsdt 0xE0800,
       fadt, madt, rsdp, xsdt]"
    and t: "bin_offset fadt = 0xE0400" "length (bin_data fadt) = 244"
    "bin_offset madt = 0xE0500" "length (bin_data madt) = 120"
    "bin_offset rsdp = 0xE0000" "length (bin_data rsdp) = 36"
    "bin_offset xsdt = 0xE00E0" "length (bin_data xsdt) = 52"
    by (rule main_binaries)
  let ?mem = "\<lparr>cfg_size = GiB4, cfg_offset = 0\<rparr>" and ?r = "new_region (Some (replicate GiB4 0)) (of_nat GiB4) 0"
  have rf: "region_for ?mem ?r" by (rule fresh_region_for) simp
  have fits: "\<forall>x \<in> set (binaries cfg). bin_fits ?mem x"
    using assms(4-6) t by (simp add: b bin_fits_def new_binary_def reset_vector_def length_memmap_bytes)
  have apart: "sorted_wrt (\<lambda>b c. bin_span c \<inter> bin_span b = {}) (binaries cfg)"
    using assms(4-6) t
    by (auto simp: b bin_span_def span_def new_binary_def reset_vector_def length_memmap_bytes)
  obtain r' where r': "load_binaries p ?mem (binaries cfg) ?r = Some r'"
    by (rule load_binaries_image [OF rf fits])
  note n = new_mem_spec(1) [OF assms(1,2) _ _ assms(3), of 0 p "\<lparr>vm_regions = [], vm_slots = []\<rparr>"]
  have "build_memory host p (binaries cfg) [?mem] \<lparr>vm_regions = [], vm_slots = []\<rparr> =
      Some \<lparr>vm_regions = [r'], vm_slots = map (slot_of hva 0) (enumerate 0 (carve_segments 0 (0 + of_nat GiB4)))\<rparr>"
    by (rule build_single [OF _ r']) (use n in simp)
  with c b load_binaries_all [OF rf fits apart r'] show ?thesis by fastforce
qed

end
