(* ===== verification/Host_Setup.thy ===== *)
theory Host_Setup
  imports Virtio_Net Display
begin

text \<open>
  The start of the program, before there is a machine: the firewall rules of
  \<^verbatim>\<open>platform/networking/firewall.rs\<close>, \<^verbatim>\<open>TAPDevice::new\<close> of \<^verbatim>\<open>platform/networking/tap.rs\<close>, \<^verbatim>\<open>FerrumSDLContext::new\<close>
  and its errors, the first part of \<^verbatim>\<open>main\<close>, and the PCI bus of \<^verbatim>\<open>pci/\<close>. What these ask of the host is
  recorded in order as a list of actions. Whether the host accepts an action, and the error that it
  gives when it does not, is a parameter; no action is asked for twice.
\<close>

section \<open>Firewall rules\<close>

text \<open>The part of the \<^verbatim>\<open>nftables\<close> schema that the rules use. Fields that are left at their default or at \<^verbatim>\<open>None\<close> are not
  written.\<close>

datatype nf_family = FamilyIP
datatype nf_chain_type = ChainNAT | ChainFilter
datatype nf_hook = HookPostrouting | HookForward
datatype nf_policy = PolicyAccept
datatype nf_operator = OpEQ | OpNEQ | OpIN
datatype meta_key = Iifname | Oifname

datatype nf_expr =
    StringExpr string
  | ListExpr "nf_expr list"
  | MetaExpr meta_key
  | PayloadFieldExpr string string
  | PrefixExpr nf_expr nat
  | CTExpr string

datatype nf_stmt = MatchStmt nf_expr nf_operator nf_expr | Masquerade | Accept

datatype nf_object =
    Table nf_family string
  | Chain nf_family string string nf_chain_type nf_hook int nf_policy
  | Rule nf_family string string "nf_stmt list"

definition ferrumvm_batch :: "string \<Rightarrow> nf_object list" where
  "ferrumvm_batch iface_name =
     [Table FamilyIP ''ferrumvm'',
      Chain FamilyIP ''ferrumvm'' ''postrouting'' ChainNAT HookPostrouting 100 PolicyAccept,
      Chain FamilyIP ''ferrumvm'' ''forward'' ChainFilter HookForward 0 PolicyAccept,
      Rule FamilyIP ''ferrumvm'' ''postrouting''
        [MatchStmt (MetaExpr Oifname) OpNEQ (StringExpr iface_name),
         MatchStmt (PayloadFieldExpr ''ip'' ''saddr'') OpEQ (PrefixExpr (StringExpr ''10.0.0.0'') 24),
         Masquerade],
      Rule FamilyIP ''ferrumvm'' ''forward''
        [MatchStmt (MetaExpr Iifname) OpEQ (StringExpr iface_name),
         Accept],
      Rule FamilyIP ''ferrumvm'' ''forward''
        [MatchStmt (MetaExpr Oifname) OpEQ (StringExpr iface_name),
         MatchStmt (CTExpr ''state'') OpIN (ListExpr [StringExpr ''established'', StringExpr ''related'']),
         Accept]]"

section \<open>Actions of the host\<close>

datatype setup_action =
    CreateFile string
  | RedirectStderr
  | WriteFile string string
  | ApplyRuleset "nf_object list"
  | Eprint string
  | Print string
  | NameInterface string
  | CreateTap string
  | AddAddrV6 "u16 list"
  | AddAddrV4 "u8 list" nat
  | SetNonblocking bool
  | SetUp
  | SdlInit
  | SdlVideo
  | SdlEventPump
  | BuildWindow string u32 u32
  | BuildCanvas
  | SetDrawColor u8 u8 u8
  | ClearCanvas
  | PresentCanvas
  | CreateTextureStreaming u32 u32

record ('i, 't) setup_host =
  accepts :: "setup_action \<Rightarrow> bool"
  sdl_message :: "setup_action \<Rightarrow> string"
  canvas_error :: 'i
  texture_error :: 't

type_synonym setup_log = "setup_action list"

text \<open>A fallible step that ends the function with an error when the host refuses it.\<close>

definition require_ok ::
    "('i, 't) setup_host \<Rightarrow> setup_action \<Rightarrow> 'e \<Rightarrow> (setup_log \<Rightarrow> ('e + 'a) \<times> setup_log) \<Rightarrow> setup_log \<Rightarrow> ('e + 'a) \<times> setup_log" where
  "require_ok host a err rest acts = (if accepts host a then rest (acts @ [a]) else (Inl err, acts @ [a]))"

definition crlf :: string where
  "crlf = [CHR 0x0D, CHR 0x0A]"

section \<open>The TAP device\<close>

definition IFACE_NAME :: string where
  "IFACE_NAME = ''ferrum-tap0''"

definition setup_ferrumvm_firewall :: "('i, 't) setup_host \<Rightarrow> string \<Rightarrow> setup_log \<Rightarrow> bool \<times> setup_log" where
  "setup_ferrumvm_firewall host iface_name acts =
     (let a = ApplyRuleset (ferrumvm_batch iface_name) in (accepts host a, acts @ [a]))"

definition ensure_ip_forwarding :: "('i, 't) setup_host \<Rightarrow> setup_log \<Rightarrow> bool \<times> setup_log" where
  "ensure_ip_forwarding host acts =
     (let a = WriteFile ''/proc/sys/net/ipv4/ip_forward'' ''1'' in (accepts host a, acts @ [a]))"

text \<open>\<^verbatim>\<open>TAPDevice::new\<close> in two parts: the interface itself, and what comes before it and only warns.\<close>

definition tap_open :: "('i, 't) setup_host \<Rightarrow> setup_log \<Rightarrow> (string + tap_device) \<times> setup_log" where
  "tap_open host =
     require_ok host (NameInterface IFACE_NAME) ''Could not name the Tap device''
     (require_ok host (CreateTap IFACE_NAME) ''Tap Could not be created''
     (require_ok host (AddAddrV6 [0, 0, 0, 0, 0, 0xffff, 0xc00a, 0x2ff]) ''Could not add an IP Address''
     (require_ok host (AddAddrV4 [10, 0, 0, 1] 24) ''Could not add an IPv4 address''
     (require_ok host (SetNonblocking True) ''Could not enable non-blocking on the device''
     (require_ok host SetUp ''Could not enable the device''
     (\<lambda>acts. (Inr new_tap, acts)))))))"

definition tap_new :: "('i, 't) setup_host \<Rightarrow> setup_log \<Rightarrow> (string + tap_device) \<times> setup_log" where
  "tap_new host acts =
     (let (forwarding, acts) = ensure_ip_forwarding host acts;
          acts = (if \<not> forwarding then acts @ [Eprint (''Could not enable ip forwading'' @ crlf)] else acts);
          (fw_res, acts) = setup_ferrumvm_firewall host IFACE_NAME acts;
          acts = (if \<not> fw_res then acts @ [Eprint (''Could not setup firewall rules'' @ crlf)] else acts)
      in tap_open host acts)"

section \<open>The window\<close>

datatype ('i, 't) sdl_error =
    SdlIntError 'i
  | SdlGeneralError string
  | TextureError 't
  | WindowInitError string

text \<open>The \<^verbatim>\<open>Display\<close> of an error; \<open>show_int\<close> and \<open>show_texture\<close> are those of SDL's own errors.\<close>

fun sdl_error_fmt :: "('i \<Rightarrow> string) \<Rightarrow> ('t \<Rightarrow> string) \<Rightarrow> ('i, 't) sdl_error \<Rightarrow> string" where
  "sdl_error_fmt show_int show_texture (SdlIntError e) = ''Sdl Int Error: '' @ show_int e"
| "sdl_error_fmt show_int show_texture (SdlGeneralError e) = ''Sdl Error: '' @ e"
| "sdl_error_fmt show_int show_texture (TextureError e) = ''Texture Error: '' @ show_texture e"
| "sdl_error_fmt show_int show_texture (WindowInitError e) = ''Could not create window: '' @ e"

definition sdl_new ::
    "('i, 't) setup_host \<Rightarrow> u32 \<Rightarrow> u32 \<Rightarrow> setup_log \<Rightarrow> (('i, 't) sdl_error + sdl_context) \<times> setup_log" where
  "sdl_new host width height =
     require_ok host SdlInit (SdlGeneralError (sdl_message host SdlInit))
     (require_ok host SdlVideo (SdlGeneralError (sdl_message host SdlVideo))
     (require_ok host SdlEventPump (SdlGeneralError (sdl_message host SdlEventPump))
     (\<lambda>acts.
       let window = BuildWindow ''Ferrum VM'' width height; e = sdl_message host window
       in if \<not> accepts host window
          then (Inl (WindowInitError e), acts @ [window, Eprint (''Could not create window: '' @ e @ [CHR 0x0A])])
          else
            require_ok host BuildCanvas (SdlIntError (canvas_error host))
            (\<lambda>acts.
              require_ok host (CreateTextureStreaming width height) (TextureError (texture_error host))
              (\<lambda>acts. (Inr (new_sdl width height), acts))
              (acts @ [SetDrawColor 255 255 255, ClearCanvas, PresentCanvas])) (acts @ [window]))))"

section \<open>The start of the main program\<close>

text \<open>\<^verbatim>\<open>main\<close> up to the creation of the window; no result is a panic.\<close>

definition main_start :: "('i, 't) setup_host \<Rightarrow> (tap_device \<times> sdl_context) option \<times> setup_log" where
  "main_start host =
     (if \<not> accepts host (CreateFile ''ferrum-host.log'') then (None, [CreateFile ''ferrum-host.log''])
      else
        case tap_new host [CreateFile ''ferrum-host.log'', RedirectStderr] of
          (Inl err, acts) \<Rightarrow> (None, acts @ [Eprint (err @ crlf)])
        | (Inr tap_device, acts) \<Rightarrow>
            let acts = acts @ [Print [CHR 0x0A, CHR 0x0D], CreateFile ''ferrum-firmware.log'']
            in if \<not> accepts host (CreateFile ''ferrum-firmware.log'') then (None, acts)
               else if \<not> accepts host (CreateFile ''ferrum-kernel.log'') then (None, acts @ [CreateFile ''ferrum-kernel.log''])
               else
                 case sdl_new host 500 500 (acts @ [CreateFile ''ferrum-kernel.log'']) of
                   (Inl e, acts) \<Rightarrow> (None, acts)
                 | (Inr window, acts) \<Rightarrow> (Some (tap_device, window), acts))"

section \<open>The PCI bus\<close>

text \<open>The transport drops the device that it is given; the bus keeps what is registered.\<close>

datatype pci_transport = PCITransport

definition new_pci_transport :: "'d \<Rightarrow> usize \<Rightarrow> u32 \<Rightarrow> pci_transport" where
  "new_pci_transport device queue_num irq_sel = PCITransport"

record 'p pci_bus =
  pci_devices :: "'p list"

definition new_pci_bus :: "'p pci_bus" where
  "new_pci_bus = \<lparr>pci_devices = []\<rparr>"

definition pci_register :: "'p pci_bus \<Rightarrow> 'p \<Rightarrow> 'p pci_bus" where
  "pci_register bus device = bus\<lparr>pci_devices := pci_devices bus @ [device]\<rparr>"

section \<open>The rules refer to what they declare\<close>

text \<open>\<^verbatim>\<open>nft\<close> applies a batch in order, so the table of a chain and the chain of a rule have to come first.\<close>

fun refers_back :: "nf_object list \<Rightarrow> nf_object \<Rightarrow> bool" where
  "refers_back before (Table f t) = True"
| "refers_back before (Chain f t c ty h pr po) \<longleftrightarrow> Table f t \<in> set before"
| "refers_back before (Rule f t c ss) \<longleftrightarrow>
     (\<exists>ob \<in> set before. case ob of Chain f' t' c' _ _ _ _ \<Rightarrow> f' = f \<and> t' = t \<and> c' = c | _ \<Rightarrow> False)"

fun batch_closed :: "nf_object list \<Rightarrow> nf_object list \<Rightarrow> bool" where
  "batch_closed before [] = True"
| "batch_closed before (ob # obs) \<longleftrightarrow> refers_back before ob \<and> batch_closed (before @ [ob]) obs"

lemma ferrumvm_batch_closed: "batch_closed [] (ferrumvm_batch iface)"
  by (simp add: ferrumvm_batch_def)

section \<open>Results of the start\<close>

text \<open>The steps that have to succeed for the TAP device, with their errors. Forwarding and the firewall are not among
  them.\<close>

definition tap_steps :: "(setup_action \<times> string) list" where
  "tap_steps =
     [(NameInterface IFACE_NAME, ''Could not name the Tap device''), (CreateTap IFACE_NAME, ''Tap Could not be created''),
      (AddAddrV6 [0, 0, 0, 0, 0, 0xffff, 0xc00a, 0x2ff], ''Could not add an IP Address''),
      (AddAddrV4 [10, 0, 0, 1] 24, ''Could not add an IPv4 address''),
      (SetNonblocking True, ''Could not enable non-blocking on the device''), (SetUp, ''Could not enable the device'')]"

text \<open>The error is that of the first step that fails.\<close>

lemma tap_new_first_failure:
  "fst (tap_new host acts) =
     (case find (\<lambda>(a, _). \<not> accepts host a) tap_steps of None \<Rightarrow> Inr new_tap | Some (_, err) \<Rightarrow> Inl err)"
  by (simp add: tap_new_def tap_open_def tap_steps_def require_ok_def ensure_ip_forwarding_def setup_ferrumvm_firewall_def Let_def)

text \<open>A function only adds to the record of actions.\<close>

definition log_extends :: "(setup_log \<Rightarrow> ('e + 'a) \<times> setup_log) \<Rightarrow> bool" where
  "log_extends f \<longleftrightarrow> (\<forall>acts. \<exists>ns. snd (f acts) = acts @ ns)"

lemma log_extends_return [simp, intro]: "log_extends (\<lambda>acts. (r, acts))"
  by (simp add: log_extends_def)

lemma log_extends_require_ok [intro]:
  assumes "log_extends rest"
  shows "log_extends (require_ok host a err rest)"
  unfolding log_extends_def
proof
  fix acts
  obtain ns where "snd (rest (acts @ [a])) = (acts @ [a]) @ ns" using assms unfolding log_extends_def by blast
  then show "\<exists>ns. snd (require_ok host a err rest acts) = acts @ ns" by (simp add: require_ok_def)
qed

text \<open>Forwarding and the rules are asked for before the interface exists, whatever happens afterwards.\<close>

lemma tap_new_rules_first:
  "\<exists>ms ns. snd (tap_new host acts) = acts @ WriteFile ''/proc/sys/net/ipv4/ip_forward'' ''1'' # ms @
     ApplyRuleset (ferrumvm_batch IFACE_NAME) # ns \<and> list_all (\<lambda>a. \<exists>s. a = Eprint s) ms"
proof -
  let ?a = "WriteFile ''/proc/sys/net/ipv4/ip_forward'' ''1''" and ?b = "ApplyRuleset (ferrumvm_batch IFACE_NAME)"
  define ms where "ms = (if accepts host ?a then [] else [Eprint (''Could not enable ip forwading'' @ crlf)])"
  define es where "es = (if accepts host ?b then [] else [Eprint (''Could not setup firewall rules'' @ crlf)])"
  have "log_extends (tap_open host)" unfolding tap_open_def by blast
  then obtain ns where "snd (tap_open host (acts @ ?a # ms @ ?b # es)) = (acts @ ?a # ms @ ?b # es) @ ns"
    unfolding log_extends_def by blast
  moreover have "tap_new host acts = tap_open host (acts @ ?a # ms @ ?b # es)"
    by (simp add: tap_new_def ensure_ip_forwarding_def setup_ferrumvm_firewall_def ms_def es_def Let_def)
  ultimately show ?thesis by (intro exI [of _ ms] exI [of _ "es @ ns"]) (simp add: ms_def)
qed

definition sdl_steps :: "u32 \<Rightarrow> u32 \<Rightarrow> setup_action list" where
  "sdl_steps width height =
     [SdlInit, SdlVideo, SdlEventPump, BuildWindow ''Ferrum VM'' width height, BuildCanvas, CreateTextureStreaming width height]"

lemma sdl_new_Inr:
  "fst (sdl_new host width height acts) = Inr window \<longleftrightarrow>
     list_all (accepts host) (sdl_steps width height) \<and> window = new_sdl width height"
  by (auto simp: sdl_new_def sdl_steps_def require_ok_def Let_def)

text \<open>The program gets as far as its devices exactly when the host accepts these steps.\<close>

definition start_steps :: "setup_action list" where
  "start_steps =
     CreateFile ''ferrum-host.log'' # map fst tap_steps @
     [CreateFile ''ferrum-firmware.log'', CreateFile ''ferrum-kernel.log''] @ sdl_steps 500 500"

lemma find_None_list_all: "find P xs = None \<longleftrightarrow> list_all (\<lambda>x. \<not> P x) xs"
  by (auto simp: find_None_iff list_all_iff)

lemma tap_new_Inr: "fst (tap_new host acts) = Inr t \<longleftrightarrow> list_all (accepts host) (map fst tap_steps) \<and> t = new_tap"
  by (auto simp: tap_new_first_failure find_None_list_all list.pred_map comp_def case_prod_beta'
      split: option.splits) (auto simp: find_Some_iff list_all_length)

lemma main_start_result:
  "fst (main_start host) =
     (if list_all (accepts host) start_steps then Some (new_tap, new_sdl 500 500) else None)"
proof -
  have tap: "if list_all (accepts host) (map fst tap_steps) then fst (tap_new host acts) = Inr new_tap
    else \<exists>e. fst (tap_new host acts) = Inl e" for acts
    using tap_new_Inr [of host acts] by (cases "fst (tap_new host acts)") auto
  have sdl: "if list_all (accepts host) (sdl_steps 500 500) then fst (sdl_new host 500 500 acts) = Inr (new_sdl 500 500)
    else \<exists>e. fst (sdl_new host 500 500 acts) = Inl e" for acts
    using sdl_new_Inr [of host 500 500 acts] by (cases "fst (sdl_new host 500 500 acts)") auto
  show ?thesis
    using tap [of "[CreateFile ''ferrum-host.log'', RedirectStderr]"]
    by (auto simp: main_start_def start_steps_def Let_def split: prod.splits sum.splits if_splits)
      (use sdl in \<open>metis (no_types) fst_conv sum.distinct(1) sum.inject(2)\<close>)+
qed

end
