(* ===== verification/Machine.thy ===== *)
theory Machine
  imports Virtio_Mmio Virtio_Simple Virtio_Blk Virtio_Net Virtio_Gpu Virtio_Fs Cmos Serial Pit Vm_Builder Host_Setup
begin

text \<open>
  The running machine: the device tables of \<^verbatim>\<open>src/main.rs\<close>, the exit handler of \<^verbatim>\<open>src/vm/run.rs\<close> and one
  round of the tick thread of \<^verbatim>\<open>src/vm/tick.rs\<close>. Port and memory-mapped devices share one interrupt queue
  and the guest memory, which the environment record carries. A panic ends the
  run (\<open>None\<close>); of poisoned mutexes only that of a processor is seen here, which ends its loop.
\<close>

section \<open>The environment and the devices\<close>

record machine_env = io_env +
  env_mem :: guest_memory

datatype 'f io_dev = Timer "'f pit" | Com serial | Rtc cmos

datatype ('x, 'y) mmio_dev =
    RngDev "rng_virtio mmio_transport" | CntDev "cnt_virtio mmio_transport"
  | BlkDev "blk_virtio mmio_transport" | ConsoleDev "console_virtio mmio_transport"
  | NetDev "net_virtio mmio_transport" | GpuDev "virtio_gpu mmio_transport"
  | FsDev "('x, 'y) fs_virtio mmio_transport"

text \<open>The host services the devices use.\<close>

record ('f, 'x, 'y) host =
  h_profile :: profile
  h_float :: "'f f64_ops"
  h_fuel :: nat
  h_rand :: rand_source
  h_disk :: disk_env
  h_tap :: tap_host
  h_sdl :: sdl_host
  h_fs :: "('x, 'y) host_fs"

definition wrap_in :: "('d \<Rightarrow> 'w) \<Rightarrow> (u8 list \<times> 'd \<times> 'e) option \<Rightarrow> (u8 list \<times> 'w \<times> 'e) option" where
  "wrap_in f r = map_option (\<lambda>(bs, d, e). (bs, f d, e)) r"

definition wrap_out :: "('d \<Rightarrow> 'w) \<Rightarrow> ('d \<times> 'e) option \<Rightarrow> ('w \<times> 'e) option" where
  "wrap_out f r = map_option (\<lambda>(d, e). (f d, e)) r"

primrec io_dev_input :: "('f, 'x, 'y) host \<Rightarrow> 'f io_dev \<Rightarrow> u16 \<Rightarrow> usize \<Rightarrow> machine_env \<Rightarrow> (u8 list \<times> 'f io_dev \<times> machine_env) option" where
  "io_dev_input h (Timer s) port n e = wrap_in Timer (io_input (pit_ops (h_fuel h) (h_float h)) s port n e)"
| "io_dev_input h (Com s) port n e = wrap_in Com (io_input serial_ops s port n e)"
| "io_dev_input h (Rtc s) port n e = wrap_in Rtc (io_input cmos_ops s port n e)"

primrec io_dev_output :: "('f, 'x, 'y) host \<Rightarrow> 'f io_dev \<Rightarrow> u16 \<Rightarrow> u8 list \<Rightarrow> machine_env \<Rightarrow> ('f io_dev \<times> machine_env) option" where
  "io_dev_output h (Timer s) port d e = wrap_out Timer (io_output (pit_ops (h_fuel h) (h_float h)) s port d e)"
| "io_dev_output h (Com s) port d e = wrap_out Com (io_output serial_ops s port d e)"
| "io_dev_output h (Rtc s) port d e = wrap_out Rtc (io_output cmos_ops s port d e)"

primrec io_dev_irq :: "('f, 'x, 'y) host \<Rightarrow> 'f io_dev \<Rightarrow> 'f io_dev" where
  "io_dev_irq h (Timer s) =
     Timer (io_irq_handler (pit_ops (h_fuel h) (h_float h) :: ('f pit, machine_env) io_ops) s)"
| "io_dev_irq h (Com s) = Com (io_irq_handler (serial_ops :: (serial, machine_env) io_ops) s)"
| "io_dev_irq h (Rtc s) = Rtc (io_irq_handler (cmos_ops :: (cmos, machine_env) io_ops) s)"

primrec io_dev_tick :: "('f, 'x, 'y) host \<Rightarrow> 'f io_dev \<Rightarrow> machine_env \<Rightarrow> ('f io_dev \<times> machine_env) option" where
  "io_dev_tick h (Timer s) e = wrap_out Timer (io_tick (pit_ops (h_fuel h) (h_float h)) s e)"
| "io_dev_tick h (Com s) e = wrap_out Com (io_tick serial_ops s e)"
| "io_dev_tick h (Rtc s) e = wrap_out Rtc (io_tick cmos_ops s e)"

definition machine_io :: "('f, 'x, 'y) host \<Rightarrow> ('f io_dev, machine_env) io_ops" where
  "machine_io h = \<lparr>io_input = io_dev_input h, io_output = io_dev_output h, io_irq_handler = io_dev_irq h,
     io_tick = io_dev_tick h\<rparr>"

section \<open>Transports behind the map\<close>

definition tr_read ::
    "'d virtio_ops \<Rightarrow> 'd mmio_transport \<Rightarrow> u64 \<Rightarrow> usize \<Rightarrow> machine_env \<Rightarrow> (u8 list \<times> 'd mmio_transport \<times> machine_env) option" where
  "tr_read ops t a n e =
     do { (bs, t, q) \<leftarrow> mmio_read ops t a n (env_irqs e); Some (bs, t, e\<lparr>env_irqs := q\<rparr>) }"

definition tr_write ::
    "'d virtio_ops \<Rightarrow> 'd mmio_transport \<Rightarrow> u64 \<Rightarrow> u8 list \<Rightarrow> machine_env \<Rightarrow> ('d mmio_transport \<times> machine_env) option" where
  "tr_write ops t a d e =
     do { (t, m, q) \<leftarrow> mmio_write ops t a d (env_mem e) (env_irqs e); Some (t, e\<lparr>env_mem := m, env_irqs := q\<rparr>) }"

definition tr_tick ::
    "'d virtio_ops \<Rightarrow> 'd mmio_transport \<Rightarrow> machine_env \<Rightarrow> ('d mmio_transport \<times> machine_env) option" where
  "tr_tick ops t e =
     do { (t, m, q) \<leftarrow> mmio_tick ops t (env_mem e) (env_irqs e); Some (t, e\<lparr>env_mem := m, env_irqs := q\<rparr>) }"

abbreviation h_rng :: "('f, 'x, 'y) host \<Rightarrow> rng_virtio virtio_ops" where "h_rng h \<equiv> rng_ops (h_rand h) (h_profile h)"
abbreviation h_cnt :: "('f, 'x, 'y) host \<Rightarrow> cnt_virtio virtio_ops" where "h_cnt h \<equiv> cnt_ops (h_profile h)"
abbreviation h_net :: "('f, 'x, 'y) host \<Rightarrow> net_virtio virtio_ops" where "h_net h \<equiv> net_ops (h_tap h) (h_profile h)"
abbreviation h_gpu :: "('f, 'x, 'y) host \<Rightarrow> virtio_gpu virtio_ops" where "h_gpu h \<equiv> gpu_ops (h_sdl h) (h_profile h)"
abbreviation h_fuse :: "('f, 'x, 'y) host \<Rightarrow> ('x, 'y) fs_virtio virtio_ops" where "h_fuse h \<equiv> fs_ops (h_fs h) (h_profile h)"
abbreviation h_blk :: "('f, 'x, 'y) host \<Rightarrow> blk_virtio virtio_ops" where "h_blk h \<equiv> blk_ops (h_disk h) (h_profile h)"

primrec mmio_dev_read :: "('f, 'x, 'y) host \<Rightarrow> ('x, 'y) mmio_dev \<Rightarrow> u64 \<Rightarrow> usize \<Rightarrow> machine_env \<Rightarrow> (u8 list \<times> ('x, 'y) mmio_dev \<times> machine_env) option" where
  "mmio_dev_read h (RngDev t) a n e = wrap_in RngDev (tr_read (h_rng h) t a n e)"
| "mmio_dev_read h (CntDev t) a n e = wrap_in CntDev (tr_read (h_cnt h) t a n e)"
| "mmio_dev_read h (BlkDev t) a n e = wrap_in BlkDev (tr_read (h_blk h) t a n e)"
| "mmio_dev_read h (ConsoleDev t) a n e = wrap_in ConsoleDev (tr_read console_ops t a n e)"
| "mmio_dev_read h (NetDev t) a n e = wrap_in NetDev (tr_read (h_net h) t a n e)"
| "mmio_dev_read h (GpuDev t) a n e = wrap_in GpuDev (tr_read (h_gpu h) t a n e)"
| "mmio_dev_read h (FsDev t) a n e = wrap_in FsDev (tr_read (h_fuse h) t a n e)"

primrec mmio_dev_write :: "('f, 'x, 'y) host \<Rightarrow> ('x, 'y) mmio_dev \<Rightarrow> u64 \<Rightarrow> u8 list \<Rightarrow> machine_env \<Rightarrow> (('x, 'y) mmio_dev \<times> machine_env) option" where
  "mmio_dev_write h (RngDev t) a d e = wrap_out RngDev (tr_write (h_rng h) t a d e)"
| "mmio_dev_write h (CntDev t) a d e = wrap_out CntDev (tr_write (h_cnt h) t a d e)"
| "mmio_dev_write h (BlkDev t) a d e = wrap_out BlkDev (tr_write (h_blk h) t a d e)"
| "mmio_dev_write h (ConsoleDev t) a d e = wrap_out ConsoleDev (tr_write console_ops t a d e)"
| "mmio_dev_write h (NetDev t) a d e = wrap_out NetDev (tr_write (h_net h) t a d e)"
| "mmio_dev_write h (GpuDev t) a d e = wrap_out GpuDev (tr_write (h_gpu h) t a d e)"
| "mmio_dev_write h (FsDev t) a d e = wrap_out FsDev (tr_write (h_fuse h) t a d e)"

primrec mmio_dev_irq :: "('x, 'y) mmio_dev \<Rightarrow> ('x, 'y) mmio_dev" where
  "mmio_dev_irq (RngDev t) = RngDev (transport_irq_handler t)"
| "mmio_dev_irq (CntDev t) = CntDev (transport_irq_handler t)"
| "mmio_dev_irq (BlkDev t) = BlkDev (transport_irq_handler t)"
| "mmio_dev_irq (ConsoleDev t) = ConsoleDev (transport_irq_handler t)"
| "mmio_dev_irq (NetDev t) = NetDev (transport_irq_handler t)"
| "mmio_dev_irq (GpuDev t) = GpuDev (transport_irq_handler t)"
| "mmio_dev_irq (FsDev t) = FsDev (transport_irq_handler t)"

primrec mmio_dev_pass :: "('f, 'x, 'y) host \<Rightarrow> ('x, 'y) mmio_dev \<Rightarrow> ('x, 'y) mmio_dev" where
  "mmio_dev_pass h (RngDev t) = RngDev (transport_pass_guest_memory (h_rng h) t)"
| "mmio_dev_pass h (CntDev t) = CntDev (transport_pass_guest_memory (h_cnt h) t)"
| "mmio_dev_pass h (BlkDev t) = BlkDev (transport_pass_guest_memory (h_blk h) t)"
| "mmio_dev_pass h (ConsoleDev t) = ConsoleDev (transport_pass_guest_memory console_ops t)"
| "mmio_dev_pass h (NetDev t) = NetDev (transport_pass_guest_memory (h_net h) t)"
| "mmio_dev_pass h (GpuDev t) = GpuDev (transport_pass_guest_memory (h_gpu h) t)"
| "mmio_dev_pass h (FsDev t) = FsDev (transport_pass_guest_memory (h_fuse h) t)"

primrec mmio_dev_tick :: "('f, 'x, 'y) host \<Rightarrow> ('x, 'y) mmio_dev \<Rightarrow> machine_env \<Rightarrow> (('x, 'y) mmio_dev \<times> machine_env) option" where
  "mmio_dev_tick h (RngDev t) e = wrap_out RngDev (tr_tick (h_rng h) t e)"
| "mmio_dev_tick h (CntDev t) e = wrap_out CntDev (tr_tick (h_cnt h) t e)"
| "mmio_dev_tick h (BlkDev t) e = wrap_out BlkDev (tr_tick (h_blk h) t e)"
| "mmio_dev_tick h (ConsoleDev t) e = wrap_out ConsoleDev (tr_tick console_ops t e)"
| "mmio_dev_tick h (NetDev t) e = wrap_out NetDev (tr_tick (h_net h) t e)"
| "mmio_dev_tick h (GpuDev t) e = wrap_out GpuDev (tr_tick (h_gpu h) t e)"
| "mmio_dev_tick h (FsDev t) e = wrap_out FsDev (tr_tick (h_fuse h) t e)"

definition machine_mmio :: "('f, 'x, 'y) host \<Rightarrow> (('x, 'y) mmio_dev, machine_env) mmio_ops" where
  "machine_mmio h = \<lparr>dev_read = mmio_dev_read h, dev_write = mmio_dev_write h, dev_irq_handler = mmio_dev_irq,
     dev_pass_guest_memory = mmio_dev_pass h, dev_poll = mmio_dev_tick h\<rparr>"

section \<open>Exits\<close>

datatype crash_reason =
    Hlt | FailedEntry | UnhandledExit | NoIODataReturned | IncorrectIOInputLength | NoMMIODataReturned
  | IncorrectMMIOReadLength | ShutdownCrash | RunError

datatype vcpu_exit =
    ExitHlt | IoOut u16 "u8 list" | IoIn u16 usize | MmioWrite u64 "u8 list" | MmioRead u64 usize
  | FailEntry | Shutdown | OtherExit

text \<open>What a turn of the loop gets from the processor: an exit, an interrupted call, a failed call, or a mutex that a panic
  has poisoned.\<close>

datatype vcpu_run = Exited vcpu_exit | Interrupted | RunFailed | VcpuPoisoned

record ('f, 'x, 'y) machine =
  io_map :: "'f io_dev io_map"
  mmio_map :: "('x, 'y) mmio_dev mmio_map"
  env :: machine_env

text \<open>One turn of the loop in \<^verbatim>\<open>run\<close>: it goes on, with the bytes given back to the guest when the exit was
  a read, or it returns an error.\<close>

datatype 'm turn = Continue "u8 list option" 'm | Crash crash_reason 'm

definition handle_exit :: "('f, 'x, 'y) host \<Rightarrow> ('f, 'x, 'y) machine \<Rightarrow> vcpu_exit \<Rightarrow> ('f, 'x, 'y) machine turn option" where
  "handle_exit h s exit =
     (case exit of
        ExitHlt \<Rightarrow> Some (Continue None s)
      | IoOut port data \<Rightarrow>
          if port = 0x500 then Some (Crash Hlt s)
          else do {
            (_, m, e) \<leftarrow> io_map_output (machine_io h) (io_map s) port data (env s);
            Some (Continue None (s\<lparr>io_map := m, env := e\<rparr>))
          }
      | IoIn port len \<Rightarrow>
          do {
            (ret, m, e) \<leftarrow> io_map_input (machine_io h) (io_map s) port len (env s);
            let s = s\<lparr>io_map := m, env := e\<rparr>;
            case ret of
              Some bs \<Rightarrow> if length bs \<noteq> len then Some (Crash IncorrectIOInputLength s)
                         else Some (Continue (Some bs) s)
            | None \<Rightarrow> Some (Continue (Some (replicate len 0xFF)) s)
          }
      | MmioWrite addr data \<Rightarrow>
          do {
            (_, m, e) \<leftarrow> mmio_map_write (h_profile h) (machine_mmio h) (mmio_map s) addr data (env s);
            Some (Continue None (s\<lparr>mmio_map := m, env := e\<rparr>))
          }
      | MmioRead addr len \<Rightarrow>
          do {
            (ret, m, e) \<leftarrow> mmio_map_read (h_profile h) (machine_mmio h) (mmio_map s) addr len (env s);
            let s = s\<lparr>mmio_map := m, env := e\<rparr>;
            case ret of
              Some bs \<Rightarrow> if length bs \<noteq> len then Some (Crash IncorrectMMIOReadLength s)
                         else Some (Continue (Some bs) s)
            | None \<Rightarrow> Some (Continue (Some (replicate len 0)) s)
          }
      | FailEntry \<Rightarrow> Some (Crash FailedEntry s)
      | Shutdown \<Rightarrow> Some (Crash ShutdownCrash s)
      | OtherExit \<Rightarrow> Some (Crash UnhandledExit s))"

definition run_turn :: "('f, 'x, 'y) host \<Rightarrow> nat \<Rightarrow> nat \<Rightarrow> ('f, 'x, 'y) machine \<Rightarrow> vcpu_run \<Rightarrow> ('f, 'x, 'y) machine turn option" where
  "run_turn h vcpus vid s r =
     (if vcpus \<le> vid then Some (Crash RunError s)
      else case r of
          VcpuPoisoned \<Rightarrow> Some (Crash RunError s)
        | Interrupted \<Rightarrow> Some (Continue None s)
        | RunFailed \<Rightarrow> Some (Crash RunError s)
        | Exited exit \<Rightarrow> handle_exit h s exit)"

text \<open>The loop over a sequence of KVM answers: the state in which it crashes, or in which the sequence
  ends.\<close>

fun run_loop :: "('f, 'x, 'y) host \<Rightarrow> nat \<Rightarrow> nat \<Rightarrow> ('f, 'x, 'y) machine \<Rightarrow> vcpu_run list \<Rightarrow> ('f, 'x, 'y) machine turn option" where
  "run_loop h vcpus vid s [] = Some (Continue None s)"
| "run_loop h vcpus vid s (r # rs) =
     do {
       t \<leftarrow> run_turn h vcpus vid s r;
       case t of Continue _ s \<Rightarrow> run_loop h vcpus vid s rs | Crash c s \<Rightarrow> Some (Crash c s)
     }"

section \<open>The tick thread\<close>

text \<open>One round: devices tick, memory-mapped first, then the queued commands go to the interrupt
  controller in order. \<open>sent\<close> are the calls of \<^verbatim>\<open>set_irq_line\<close> that the thread has made; the answer of KVM is printed and
  changes nothing.\<close>

text \<open>The thread locks the two maps, the queue and the controller one after the other, so a round has these parts, and other
  threads may run between them. The commands that were taken and not yet delivered are its own.\<close>

datatype tick_phase = TickMmio | TickIo | TickTake | TickDeliver irq_queue

type_synonym ('f, 'x, 'y) machine_state = "('f, 'x, 'y) machine \<times> irq_queue \<times> tick_phase"

fun tick_part :: "('f, 'x, 'y) host \<Rightarrow> ('f, 'x, 'y) machine_state \<Rightarrow> ('f, 'x, 'y) machine_state option" where
  "tick_part h (s, sent, TickMmio) =
     do { (mm, e) \<leftarrow> mmio_map_tick (machine_mmio h) (mmio_map s) (env s); Some (s\<lparr>mmio_map := mm, env := e\<rparr>, sent, TickIo) }"
| "tick_part h (s, sent, TickIo) =
     do { (io, e) \<leftarrow> io_map_tick (machine_io h) (io_map s) (env s); Some (s\<lparr>io_map := io, env := e\<rparr>, sent, TickTake) }"
| "tick_part h (s, sent, TickTake) =
     (let (cmds, rest) = handle_irqs (env_irqs (env s)) in Some (s\<lparr>env := (env s)\<lparr>env_irqs := rest\<rparr>\<rparr>, sent, TickDeliver cmds))"
| "tick_part h (s, sent, TickDeliver (c # cmds)) = Some (s, sent @ [c], TickDeliver cmds)"
| "tick_part h (s, sent, TickDeliver []) = Some (s, sent, TickMmio)"

section \<open>The devices keep the length promise\<close>

lemma wrap_in_Some: "wrap_in f r = Some (bs, d, e) \<longleftrightarrow> (\<exists>d0. r = Some (bs, d0, e) \<and> d = f d0)"
  by (cases r) (auto simp: wrap_in_def)

lemma wrap_out_Some: "wrap_out f r = Some (d, e) \<longleftrightarrow> (\<exists>d0. r = Some (d0, e) \<and> d = f d0)"
  by (cases r) (auto simp: wrap_out_def)

lemma tr_read_length: "tr_read ops t a n e = Some (bs, t', e') \<Longrightarrow> length bs = n"
  by (auto simp: tr_read_def elim!: bind_SomeE dest: mmio_read_length)

interpretation io: io_length "machine_io h" for h
proof (unfold_locales, goal_cases)
  case (1 d port n e bs d' e')
  then show ?case
    by (cases d)
      (auto simp: machine_io_def wrap_in_Some dest: pit.input_length serial.input_length cmos.input_length)
qed

interpretation mm: mmio_length "machine_mmio h" for h
proof (unfold_locales, goal_cases)
  case (1 d a n e bs d' e')
  then show ?case
    by (cases d) (auto simp: machine_mmio_def wrap_in_Some dest: tr_read_length)
qed

lemma handle_exit_reads:
  assumes "handle_exit h s x = Some (Continue (Some bs) s')"
  shows "\<exists>a n. (x = IoIn a n \<or> (\<exists>b. x = MmioRead b n)) \<and> length bs = n"
  using assms
  by (auto simp: handle_exit_def Let_def split: vcpu_exit.splits if_splits option.splits elim!: bind_SomeE)

lemma handle_exit_crashes:
  assumes "handle_exit h s x = Some (Crash c s')"
  shows "c \<in> {Hlt, FailedEntry, ShutdownCrash, UnhandledExit} \<and> s' = s"
  using assms
  by (auto simp: handle_exit_def Let_def split: vcpu_exit.splits if_splits option.splits elim!: bind_SomeE
      dest: io.io_map_input_length mm.mmio_map_read_length)

text \<open>What ends the loop, and with which error.\<close>

primrec exit_cause :: "vcpu_exit \<Rightarrow> crash_reason option" where
  "exit_cause ExitHlt = None"
| "exit_cause (IoOut port data) = (if port = 0x500 then Some Hlt else None)"
| "exit_cause (IoIn port n) = None"
| "exit_cause (MmioWrite a data) = None"
| "exit_cause (MmioRead a n) = None"
| "exit_cause FailEntry = Some FailedEntry"
| "exit_cause Shutdown = Some ShutdownCrash"
| "exit_cause OtherExit = Some UnhandledExit"

definition crash_cause :: "nat \<Rightarrow> nat \<Rightarrow> vcpu_run \<Rightarrow> crash_reason option" where
  "crash_cause vcpus vid r =
     (if vcpus \<le> vid then Some RunError
      else case r of Exited x \<Rightarrow> exit_cause x | Interrupted \<Rightarrow> None | _ \<Rightarrow> Some RunError)"

lemma run_turn_crash: "run_turn h vcpus vid s r = Some (Crash c s') \<longleftrightarrow> crash_cause vcpus vid r = Some c \<and> s' = s"
proof -
  have "handle_exit h s x = Some (Crash c s') \<longleftrightarrow> exit_cause x = Some c \<and> s' = s" for x
    using handle_exit_crashes [of h s x c s']
    by (cases x) (auto simp: handle_exit_def Let_def split: if_splits option.splits elim!: bind_SomeE)
  then show ?thesis by (cases r) (auto simp: run_turn_def crash_cause_def)
qed

lemma run_loop_crash:
  "run_loop h vcpus vid s rs = Some (Crash c s') \<longleftrightarrow>
    (\<exists>pre r post. rs = pre @ r # post \<and> run_loop h vcpus vid s pre = Some (Continue None s') \<and> crash_cause vcpus vid r = Some c)"
proof (induction rs arbitrary: s)
  case (Cons r rs)
  have split: "(\<exists>pre x post. r # rs = pre @ x # post \<and> P pre x) \<longleftrightarrow> P [] r \<or> (\<exists>pre x post. rs = pre @ x # post \<and> P (r # pre) x)" for P
    by (auto simp: Cons_eq_append_conv)
  show ?case
  proof (cases "run_turn h vcpus vid s r")
    case None
    then show ?thesis unfolding split using run_turn_crash [of h vcpus vid s r] by auto
  next
    case (Some t)
    show ?thesis
    proof (cases t)
      case (Continue b s1)
      have "crash_cause vcpus vid r = None"
        using run_turn_crash [of h vcpus vid s r] Some Continue by (metis option.exhaust option.inject turn.distinct(1))
      then show ?thesis unfolding split using Some Continue Cons.IH [of s1] by simp
    next
      case (Crash c1 s1)
      then have "crash_cause vcpus vid r = Some c1" "s1 = s" using run_turn_crash [of h vcpus vid s r c1 s1] Some by simp_all
      then show ?thesis unfolding split using Some Crash by auto
    qed
  qed
qed simp

section \<open>Well-formed machines\<close>

text \<open>Every transport has its selected queue, and the ranges of the two maps are fixed.\<close>

fun mmio_dev_ok :: "('x, 'y) mmio_dev \<Rightarrow> bool" where
  "mmio_dev_ok (RngDev t) \<longleftrightarrow> sel_ok t"
| "mmio_dev_ok (CntDev t) \<longleftrightarrow> sel_ok t"
| "mmio_dev_ok (BlkDev t) \<longleftrightarrow> sel_ok t"
| "mmio_dev_ok (ConsoleDev t) \<longleftrightarrow> sel_ok t"
| "mmio_dev_ok (NetDev t) \<longleftrightarrow> sel_ok t"
| "mmio_dev_ok (GpuDev t) \<longleftrightarrow> sel_ok t"
| "mmio_dev_ok (FsDev t) \<longleftrightarrow> sel_ok t"

definition machine_ok :: "(u16 \<times> u16) list \<Rightarrow> (u64 \<times> u64) list \<Rightarrow> ('f, 'x, 'y) machine \<Rightarrow> bool" where
  "machine_ok io mm s \<longleftrightarrow> io_ranges (io_map s) = io \<and> mmio_ranges (mmio_map s) = mm \<and>
     (\<forall>r \<in> set (mmio_map s). mmio_dev_ok (mmio_device r))"

lemma tr_ok:
  "tr_read ops t a n e = Some (bs, t', e') \<Longrightarrow> sel_ok t \<Longrightarrow> sel_ok t'"
  "tr_write ops t a d e = Some (t', e') \<Longrightarrow> sel_ok t \<Longrightarrow> sel_ok t'"
  "virtio_device ops \<Longrightarrow> tr_tick ops t e = Some (t', e') \<Longrightarrow> sel_ok t \<Longrightarrow> sel_ok t'"
  by (auto simp: tr_read_def tr_write_def tr_tick_def elim!: bind_SomeE
      dest: sel_ok_read sel_ok_write virtio_device.sel_ok_tick)

lemma mmio_dev_ok_ops:
  "dev_read (machine_mmio h) d a n e = Some (bs, d', e') \<Longrightarrow> mmio_dev_ok d \<Longrightarrow> mmio_dev_ok d'"
  "dev_write (machine_mmio h) d a data e = Some (d', e') \<Longrightarrow> mmio_dev_ok d \<Longrightarrow> mmio_dev_ok d'"
  "dev_poll (machine_mmio h) d e = Some (d', e') \<Longrightarrow> mmio_dev_ok d \<Longrightarrow> mmio_dev_ok d'"
  by (cases d; auto simp: machine_mmio_def wrap_in_Some wrap_out_Some
      dest: tr_ok tr_ok(3) [OF rng.virtio_device_axioms] tr_ok(3) [OF cnt.virtio_device_axioms]
        tr_ok(3) [OF blk.virtio_device_axioms] tr_ok(3) [OF console.virtio_device_axioms]
        tr_ok(3) [OF net.virtio_device_axioms] tr_ok(3) [OF gpu.virtio_device_axioms] tr_ok(3) [OF fs.virtio_device_axioms])+

interpretation mmk: mmio_keeps "machine_mmio h" mmio_dev_ok for h
  by unfold_locales (fact mmio_dev_ok_ops)+

lemma handle_exit_ok:
  assumes "machine_ok io mm s" "handle_exit h s x = Some (Continue r s')"
  shows "machine_ok io mm s'"
proof -
  from assms(1) have ok: "\<forall>r \<in> set (mmio_map s). mmio_dev_ok (mmio_device r)" by (simp add: machine_ok_def)
  note keeps = mmk.map_read_keeps [OF ok] mmk.map_write_keeps [OF ok]
  show ?thesis
    using assms
    by (auto simp: handle_exit_def machine_ok_def Let_def split: vcpu_exit.splits if_splits option.splits
        elim!: bind_SomeE dest!: io_map_ranges keeps)
qed

lemma tick_part_ok:
  assumes "machine_ok io mm s" "tick_part h (s, sent, ph) = Some (s', sent', ph')"
  shows "machine_ok io mm s'"
proof -
  from assms(1) have ok: "\<forall>r \<in> set (mmio_map s). mmio_dev_ok (mmio_device r)" by (simp add: machine_ok_def)
  from assms(2) assms(1) show ?thesis
    by (cases "(h, s, sent, ph)" rule: tick_part.cases)
      (auto simp: machine_ok_def handle_irqs_def elim!: bind_SomeE dest!: io_map_tick_ranges mmk.map_tick_keeps [OF ok])
qed

section \<open>The machine of the main program\<close>

definition main_io_regions :: "'f f64_ops \<Rightarrow> nat \<Rightarrow> 'f io_dev io_region list" where
  "main_io_regions fl now =
     [new_io_region 0x40 0x43 (Timer (new_pit fl now)), new_io_region 0x3f8 0x3ff (Com (new_serial Terminal)),
      new_io_region 0x2f8 0x2ff (Com (new_serial LogFile)), new_io_region 0x3E8 0x3EF (Com (new_serial LogFile)),
      new_io_region 0x70 0x71 (Rtc new_cmos)]"

definition ascii :: "string \<Rightarrow> u8 list" where
  "ascii s = map of_char s"

text \<open>The disk image and the state of the host's file system are given.\<close>

definition main_mmio_regions :: "tap_device \<Rightarrow> sdl_context \<Rightarrow> u8 list \<Rightarrow> 'x \<Rightarrow> ('x, 'y) mmio_dev mmio_region list option" where
  "main_mmio_regions tap_device gpu_display img files =
     do {
       gpu \<leftarrow> new_gpu gpu_display;
       let fuse = new_fs (ascii ''Self'') (new_shared_folder (ascii ''/home/miles/Data/FerrumVM-selfhost/'')) files;
       Some
         [new_mmio_region 0x400000000 0x400000FFF (RngDev (new_mmio_transport new_rng 1 0)),
          new_mmio_region 0x400001000 0x400001FFF (CntDev (new_mmio_transport new_cnt 1 0)),
          new_mmio_region 0x400002000 0x400002FFF (BlkDev (new_mmio_transport (new_blk img) 1 5)),
          new_mmio_region 0x400003000 0x400003FFF (NetDev (new_mmio_transport (new_net tap_device) 2 6)),
          new_mmio_region 0x400004000 0x400004FFF (FsDev (new_mmio_transport fuse 2 7)),
          new_mmio_region 0x400005000 0x400005FFF (GpuDev (new_mmio_transport gpu 2 10))]
     }"

definition main_machine ::
    "('i, 't) setup_host \<Rightarrow> ('f, 'x, 'y) host \<Rightarrow> u8 list \<Rightarrow> 'x \<Rightarrow> machine_env \<Rightarrow> ('f, 'x, 'y) machine option" where
  "main_machine st h img files e =
     do {
       (tap_device, gpu_display) \<leftarrow> fst (main_start st);
       regions \<leftarrow> main_mmio_regions tap_device gpu_display img files;
       Some \<lparr>io_map = wire_io (machine_io h) (main_io_regions (h_float h) (env_instant e)),
         mmio_map = wire_mmio (machine_mmio h) regions, env = e\<rparr>
     }"

text \<open>Nothing of the machine reads the PCI bus.\<close>

definition main_pci_bus :: "pci_transport pci_bus" where
  "main_pci_bus = pci_register new_pci_bus (new_pci_transport new_rng 1 0)"

text \<open>One turn of the loop at the end of \<^verbatim>\<open>threaded_run\<close>: the events of the window, which is the one that the GPU draws
  to. The answer says whether the window was closed, which ends the program.\<close>

primrec pump_regions :: "sdl_event list \<Rightarrow> ('x, 'y) mmio_dev mmio_map \<Rightarrow> bool \<times> ('x, 'y) mmio_dev mmio_map" where
  "pump_regions events [] = (False, [])"
| "pump_regions events (r # rs) =
     (case mmio_device r of
        GpuDev t \<Rightarrow>
          let (quit, window) = pump_events events (gpu_window (device t))
          in (quit, r\<lparr>mmio_device := GpuDev (t\<lparr>device := (device t)\<lparr>gpu_window := window\<rparr>\<rparr>)\<rparr> # rs)
      | _ \<Rightarrow> let (quit, rs) = pump_regions events rs in (quit, r # rs))"

definition pump_display :: "sdl_event list \<Rightarrow> ('f, 'x, 'y) machine \<Rightarrow> bool \<times> ('f, 'x, 'y) machine" where
  "pump_display events s = (let (quit, mm) = pump_regions events (mmio_map s) in (quit, s\<lparr>mmio_map := mm\<rparr>))"

text \<open>What happens to a machine, in any order: a virtual processor exits and the exit is handled, the
  tick thread runs a part of its round, the guest stores into its memory, time passes, a key is pressed, the window has
  events but is not closed, somebody else changes the files of the host.\<close>

inductive machine_step :: "('f, 'x, 'y) host \<Rightarrow> ('f, 'x, 'y) machine_state \<Rightarrow> ('f, 'x, 'y) machine_state \<Rightarrow> bool" for h where
  vcpu_exit: "handle_exit h s x = Some (Continue r s') \<Longrightarrow> machine_step h (s, sent, ph) (s', sent, ph)"
| tick: "tick_part h (s, sent, ph) = Some (s', sent', ph') \<Longrightarrow> machine_step h (s, sent, ph) (s', sent', ph')"
| guest_store: "machine_step h (s, sent, ph) (s\<lparr>env := (env s)\<lparr>env_mem := m'\<rparr>\<rparr>, sent, ph)"
| time: "machine_step h (s, sent, ph) (s\<lparr>env := (env s)\<lparr>env_utc := u, env_instant := i, env_next_instant := j\<rparr>\<rparr>, sent, ph)"
| key: "i < length (io_map s) \<Longrightarrow> io_device (io_map s ! i) = Com c \<Longrightarrow>
    key_press code mods (ser_queue c) = Some q \<Longrightarrow>
    machine_step h (s, sent, ph)
      (s\<lparr>io_map := (io_map s)[i := (io_map s ! i)\<lparr>io_device := Com (c\<lparr>ser_queue := q\<rparr>)\<rparr>]\<rparr>, sent, ph)"

| files: "i < length (mmio_map s) \<Longrightarrow> mmio_device (mmio_map s ! i) = FsDev t \<Longrightarrow>
    machine_step h (s, sent, ph)
      (s\<lparr>mmio_map := (mmio_map s)[i := (mmio_map s ! i)\<lparr>mmio_device := FsDev (t\<lparr>device := (device t)\<lparr>fs_host := x'\<rparr>\<rparr>)\<rparr>]\<rparr>, sent, ph)"
| window: "pump_display events s = (False, s') \<Longrightarrow> machine_step h (s, sent, ph) (s', sent, ph)"

inductive_cases machine_stepE: "machine_step h (s, sent, ph) (s', sent', ph')"

inductive machine_reachable :: "('f, 'x, 'y) host \<Rightarrow> ('f, 'x, 'y) machine_state \<Rightarrow> ('f, 'x, 'y) machine_state \<Rightarrow> bool" for h s0 where
  start: "machine_reachable h s0 s0"
| step: "machine_reachable h s0 s \<Longrightarrow> machine_step h s s' \<Longrightarrow> machine_reachable h s0 s'"

lemma io_ranges_update:
  "i < length rs \<Longrightarrow> io_ranges (rs[i := (rs ! i)\<lparr>io_device := d\<rparr>]) = io_ranges rs"
  by (rule nth_equalityI) (auto simp: io_ranges_def nth_list_update)

lemma mmio_ranges_update:
  "i < length rs \<Longrightarrow> mmio_ranges (rs[i := (rs ! i)\<lparr>mmio_device := d\<rparr>]) = mmio_ranges rs"
  by (rule nth_equalityI) (auto simp: mmio_ranges_def nth_list_update)

lemma sel_ok_device [simp]: "sel_ok (t\<lparr>device := d\<rparr>) = sel_ok t"
  by (simp add: sel_ok_def)

lemma files_changed_ok:
  assumes "machine_ok io mm s" "i < length (mmio_map s)" "mmio_device (mmio_map s ! i) = FsDev t"
  shows "machine_ok io mm (s\<lparr>mmio_map := (mmio_map s)[i := (mmio_map s ! i)\<lparr>mmio_device := FsDev (t\<lparr>device := d\<rparr>)\<rparr>]\<rparr>)"
proof -
  have "mmio_dev_ok (mmio_device (mmio_map s ! i))" using assms(1) nth_mem [OF assms(2)] by (auto simp: machine_ok_def)
  then have "mmio_dev_ok (FsDev t)" by (simp only: assms(3))
  then show ?thesis
    using assms(1,2) set_update_subset_insert by (fastforce simp: machine_ok_def mmio_ranges_update)
qed

lemma pump_regions_ok:
  "pump_regions events rs = (quit, rs') \<Longrightarrow> \<forall>r \<in> set rs. mmio_dev_ok (mmio_device r) \<Longrightarrow>
    mmio_ranges rs' = mmio_ranges rs \<and> (\<forall>r \<in> set rs'. mmio_dev_ok (mmio_device r))"
proof (induction rs arbitrary: quit rs')
  case (Cons r rs)
  then show ?case
    by (cases "mmio_device r") (auto simp: mmio_ranges_def Let_def split: prod.splits)
qed simp

lemma pump_display_ok: "pump_display events s = (quit, s') \<Longrightarrow> machine_ok io mm s \<Longrightarrow> machine_ok io mm s'"
  by (auto simp: pump_display_def machine_ok_def Let_def split: prod.splits dest: pump_regions_ok)

lemma machine_step_ok:
  assumes "machine_step h (s, sent, ph) (s', sent', ph')" "machine_ok io mm s"
  shows "machine_ok io mm s'"
  using assms(1)
proof (rule machine_stepE)
  fix x r assume "handle_exit h s x = Some (Continue r s')"
  with assms(2) show ?thesis by (rule handle_exit_ok)
next
  assume "tick_part h (s, sent, ph) = Some (s', sent', ph')"
  with assms(2) show ?thesis by (rule tick_part_ok)
next
  fix events assume "pump_display events s = (False, s')"
  then show ?thesis using assms(2) by (rule pump_display_ok)
next
  fix i t x'
  assume "s' = s\<lparr>mmio_map := (mmio_map s)[i := (mmio_map s ! i)\<lparr>mmio_device := FsDev (t\<lparr>device := (device t)\<lparr>fs_host := x'\<rparr>\<rparr>)\<rparr>]\<rparr>"
    "i < length (mmio_map s)" "mmio_device (mmio_map s ! i) = FsDev t"
  then show ?thesis using files_changed_ok [OF assms(2)] by simp
qed (use assms(2) in \<open>auto simp: machine_ok_def io_ranges_update\<close>)

lemma machine_reachable_ok:
  assumes "machine_reachable h (s0, sent0, TickMmio) (s, sent, ph)" "machine_ok io mm s0"
  shows "machine_ok io mm s"
proof -
  have "machine_ok io mm (fst st)" if "machine_reachable h (s0, sent0, TickMmio) st" for st
    using that
  proof (induction rule: machine_reachable.induct)
    case (step s s')
    then show ?case
      using machine_step_ok [of h "fst s" "fst (snd s)" "snd (snd s)" "fst s'" "fst (snd s')" "snd (snd s')"] by simp
  qed (use assms(2) in simp)
  from this [OF assms(1)] show ?thesis by simp
qed

abbreviation main_io_ranges :: "(u16 \<times> u16) list" where
  "main_io_ranges \<equiv> [(0x40, 0x43), (0x3f8, 0x3ff), (0x2f8, 0x2ff), (0x3E8, 0x3EF), (0x70, 0x71)]"

abbreviation main_mmio_ranges :: "(u64 \<times> u64) list" where
  "main_mmio_ranges \<equiv> [(0x400000000, 0x400000FFF), (0x400001000, 0x400001FFF), (0x400002000, 0x400002FFF),
     (0x400003000, 0x400003FFF), (0x400004000, 0x400004FFF), (0x400005000, 0x400005FFF)]"

lemma main_machine_ok: "main_machine st h img files e = Some s \<Longrightarrow> machine_ok main_io_ranges main_mmio_ranges s"
  by (auto simp: machine_ok_def main_machine_def wire_io_def wire_mmio_def main_io_regions_def
      main_mmio_regions_def io_map_register_def mmio_map_register_def io_region_irq_handler_def
      mmio_region_irq_handler_def mmio_region_pass_guest_memory_def io_ranges_def mmio_ranges_def
      new_io_region_def new_mmio_region_def machine_mmio_def transport_irq_handler_def
      transport_pass_guest_memory_def sel_ok_def new_mmio_transport_def Let_def elim!: bind_SomeE)

lemma main_machine_returns_iff:
  "(\<exists>s. main_machine st h img files e = Some s) \<longleftrightarrow> list_all (accepts st) start_steps"
  by (simp add: main_machine_def main_start_result main_mmio_regions_def new_gpu_def new_gpu_config_def Let_def)

section \<open>Reads are answered\<close>

lemma io_dev_input_total: "\<exists>bs d' e'. io_input (machine_io h) d port n e = Some (bs, d', e')"
  by (cases d)
    (auto simp: machine_io_def wrap_in_def pit_ops_def pit_input_def serial_ops_def serial_input_def cmos_ops_def
      cmos_input_def Let_def split: prod.splits)

lemma io_map_input_total: "\<exists>r rs' e'. io_map_input (machine_io h) rs port n e = Some (r, rs', e')"
proof (induction rs)
  case (Cons r rs)
  obtain bs d' e' where "io_input (machine_io h) (io_device r) (port - port_start r) n e = Some (bs, d', e')"
    using io_dev_input_total by blast
  with Cons show ?case by (auto simp: io_region_input_def)
qed simp

lemma tr_read_total:
  "sel_ok t \<Longrightarrow> a < 0x100 \<Longrightarrow> n \<le> 8 \<Longrightarrow> \<exists>bs t' e'. tr_read ops t a n e = Some (bs, t', e')"
  using register_read_total [of t a n ops "env_irqs e"] by (auto simp: tr_read_def)

lemma wrapped_read_total:
  "sel_ok t \<Longrightarrow> a < 0x100 \<Longrightarrow> n \<le> 8 \<Longrightarrow> \<exists>bs d' e'. wrap_in C (tr_read ops t a n e) = Some (bs, d', e')"
  using tr_read_total [of t a n ops e] by (auto simp: wrap_in_def)

lemma mmio_register_read_total:
  assumes "mmio_dev_ok d" "a < 0x100" "n \<le> 8"
  shows "\<exists>bs d' e'. dev_read (machine_mmio h) d a n e = Some (bs, d', e')"
  using assms by (cases d) (simp_all add: machine_mmio_def wrapped_read_total)

section \<open>Ranges of the main program\<close>

definition ranges_apart :: "('a::linorder \<times> 'a) list \<Rightarrow> bool" where
  "ranges_apart rs \<longleftrightarrow> sorted_wrt (\<lambda>x y. snd x < fst y \<or> snd y < fst x) rs"

lemma ranges_apart_unique:
  assumes "ranges_apart rs" "i < length rs" "j < length rs"
    and "fst (rs ! i) \<le> a" "a \<le> snd (rs ! i)" "fst (rs ! j) \<le> a" "a \<le> snd (rs ! j)"
  shows "i = j"
proof (rule ccontr)
  assume "i \<noteq> j"
  then have "snd (rs ! i) < fst (rs ! j) \<or> snd (rs ! j) < fst (rs ! i)"
    using assms(1-3) unfolding ranges_apart_def sorted_wrt_iff_nth_less by (metis linorder_neq_iff)
  with assms(4-7) show False by auto
qed

lemma io_disjoint_ranges: "ranges_apart (io_ranges rs) \<Longrightarrow> io_disjoint rs"
  unfolding io_disjoint_def io_contains_def
  using ranges_apart_unique [of "io_ranges rs"] by (simp add: io_ranges_def) blast

lemma main_io_disjoint: "io_ranges rs = main_io_ranges \<Longrightarrow> io_disjoint rs"
  by (rule io_disjoint_ranges) (simp add: ranges_apart_def)

lemma main_reachable:
  assumes "main_machine st h img files e0 = Some s0" "machine_reachable h (s0, sent0, TickMmio) (s, sent, ph)"
  shows "io_ranges (io_map s) = main_io_ranges" "mmio_ranges (mmio_map s) = main_mmio_ranges"
    "\<forall>r \<in> set (mmio_map s). mmio_dev_ok (mmio_device r)"
  using machine_reachable_ok [OF assms(2) main_machine_ok [OF assms(1)]] by (simp_all add: machine_ok_def)

lemma io_read_answered: "\<exists>bs s'. handle_exit h s (IoIn port n) = Some (Continue (Some bs) s') \<and> length bs = n"
proof -
  obtain r rs' e' where r: "io_map_input (machine_io h) (io_map s) port n (env s) = Some (r, rs', e')"
    using io_map_input_total by blast
  then show ?thesis
    by (cases r) (auto simp: handle_exit_def Let_def dest: io.io_map_input_length)
qed

lemma mmio_map_register_read:
  assumes "\<forall>r \<in> set rs. mmio_dev_ok (mmio_device r)" "\<forall>r \<in> set rs. mmio_contains r a \<longrightarrow> a - addr_start r < 0x100"
    and "n \<le> 8"
  shows "\<exists>ret rs' e'. mmio_map_read p (machine_mmio h) rs a n e = Some (ret, rs', e')"
  using assms(1,2)
proof (induction rs)
  case (Cons r rs)
  show ?case
  proof (cases "mmio_contains r a")
    case True
    then obtain bs d' e' where "dev_read (machine_mmio h) (mmio_device r) (a - addr_start r) n e = Some (bs, d', e')"
      using mmio_register_read_total [of "mmio_device r" "a - addr_start r" n h e] Cons.prems assms(3) by auto
    with True show ?thesis by (simp add: mmio_region_read_def)
  next
    case False
    with Cons show ?thesis by auto
  qed
qed simp

section \<open>Properties\<close>

text \<open>A test host: no fuel is needed by what follows, random bytes are all seven.\<close>

definition demo_host :: "(rat, unit, unit) host" where
  "demo_host = \<lparr>h_profile = Dev, h_float = rat_ops, h_fuel = 1000, h_rand = (\<lambda>_ n. replicate n 7), h_disk = good_disk,
     h_tap = \<lparr>tap_recv = (\<lambda>_. WouldBlock), tap_send_ok = (\<lambda>_ _. True)\<rparr>, h_sdl = (\<lambda>_ _. True), h_fs = small_host\<rparr>"

definition demo_env :: machine_env where
  "demo_env = \<lparr>env_irqs = [], env_utc = env_utc quiet_env, env_instant = 0, env_next_instant = 0, env_mem = []\<rparr>"

definition demo_setup :: "(unit, unit) setup_host" where
  "demo_setup = \<lparr>accepts = (\<lambda>_. True), sdl_message = (\<lambda>_. []), canvas_error = (), texture_error = ()\<rparr>"

definition demo_machine :: "(rat, unit, unit) machine" where
  "demo_machine = the (main_machine demo_setup demo_host [] () demo_env)"

lemma demo_machine: "main_machine demo_setup demo_host [] () demo_env = Some demo_machine"
proof -
  have "list_all (accepts demo_setup) start_steps" by (simp add: demo_setup_def list.pred_True)
  then show ?thesis
    using main_machine_returns_iff [of demo_setup demo_host "[]" "()" demo_env] by (auto simp: demo_machine_def)
qed

text \<open>C24: In every state that the main program's machine can reach, whatever its processors, the tick thread
  and the keyboard have done, a guest read is answered and does not end the run: a port read of any
  port and size, and a read of at most eight bytes anywhere but in the configuration space of a
  virtio device. The answer has as many bytes as were asked for.\<close>

theorem guest_reads_answered:
  assumes "main_machine st h img files e0 = Some s0" "machine_reachable h (s0, sent0, TickMmio) (s, sent, ph)"
  shows "(\<exists>bs s'. handle_exit h s (IoIn port n) = Some (Continue (Some bs) s') \<and> length bs = n) \<and>
    (k \<le> 8 \<and> (\<forall>r \<in> set (mmio_map s). mmio_contains r a \<longrightarrow> a - addr_start r < 0x100) \<longrightarrow>
      (\<exists>bs s'. handle_exit h s (MmioRead a k) = Some (Continue (Some bs) s') \<and> length bs = k))"
proof (intro conjI impI io_read_answered)
  assume *: "k \<le> 8 \<and> (\<forall>r \<in> set (mmio_map s). mmio_contains r a \<longrightarrow> a - addr_start r < 0x100)"
  obtain ret rs' e' where "mmio_map_read (h_profile h) (machine_mmio h) (mmio_map s) a k (env s) = Some (ret, rs', e')"
    using mmio_map_register_read [OF main_reachable(3) [OF assms]] * by blast
  then show "\<exists>bs s'. handle_exit h s (MmioRead a k) = Some (Continue (Some bs) s') \<and> length bs = k"
    by (cases ret) (auto simp: handle_exit_def Let_def dest: mm.mmio_map_read_length)
qed

theorem guest_reads_answered_witness:
  "\<exists>bs s'. handle_exit demo_host demo_machine (IoIn 0x71 2) = Some (Continue (Some bs) s') \<and>
     length bs = 2"
  using guest_reads_answered [OF demo_machine machine_reachable.start, of "0x71" 2] by blast

text \<open>C25: A port access reaches exactly the device whose range contains the port, in every reachable state
  of the main program's machine: the device sees the offset inside its range, its answer goes back to
  the guest unchanged, and no other device is touched; a port of no device reads as all ones.\<close>

theorem port_read_dispatch:
  assumes "main_machine st h img files e0 = Some s0" "machine_reachable h (s0, sent0, TickMmio) (s, sent, ph)"
  shows "(i < length (io_map s) \<and> io_contains (io_map s ! i) port \<longrightarrow>
      handle_exit h s (IoIn port n) =
        do {
          (bs, d, e) \<leftarrow> io_dev_input h (io_device (io_map s ! i)) (port - port_start (io_map s ! i)) n (env s);
          Some (Continue (Some bs) (s\<lparr>io_map := (io_map s)[i := (io_map s ! i)\<lparr>io_device := d\<rparr>], env := e\<rparr>))
        }) \<and>
    ((\<forall>r \<in> set (io_map s). \<not> io_contains r port) \<longrightarrow>
      handle_exit h s (IoIn port n) = Some (Continue (Some (replicate n 0xFF)) (s\<lparr>io_map := io_map s, env := env s\<rparr>)))"
proof (intro conjI impI)
  assume *: "i < length (io_map s) \<and> io_contains (io_map s ! i) port"
  note dj = main_io_disjoint [OF main_reachable(1) [OF assms]]
  have "\<forall>j < i. \<not> io_contains (io_map s ! j) port"
    using io_disjoint_first [OF dj] * by blast
  note first = io_map_input_first [OF _ _ this, where ops = "machine_io h" and n = n and e = "env s"]
  have len: "length bs = n" if "io_dev_input h d q n e = Some (bs, d', e')" for d q e bs d' e'
    using io.input_length [of h d q n e bs d' e'] that by (simp add: machine_io_def)
  show "handle_exit h s (IoIn port n) =
      do {
        (bs, d, e) \<leftarrow> io_dev_input h (io_device (io_map s ! i)) (port - port_start (io_map s ! i)) n (env s);
        Some (Continue (Some bs) (s\<lparr>io_map := (io_map s)[i := (io_map s ! i)\<lparr>io_device := d\<rparr>], env := e\<rparr>))
      }"
    using first * by (auto simp: handle_exit_def machine_io_def Let_def len split: bind_splits)
next
  assume "\<forall>r \<in> set (io_map s). \<not> io_contains r port"
  then show "handle_exit h s (IoIn port n) =
      Some (Continue (Some (replicate n 0xFF)) (s\<lparr>io_map := io_map s, env := env s\<rparr>))"
    by (simp add: handle_exit_def io_map_none Let_def)
qed

theorem port_read_dispatch_witness:
  "handle_exit demo_host demo_machine (IoIn 0x80 2) =
     Some (Continue (Some [0xFF, 0xFF]) demo_machine)"
proof -
  have "\<forall>r \<in> set (io_map demo_machine). \<not> io_contains r 0x80"
  proof
    fix r assume "r \<in> set (io_map demo_machine)"
    then have "(port_start r, port_end r) \<in> set (io_ranges (io_map demo_machine))" by (auto simp: io_ranges_def)
    then show "\<not> io_contains r 0x80" using main_machine_ok [OF demo_machine] by (auto simp: machine_ok_def io_contains_def)
  qed
  with port_read_dispatch [OF demo_machine machine_reachable.start, where i = 0 and port = "0x80" and n = 2] show ?thesis
    by (simp add: numeral_2_eq_2)
qed

text \<open>C26: Over any sequence of answers from KVM, the run loop of a processor ends with an error exactly when it comes to an
  answer that calls for one, and with that error: the guest wrote to the power-off port (Hlt), KVM reported a failed
  entry, a shutdown or an exit the loop does not know, the call of KVM failed for another reason than an
  interruption, or there is no such processor or its mutex is poisoned (RunError). The state is the one that
  the answers before it led to. So the two errors for a device answering with the wrong number of bytes, and
  those for a device answering nothing, never happen.\<close>

theorem exit_crash_reasons:
  "run_loop h vcpus vid s rs = Some (Crash c s') \<longleftrightarrow>
    (\<exists>pre r post. rs = pre @ r # post \<and> run_loop h vcpus vid s pre = Some (Continue None s') \<and>
      (c = RunError \<and> (vcpus \<le> vid \<or> r = RunFailed \<or> r = VcpuPoisoned) \<or>
       vid < vcpus \<and>
         (c = Hlt \<and> (\<exists>data. r = Exited (IoOut 0x500 data)) \<or> c = FailedEntry \<and> r = Exited FailEntry \<or>
          c = ShutdownCrash \<and> r = Exited Shutdown \<or> c = UnhandledExit \<and> r = Exited OtherExit)))"
proof -
  have "crash_cause vcpus vid r = Some c \<longleftrightarrow>
      c = RunError \<and> (vcpus \<le> vid \<or> r = RunFailed \<or> r = VcpuPoisoned) \<or>
      vid < vcpus \<and>
        (c = Hlt \<and> (\<exists>data. r = Exited (IoOut 0x500 data)) \<or> c = FailedEntry \<and> r = Exited FailEntry \<or>
         c = ShutdownCrash \<and> r = Exited Shutdown \<or> c = UnhandledExit \<and> r = Exited OtherExit)" for r
  proof (cases r)
    case (Exited x)
    then show ?thesis by (cases x) (auto simp: crash_cause_def)
  qed (auto simp: crash_cause_def)
  then show ?thesis by (simp only: run_loop_crash)
qed

end
