(* ===== verification/Machine_Irqs.thy ===== *)
theory Machine_Irqs
  imports Machine
begin

text \<open>
  Interrupts of the whole machine. Every device only adds commands for its own line at the end of the shared
  queue, whatever operation is called; the maps hand this on. So the tick thread delivers what was
  queued, in that order, while the processors go on queueing, and the line of a virtio device that no other device
  uses follows its interrupt status.
\<close>

section \<open>Operations add to the queue\<close>

definition irqs_extend :: "u32 set \<Rightarrow> irq_queue \<Rightarrow> irq_queue \<Rightarrow> bool" where
  "irqs_extend ls q q' \<longleftrightarrow> (\<exists>cs. q' = q @ cs \<and> (\<forall>c \<in> set cs. irq_line c \<in> ls))"

lemma irqs_extend_refl [simp, intro]: "irqs_extend ls q q"
  by (simp add: irqs_extend_def)

lemma irqs_extend_trans: "irqs_extend ls q q' \<Longrightarrow> irqs_extend ls q' q'' \<Longrightarrow> irqs_extend ls q q''"
  by (fastforce simp: irqs_extend_def)

lemma irqs_extend_mono: "irqs_extend ls q q' \<Longrightarrow> ls \<subseteq> ls' \<Longrightarrow> irqs_extend ls' q q'"
  by (auto simp: irqs_extend_def)

lemma irqs_extend_trigger [simp]: "irq_line c \<in> ls \<Longrightarrow> irqs_extend ls q (trigger_irq q c)"
  by (simp add: irqs_extend_def trigger_irq_def)

lemma irqs_extend_set_line [simp]: "irq_sel t \<in> ls \<Longrightarrow> irqs_extend ls q (set_irq_line t v q)"
  by (auto simp: set_irq_line_def)

lemma line_level_other: "\<forall>c \<in> set cs. irq_line c \<noteq> l \<Longrightarrow> line_level l lv cs = lv"
  by (induction cs) auto

lemma irqs_extend_level: "irqs_extend ls q q' \<Longrightarrow> l \<notin> ls \<Longrightarrow> line_level l lv q' = line_level l lv q"
  by (auto simp: irqs_extend_def) (metis line_level_other)+

section \<open>Transports\<close>

definition irq_local :: "'d mmio_transport \<Rightarrow> irq_queue \<Rightarrow> 'd mmio_transport \<Rightarrow> irq_queue \<Rightarrow> bool" where
  "irq_local t q t' q' \<longleftrightarrow> irq_sel t' = irq_sel t \<and> irqs_extend {irq_sel t} q q'"

lemma mmio_read_local: "mmio_read ops t a n q = Some (bs, t', q') \<Longrightarrow> irq_local t q t' q'"
  by (auto simp: mmio_read_def read_register_def irq_local_def Let_def split: if_splits elim!: bind_SomeE)

lemma notify_queue_local: "notify_queue ops t i m q = Some (t', m', q') \<Longrightarrow> irq_local t q t' q'"
  by (auto simp: notify_queue_def irq_local_def Let_def split: if_splits elim!: bind_SomeE)

lemma update_queue_sel: "update_queue t f = Some t' \<Longrightarrow> irq_sel t' = irq_sel t"
  by (auto simp: update_queue_def elim!: bind_SomeE)

lemma mmio_write_local:
  assumes "mmio_write ops t a data m q = Some (t', m', q')"
  shows "irq_local t q t' q'"
proof -
  consider (notify) "a = 0x050" | (ack) "a = 0x060 \<or> a = 0x064 \<or> a = 0x070"
    | (queue) "a \<in> {0x038, 0x044, 0x080, 0x084, 0x090, 0x094, 0x0A0, 0x0A4}"
    | (plain) "a \<notin> {0x050, 0x070, 0x060, 0x064, 0x038, 0x044, 0x080, 0x084, 0x090, 0x094, 0x0A0, 0x0A4}"
    by auto
  then show ?thesis
  proof cases
    case notify
    with assms show ?thesis by (auto simp: mmio_write_def elim!: bind_SomeE intro: notify_queue_local)
  next
    case ack
    with assms show ?thesis
      by (auto simp: mmio_write_def irq_local_def reset_transport_def Let_def split: if_splits elim!: bind_SomeE)
  next
    case queue
    with assms show ?thesis by (auto simp: mmio_write_def irq_local_def elim!: bind_SomeE dest: update_queue_sel)
  next
    case plain
    with assms show ?thesis by (auto simp: mmio_write_def irq_local_def Let_def split: if_splits elim!: bind_SomeE)
  qed
qed

lemma mmio_tick_local: "mmio_tick ops t m q = Some (t', m', q') \<Longrightarrow> irq_local t q t' q'"
  by (auto simp: mmio_tick_def irq_local_def Let_def split: if_splits prod.splits elim!: bind_SomeE)

text \<open>The line of a transport follows its status, for some number of queues.\<close>

definition line_follows :: "'d mmio_transport \<Rightarrow> bool \<Rightarrow> irq_queue \<Rightarrow> bool" where
  "line_follows t lv q \<longleftrightarrow> (\<exists>n. transport_inv n (irq_sel t) t lv q)"

lemma line_follows_prefix: "line_follows t lv (cs @ q) \<longleftrightarrow> line_follows t (line_level (irq_sel t) lv cs) q"
  by (simp add: line_follows_def transport_inv_def)

lemma line_follows_device: "line_follows (t\<lparr>device := d\<rparr>) lv q \<longleftrightarrow> line_follows t lv q"
  by (simp add: line_follows_def transport_inv_def)

lemma line_follows_other:
  assumes "irqs_extend ls q q'" "irq_sel t \<notin> ls"
  shows "line_follows t lv q' = line_follows t lv q"
  using irqs_extend_level [OF assms] by (simp add: line_follows_def transport_inv_def)

definition tr_step :: "'d mmio_transport \<Rightarrow> machine_env \<Rightarrow> 'd mmio_transport \<Rightarrow> machine_env \<Rightarrow> bool" where
  "tr_step t e t' e' \<longleftrightarrow> irq_local t (env_irqs e) t' (env_irqs e') \<and>
     (\<forall>lv. line_follows t lv (env_irqs e) \<longrightarrow> line_follows t' lv (env_irqs e'))"

lemma tr_steps:
  "tr_read ops t a n e = Some (bs, t', e') \<Longrightarrow> tr_step t e t' e'"
  "tr_write ops t a d e = Some (t', e') \<Longrightarrow> tr_step t e t' e'"
  "virtio_device ops \<Longrightarrow> tr_tick ops t e = Some (t', e') \<Longrightarrow> tr_step t e t' e'"
  by (auto simp: tr_read_def tr_write_def tr_tick_def tr_step_def line_follows_def elim!: bind_SomeE
      dest: mmio_read_local mmio_write_local mmio_tick_local)
    (metis irq_local_def mmio_read_local mmio_write_local mmio_tick_local transport_inv_read transport_inv_write
      virtio_device.transport_inv_tick)+

section \<open>Devices\<close>

primrec dev_line :: "('x, 'y) mmio_dev \<Rightarrow> u32" where
  "dev_line (RngDev t) = irq_sel t"
| "dev_line (CntDev t) = irq_sel t"
| "dev_line (BlkDev t) = irq_sel t"
| "dev_line (ConsoleDev t) = irq_sel t"
| "dev_line (NetDev t) = irq_sel t"
| "dev_line (GpuDev t) = irq_sel t"
| "dev_line (FsDev t) = irq_sel t"

primrec dev_status :: "('x, 'y) mmio_dev \<Rightarrow> u32" where
  "dev_status (RngDev t) = interrupt_status t"
| "dev_status (CntDev t) = interrupt_status t"
| "dev_status (BlkDev t) = interrupt_status t"
| "dev_status (ConsoleDev t) = interrupt_status t"
| "dev_status (NetDev t) = interrupt_status t"
| "dev_status (GpuDev t) = interrupt_status t"
| "dev_status (FsDev t) = interrupt_status t"

primrec dev_follows :: "('x, 'y) mmio_dev \<Rightarrow> bool \<Rightarrow> irq_queue \<Rightarrow> bool" where
  "dev_follows (RngDev t) = line_follows t"
| "dev_follows (CntDev t) = line_follows t"
| "dev_follows (BlkDev t) = line_follows t"
| "dev_follows (ConsoleDev t) = line_follows t"
| "dev_follows (NetDev t) = line_follows t"
| "dev_follows (GpuDev t) = line_follows t"
| "dev_follows (FsDev t) = line_follows t"

definition mmio_dev_step :: "('x, 'y) mmio_dev \<Rightarrow> machine_env \<Rightarrow> ('x, 'y) mmio_dev \<Rightarrow> machine_env \<Rightarrow> bool" where
  "mmio_dev_step d e d' e' \<longleftrightarrow> dev_line d' = dev_line d \<and> irqs_extend {dev_line d} (env_irqs e) (env_irqs e') \<and>
     (\<forall>lv. dev_follows d lv (env_irqs e) \<longrightarrow> dev_follows d' lv (env_irqs e'))"

primrec io_lines :: "'f io_dev \<Rightarrow> u32 set" where
  "io_lines (Timer p) = {pit_line p}"
| "io_lines (Com c) = {4}"
| "io_lines (Rtc c) = {}"

definition io_dev_step :: "'f io_dev \<Rightarrow> machine_env \<Rightarrow> 'f io_dev \<Rightarrow> machine_env \<Rightarrow> bool" where
  "io_dev_step d e d' e' \<longleftrightarrow> io_lines d' = io_lines d \<and> irqs_extend (io_lines d) (env_irqs e) (env_irqs e')"

lemma mmio_dev_step_tr:
  "tr_step t e t' e' \<Longrightarrow> mmio_dev_step (RngDev t) e (RngDev t') e'"
  "tr_step u e u' e' \<Longrightarrow> mmio_dev_step (CntDev u) e (CntDev u') e'"
  "tr_step v e v' e' \<Longrightarrow> mmio_dev_step (BlkDev v) e (BlkDev v') e'"
  "tr_step w e w' e' \<Longrightarrow> mmio_dev_step (ConsoleDev w) e (ConsoleDev w') e'"
  "tr_step x e x' e' \<Longrightarrow> mmio_dev_step (NetDev x) e (NetDev x') e'"
  "tr_step y e y' e' \<Longrightarrow> mmio_dev_step (GpuDev y) e (GpuDev y') e'"
  "tr_step z e z' e' \<Longrightarrow> mmio_dev_step (FsDev z) e (FsDev z') e'"
  by (simp_all add: mmio_dev_step_def tr_step_def irq_local_def)

lemma mmio_dev_steps:
  "dev_read (machine_mmio h) d a n e = Some (bs, d', e') \<Longrightarrow> mmio_dev_step d e d' e'"
  "dev_write (machine_mmio h) d a data e = Some (d', e') \<Longrightarrow> mmio_dev_step d e d' e'"
  "dev_poll (machine_mmio h) d e = Some (d', e') \<Longrightarrow> mmio_dev_step d e d' e'"
  by (cases d; auto simp: machine_mmio_def wrap_in_Some wrap_out_Some intro!: mmio_dev_step_tr
      dest: tr_steps tr_steps(3) [OF rng.virtio_device_axioms] tr_steps(3) [OF cnt.virtio_device_axioms]
        tr_steps(3) [OF blk.virtio_device_axioms] tr_steps(3) [OF console.virtio_device_axioms]
        tr_steps(3) [OF net.virtio_device_axioms] tr_steps(3) [OF gpu.virtio_device_axioms]
        tr_steps(3) [OF fs.virtio_device_axioms])+

lemma pit_fire_extend: "pit_fire fuel fl period l acc q = Some (acc', q') \<Longrightarrow> irqs_extend {l} q q'"
proof (induction fuel arbitrary: acc q)
  case (Suc fuel)
  let ?q = "trigger_irq (trigger_irq q (new_irq_command l True)) (new_irq_command l False)"
  show ?case
  proof (cases "f_ge fl acc period")
    case True
    then have "irqs_extend {l} ?q q'" using Suc by simp
    moreover have "irqs_extend {l} q ?q" by (rule irqs_extend_trans [OF irqs_extend_trigger irqs_extend_trigger]) simp_all
    ultimately show ?thesis by (blast intro: irqs_extend_trans)
  qed (use Suc.prems in simp)
qed (auto split: if_splits)

lemma pit_steps:
  "pit_output fl s port data e = Some (s', e') \<Longrightarrow> pit_line s' = pit_line s \<and> e' = e"
  "pit_tick fuel fl s e = Some (s', e') \<Longrightarrow> pit_line s' = pit_line s \<and> irqs_extend {pit_line s} (env_irqs e) (env_irqs e')"
  by (auto simp: pit_output_def pit_command_def pit_data_def update_period_def pit_tick_def Let_def
      split: if_splits elim!: bind_SomeE dest: pit_fire_extend)

lemma update_iir_extend: "irqs_extend {4} q (snd (update_iir s q))"
  by (auto simp: update_iir_def Let_def ser_trigger_irq_def deassert_irq_def split: prod.splits)

lemma with_iir_extend: "with_iir s e = (s', e') \<Longrightarrow> irqs_extend {4} (env_irqs e) (env_irqs e')"
  using update_iir_extend [of "env_irqs e" s] by (auto simp: with_iir_def split: prod.splits)

lemma serial_steps:
  "serial_input s port n e = Some (bs, s', e') \<Longrightarrow> irqs_extend {4} (env_irqs e) (env_irqs e')"
  "serial_output s port data e = Some (s', e') \<Longrightarrow> irqs_extend {4} (env_irqs e) (env_irqs e')"
  "serial_tick s e = Some (s', e') \<Longrightarrow> irqs_extend {4} (env_irqs e) (env_irqs e')"
proof -
  show "serial_input s port n e = Some (bs, s', e') \<Longrightarrow> irqs_extend {4} (env_irqs e) (env_irqs e')"
    using update_iir_extend [of "env_irqs e"]
    by (auto simp: serial_input_def Let_def split: if_splits prod.splits) (metis snd_conv)
qed (auto simp: serial_output_def serial_tick_def Let_def split: if_splits prod.splits elim!: bind_SomeE
    dest: with_iir_extend)

lemma cmos_steps:
  "cmos_input c port n e = Some (bs, c', e') \<Longrightarrow> e' = e" "cmos_output c port data e = Some (c', e') \<Longrightarrow> e' = e"
  by (auto simp: cmos_input_def cmos_output_def Let_def split: if_splits elim!: bind_SomeE)

lemma io_dev_steps:
  "io_input (machine_io h) d port n e = Some (bs, d', e') \<Longrightarrow> io_dev_step d e d' e'"
  "io_output (machine_io h) d port data e = Some (d', e') \<Longrightarrow> io_dev_step d e d' e'"
  "io_tick (machine_io h) d e = Some (d', e') \<Longrightarrow> io_dev_step d e d' e'"
  by (cases d; auto simp: machine_io_def wrap_in_Some wrap_out_Some io_dev_step_def pit_ops_def serial_ops_def
      cmos_ops_def pit_input_def dest: pit_steps serial_steps cmos_steps)+

section \<open>Maps\<close>

text \<open>A sequence of device operations, each related by \<open>R\<close>, over a list of devices that share an environment.\<close>

inductive touched :: "('d \<Rightarrow> 'e \<Rightarrow> 'd \<Rightarrow> 'e \<Rightarrow> bool) \<Rightarrow> 'd list \<Rightarrow> 'e \<Rightarrow> 'd list \<Rightarrow> 'e \<Rightarrow> bool" for R ds e where
  none: "touched R ds e ds e"
| device: "touched R ds e ds' e' \<Longrightarrow> i < length ds' \<Longrightarrow> R (ds' ! i) e' d e'' \<Longrightarrow> touched R ds e (ds'[i := d]) e''"

lemma touched_head: "R d e d' e' \<Longrightarrow> touched R (d # ds) e (d' # ds) e'"
  using touched.device [OF touched.none, of 0 "d # ds" R e d' e'] by simp

lemma touched_tail: "touched R ds e ds' e' \<Longrightarrow> touched R (d # ds) e (d # ds') e'"
proof (induction rule: touched.induct)
  case (device ds' e' i d' e'')
  from touched.device [OF device(4), of "Suc i" d' e''] device(2,3) show ?case by simp
qed (rule touched.none)

lemma touched_trans: "touched R ds' e' ds'' e'' \<Longrightarrow> touched R ds e ds' e' \<Longrightarrow> touched R ds e ds'' e''"
  by (induction rule: touched.induct) (auto intro: touched.device)

locale io_touches =
  fixes ops :: "('d, 'e) io_ops" and R :: "'d \<Rightarrow> 'e \<Rightarrow> 'd \<Rightarrow> 'e \<Rightarrow> bool"
  assumes input_step: "io_input ops d port n e = Some (bs, d', e') \<Longrightarrow> R d e d' e'"
    and output_step: "io_output ops d port data e = Some (d', e') \<Longrightarrow> R d e d' e'"
    and tick_step: "io_tick ops d e = Some (d', e') \<Longrightarrow> R d e d' e'"
begin

lemma map_input_touched:
  "io_map_input ops rs port n e = Some (r, rs', e') \<Longrightarrow> touched R (map io_device rs) e (map io_device rs') e'"
  by (induction rs arbitrary: rs')
    (auto simp: io_region_input_def split: if_splits elim!: bind_SomeE intro: touched.none touched_tail touched_head [where R = R, OF input_step])

lemma map_output_touched:
  "io_map_output ops rs port data e = Some (r, rs', e') \<Longrightarrow> touched R (map io_device rs) e (map io_device rs') e'"
  by (induction rs arbitrary: rs')
    (auto simp: io_region_output_def split: if_splits elim!: bind_SomeE intro: touched.none touched_tail touched_head [where R = R, OF output_step])

lemma map_tick_touched:
  "io_map_tick ops rs e = Some (rs', e') \<Longrightarrow> touched R (map io_device rs) e (map io_device rs') e'"
proof (induction rs arbitrary: rs' e)
  case (Cons r rs)
  then obtain d e1 rs1 where s: "io_tick ops (io_device r) e = Some (d, e1)" "io_map_tick ops rs e1 = Some (rs1, e')"
    "map io_device rs' = d # map io_device rs1"
    by (auto simp: io_region_tick_def elim!: bind_SomeE)
  show ?case
    using touched_trans [OF touched_tail [OF Cons.IH [OF s(2)]] touched_head [where R = R, OF tick_step [OF s(1)]]] s(3) by simp
qed (simp add: touched.none)

end

locale mmio_touches =
  fixes ops :: "('d, 'e) mmio_ops" and R :: "'d \<Rightarrow> 'e \<Rightarrow> 'd \<Rightarrow> 'e \<Rightarrow> bool"
  assumes read_step: "dev_read ops d a n e = Some (bs, d', e') \<Longrightarrow> R d e d' e'"
    and write_step: "dev_write ops d a data e = Some (d', e') \<Longrightarrow> R d e d' e'"
    and poll_step: "dev_poll ops d e = Some (d', e') \<Longrightarrow> R d e d' e'"
begin

lemma map_read_touched:
  "mmio_map_read p ops rs a n e = Some (r, rs', e') \<Longrightarrow> touched R (map mmio_device rs) e (map mmio_device rs') e'"
  by (induction rs arbitrary: rs')
    (auto simp: mmio_region_read_def split: if_splits elim!: bind_SomeE intro: touched.none touched_tail touched_head [where R = R, OF read_step])

lemma map_write_touched:
  "mmio_map_write p ops rs a data e = Some (r, rs', e') \<Longrightarrow> touched R (map mmio_device rs) e (map mmio_device rs') e'"
  by (induction rs arbitrary: rs')
    (auto simp: mmio_region_write_def split: if_splits elim!: bind_SomeE intro: touched.none touched_tail touched_head [where R = R, OF write_step])

lemma map_tick_touched:
  "mmio_map_tick ops rs e = Some (rs', e') \<Longrightarrow> touched R (map mmio_device rs) e (map mmio_device rs') e'"
proof (induction rs arbitrary: rs' e)
  case (Cons r rs)
  then obtain d e1 rs1 where s: "dev_poll ops (mmio_device r) e = Some (d, e1)" "mmio_map_tick ops rs e1 = Some (rs1, e')"
    "map mmio_device rs' = d # map mmio_device rs1"
    by (auto simp: mmio_region_tick_def elim!: bind_SomeE)
  show ?case
    using touched_trans [OF touched_tail [OF Cons.IH [OF s(2)]] touched_head [where R = R, OF poll_step [OF s(1)]]] s(3) by simp
qed (simp add: touched.none)

end

interpretation iot: io_touches "machine_io h" io_dev_step for h
  by unfold_locales (fact io_dev_steps)+

interpretation mmt: mmio_touches "machine_mmio h" mmio_dev_step for h
  by unfold_locales (fact mmio_dev_steps)+

lemma dev_follows_prefix: "dev_follows d lv (cs @ q) \<longleftrightarrow> dev_follows d (line_level (dev_line d) lv cs) q"
  by (cases d) (simp_all add: line_follows_prefix)

lemma dev_follows_other: "irqs_extend ls q q' \<Longrightarrow> dev_line d \<notin> ls \<Longrightarrow> dev_follows d lv q' = dev_follows d lv q"
  by (cases d) (simp_all add: line_follows_other)

lemma dev_follows_status: "dev_follows d lv q \<Longrightarrow> line_level (dev_line d) lv q \<longleftrightarrow> dev_status d \<noteq> 0"
  by (cases d) (auto simp: line_follows_def transport_inv_def)

lemma touched_io:
  "touched io_dev_step ds e ds' e' \<Longrightarrow>
    map io_lines ds' = map io_lines ds \<and> irqs_extend (\<Union> (io_lines ` set ds)) (env_irqs e) (env_irqs e')"
proof (induction rule: touched.induct)
  case (device ds' e' i d e'')
  then have "map io_lines (ds'[i := d]) = map io_lines ds"
    by (simp add: map_update io_dev_step_def) (metis length_map list_update_id nth_map)
  moreover have "io_lines (ds' ! i) \<in> set (map io_lines ds)"
    using device(2,4) by (metis length_map nth_map nth_mem)
  then have "io_lines (ds' ! i) \<subseteq> \<Union> (io_lines ` set ds)" by auto
  with device have "irqs_extend (\<Union> (io_lines ` set ds)) (env_irqs e) (env_irqs e'')"
    by (meson io_dev_step_def irqs_extend_mono irqs_extend_trans)
  ultimately show ?case by blast
qed simp

text \<open>The only device on its line.\<close>

definition lone :: "u32 list \<Rightarrow> nat \<Rightarrow> bool" where
  "lone L i \<longleftrightarrow> L ! i \<notin> {0, 4} \<and> (\<forall>j < length L. j \<noteq> i \<longrightarrow> L ! j \<noteq> L ! i)"

lemma touched_mmio:
  assumes "touched mmio_dev_step ds e ds' e'"
  shows "map dev_line ds' = map dev_line ds \<and> irqs_extend UNIV (env_irqs e) (env_irqs e') \<and>
    (\<forall>i < length ds. lone (map dev_line ds) i \<longrightarrow> dev_follows (ds ! i) lv (env_irqs e) \<longrightarrow> dev_follows (ds' ! i) lv (env_irqs e'))"
  using assms
proof (induction rule: touched.induct)
  case (device ds' e' i d e'')
  then have l: "map dev_line ds' = map dev_line ds" "length ds' = length ds"
    by (auto dest: map_eq_imp_length_eq)
  from device(3) have d: "dev_line d = dev_line (ds' ! i)" "irqs_extend {dev_line (ds' ! i)} (env_irqs e') (env_irqs e'')"
    "dev_follows (ds' ! i) lv (env_irqs e') \<Longrightarrow> dev_follows d lv (env_irqs e'')"
    by (auto simp: mmio_dev_step_def)
  have "map dev_line (ds'[i := d]) = map dev_line ds"
    using l device(2) d(1) by (metis length_map list_update_id map_update nth_map)
  moreover have "irqs_extend UNIV (env_irqs e) (env_irqs e'')"
    using device.IH d(2) by (meson irqs_extend_mono irqs_extend_trans subset_UNIV)
  moreover have "dev_follows (ds'[i := d] ! k) lv (env_irqs e'')"
    if k: "k < length ds" "lone (map dev_line ds) k" "dev_follows (ds ! k) lv (env_irqs e)" for k
  proof (cases "k = i")
    case False
    have "dev_line (ds' ! i) = dev_line (ds ! i)" "dev_line (ds' ! k) = dev_line (ds ! k)"
      using l device(2) k(1) by (metis nth_map)+
    then have "dev_line (ds' ! k) \<notin> {dev_line (ds' ! i)}"
      using k(1,2) False device(2) l(2) by (auto simp: lone_def)
    with dev_follows_other [OF d(2) this] False device.IH k show ?thesis by simp
  qed (use device.IH k d(3) device(2) in simp)
  ultimately show ?case by blast
qed simp

section \<open>Steps of the machine\<close>

abbreviation io_devs :: "('f, 'x, 'y) machine \<Rightarrow> 'f io_dev list" where
  "io_devs s \<equiv> map io_device (io_map s)"

abbreviation mmio_devs :: "('f, 'x, 'y) machine \<Rightarrow> ('x, 'y) mmio_dev list" where
  "mmio_devs s \<equiv> map mmio_device (mmio_map s)"

text \<open>The commands that the tick thread has taken from the queue and not yet delivered.\<close>

fun in_delivery :: "tick_phase \<Rightarrow> irq_queue" where
  "in_delivery (TickDeliver cmds) = cmds"
| "in_delivery _ = []"

abbreviation undelivered :: "tick_phase \<Rightarrow> ('f, 'x, 'y) machine \<Rightarrow> irq_queue" where
  "undelivered ph s \<equiv> in_delivery ph @ env_irqs (env s)"

definition same_irq :: "('x, 'y) mmio_dev \<Rightarrow> ('x, 'y) mmio_dev \<Rightarrow> bool" where
  "same_irq d d' \<longleftrightarrow> dev_line d' = dev_line d \<and> dev_follows d' = dev_follows d"

lemma same_irq_refl [simp]: "list_all2 same_irq ds ds"
  by (simp add: list_all2_conv_all_nth same_irq_def)

text \<open>What a step means for interrupts: an operation of virtio devices, one of port devices, nothing, or the delivery of
  one command.\<close>

inductive irq_effect :: "('f, 'x, 'y) machine_state \<Rightarrow> ('f, 'x, 'y) machine_state \<Rightarrow> bool" where
  virtio: "touched mmio_dev_step (mmio_devs s) (env s) (mmio_devs s') (env s') \<Longrightarrow> io_devs s' = io_devs s \<Longrightarrow>
    in_delivery ph' = in_delivery ph \<Longrightarrow> irq_effect (s, sent, ph) (s', sent, ph')"
| port: "touched io_dev_step (io_devs s) (env s) (io_devs s') (env s') \<Longrightarrow> mmio_devs s' = mmio_devs s \<Longrightarrow>
    in_delivery ph' = in_delivery ph \<Longrightarrow> irq_effect (s, sent, ph) (s', sent, ph')"
| quiet: "undelivered ph' s' = undelivered ph s \<Longrightarrow> map io_lines (io_devs s') = map io_lines (io_devs s) \<Longrightarrow>
    list_all2 same_irq (mmio_devs s) (mmio_devs s') \<Longrightarrow> irq_effect (s, sent, ph) (s', sent, ph')"
| deliver: "irq_effect (s, sent, TickDeliver (c # cmds)) (s, sent @ [c], TickDeliver cmds)"

inductive_cases irq_effectE: "irq_effect (s, sent, ph) (s', sent', ph')"

lemma virtio_effect:
  "touched mmio_dev_step (mmio_devs s) (env s) (map mmio_device mm) e \<Longrightarrow> in_delivery ph' = in_delivery ph \<Longrightarrow>
    irq_effect (s, sent, ph) (s\<lparr>mmio_map := mm, env := e\<rparr>, sent, ph')"
  by (rule irq_effect.virtio) simp_all

lemma port_effect:
  "touched io_dev_step (io_devs s) (env s) (map io_device io) e \<Longrightarrow> in_delivery ph' = in_delivery ph \<Longrightarrow>
    irq_effect (s, sent, ph) (s\<lparr>io_map := io, env := e\<rparr>, sent, ph')"
  by (rule irq_effect.port) simp_all

lemma handle_exit_irq:
  assumes "handle_exit h s x = Some (Continue r s')"
  shows "irq_effect (s, sent, ph) (s', sent, ph)"
proof (cases x)
  case (IoOut port data)
  with assms show ?thesis
    by (auto simp: handle_exit_def split: if_splits elim!: bind_SomeE intro!: port_effect dest: iot.map_output_touched)
next
  case (IoIn port n)
  with assms show ?thesis
    by (auto simp: handle_exit_def Let_def split: if_splits option.splits elim!: bind_SomeE intro!: port_effect
        dest: iot.map_input_touched)
next
  case (MmioWrite a data)
  with assms show ?thesis
    by (auto simp: handle_exit_def elim!: bind_SomeE intro!: virtio_effect dest: mmt.map_write_touched)
next
  case (MmioRead a n)
  with assms show ?thesis
    by (auto simp: handle_exit_def Let_def split: if_splits option.splits elim!: bind_SomeE intro!: virtio_effect
        dest: mmt.map_read_touched)
qed (use assms in \<open>auto simp: handle_exit_def intro: irq_effect.quiet\<close>)

lemma tick_part_irq:
  assumes "tick_part h (s, sent, ph) = Some (s', sent', ph')"
  shows "irq_effect (s, sent, ph) (s', sent', ph')"
proof (cases ph)
  case TickMmio
  with assms show ?thesis by (auto elim!: bind_SomeE intro!: virtio_effect dest: mmt.map_tick_touched)
next
  case TickIo
  with assms show ?thesis by (auto elim!: bind_SomeE intro!: port_effect dest: iot.map_tick_touched)
next
  case TickTake
  with assms show ?thesis by (auto simp: handle_irqs_def intro!: irq_effect.quiet)
next
  case (TickDeliver cmds)
  with assms show ?thesis by (cases cmds) (auto intro: irq_effect.deliver irq_effect.quiet)
qed

lemma same_irq_device:
  "same_irq (FsDev t) (FsDev (t\<lparr>device := d\<rparr>))" "same_irq (GpuDev u) (GpuDev (u\<lparr>device := d'\<rparr>))"
  by (simp_all add: same_irq_def fun_eq_iff line_follows_device)

lemma pump_regions_irq:
  "pump_regions events rs = (quit, rs') \<Longrightarrow> list_all2 same_irq (map mmio_device rs) (map mmio_device rs')"
proof (induction rs arbitrary: quit rs')
  case (Cons r rs)
  have [simp]: "same_irq d d" for d :: "('a, 'b) mmio_dev" by (simp add: same_irq_def)
  from Cons show ?case
    by (cases "mmio_device r") (auto simp: Let_def same_irq_device split: prod.splits)
qed simp

lemma machine_step_irq:
  assumes "machine_step h (s, sent, ph) (s', sent', ph')"
  shows "irq_effect (s, sent, ph) (s', sent', ph')"
  using assms
proof (rule machine_stepE)
  fix i c code mods q
  assume "s' = s\<lparr>io_map := (io_map s)[i := (io_map s ! i)\<lparr>io_device := Com (c\<lparr>ser_queue := q\<rparr>)\<rparr>]\<rparr>"
    "sent' = sent" "ph' = ph" "i < length (io_map s)" "io_device (io_map s ! i) = Com c"
  moreover from this have "map io_lines (io_devs s') = map io_lines (io_devs s)"
    by (auto simp: map_update intro!: list_update_same_conv [THEN iffD2])
  ultimately show ?thesis by (auto intro!: irq_effect.quiet)
next
  fix i t x'
  assume "s' = s\<lparr>mmio_map := (mmio_map s)[i := (mmio_map s ! i)\<lparr>mmio_device := FsDev (t\<lparr>device := (device t)\<lparr>fs_host := x'\<rparr>\<rparr>)\<rparr>]\<rparr>"
    "sent' = sent" "ph' = ph" "i < length (mmio_map s)" "mmio_device (mmio_map s ! i) = FsDev t"
  moreover from this have "list_all2 same_irq (mmio_devs s) (mmio_devs s')"
    using same_irq_device(1) [of t] by (auto simp: list_all2_conv_all_nth nth_list_update same_irq_def)
  ultimately show ?thesis by (auto intro!: irq_effect.quiet)
next
  fix events
  assume "sent' = sent" "ph' = ph" "pump_display events s = (False, s')"
  then show ?thesis
    by (auto simp: pump_display_def split: prod.splits dest: pump_regions_irq intro!: irq_effect.quiet)
qed (auto intro: handle_exit_irq tick_part_irq irq_effect.quiet)

section \<open>Delivery\<close>

text \<open>Runs with their history: what every step has put at the end of the queue. The step in which the tick thread takes the
  queue puts nothing there.\<close>

inductive machine_history ::
    "('f, 'x, 'y) host \<Rightarrow> ('f, 'x, 'y) machine_state \<Rightarrow> irq_queue \<Rightarrow> ('f, 'x, 'y) machine_state \<Rightarrow> bool" for h st0 where
  start: "machine_history h st0 [] st0"
| take: "machine_history h st0 queued (s, sent, TickTake) \<Longrightarrow> tick_part h (s, sent, TickTake) = Some st' \<Longrightarrow>
    machine_history h st0 queued st'"
| other: "machine_history h st0 queued (s, sent, ph) \<Longrightarrow> machine_step h (s, sent, ph) (s', sent', ph') \<Longrightarrow>
    \<not> (ph = TickTake \<and> tick_part h (s, sent, ph) = Some (s', sent', ph')) \<Longrightarrow>
    machine_history h st0 (queued @ appended (env_irqs (env s)) (env_irqs (env s'))) (s', sent', ph')"

text \<open>Every run has a history, so what holds of the histories holds of all runs.\<close>

lemma reachable_history: "machine_reachable h st0 st \<Longrightarrow> \<exists>queued. machine_history h st0 queued st"
proof (induction rule: machine_reachable.induct)
  case (step st st')
  obtain s sent ph s' sent' ph' where st: "st = (s, sent, ph)" "st' = (s', sent', ph')" by (metis prod_cases3)
  show ?case
  proof (cases "ph = TickTake \<and> tick_part h (s, sent, ph) = Some (s', sent', ph')")
    case True
    then show ?thesis using step.IH st machine_history.take by blast
  next
    case False
    then show ?thesis using step.IH step(2) st machine_history.other by blast
  qed
qed (blast intro: machine_history.start)

lemma irq_effect_fifo:
  assumes "irq_effect (s, sent, ph) (s', sent', ph')"
  shows "sent @ undelivered ph s = sent' @ undelivered ph' s' \<or>
    (\<exists>cs. env_irqs (env s') = env_irqs (env s) @ cs \<and> in_delivery ph' = in_delivery ph \<and> sent' = sent)"
  using assms
proof (rule irq_effectE)
  assume "touched mmio_dev_step (mmio_devs s) (env s) (mmio_devs s') (env s')" "sent' = sent" "in_delivery ph' = in_delivery ph"
  then show ?thesis using touched_mmio by (fastforce simp: irqs_extend_def)
next
  assume "touched io_dev_step (io_devs s) (env s) (io_devs s') (env s')" "sent' = sent" "in_delivery ph' = in_delivery ph"
  then show ?thesis using touched_io by (fastforce simp: irqs_extend_def)
qed simp_all

text \<open>Only taking the queue shortens it.\<close>

lemma other_step_fifo:
  assumes "machine_step h (s, sent, ph) (s', sent', ph')" "\<not> (ph = TickTake \<and> tick_part h (s, sent, ph) = Some (s', sent', ph'))"
  shows "sent @ undelivered ph s @ appended (env_irqs (env s)) (env_irqs (env s')) = sent' @ undelivered ph' s'"
  using assms(1)
proof (rule machine_stepE)
  assume tick: "tick_part h (s, sent, ph) = Some (s', sent', ph')"
  have "\<exists>cs. env_irqs (env s') = env_irqs (env s) @ cs \<and> sent @ in_delivery ph = sent' @ in_delivery ph'"
  proof (cases ph)
    case TickMmio
    with tick show ?thesis
      by (auto elim!: bind_SomeE dest!: mmt.map_tick_touched touched_mmio simp: irqs_extend_def)
  next
    case TickIo
    with tick show ?thesis
      by (auto elim!: bind_SomeE dest!: iot.map_tick_touched touched_io simp: irqs_extend_def)
  next
    case (TickDeliver cmds)
    with tick show ?thesis by (cases cmds) auto
  qed (use assms(2) tick in simp)
  then show ?thesis by auto
qed (use irq_effect_fifo [OF machine_step_irq [OF assms(1)]] in auto)

text \<open>C2: Interrupt commands reach the interrupt controller in the order in which the devices queued them, none lost and none
  twice, while processors, devices and the tick thread go on in any order: in every run, the calls made before
  it, the commands undelivered at its start and those that its steps put at the end of the queue, in this order, are
  exactly the calls of set_irq_line that the tick thread has made at its end, followed by the commands that are
  still undelivered.\<close>

theorem interrupts_delivered_in_order:
  assumes "machine_history h (s, sent, ph) queued (s', sent', ph')"
  shows "sent @ undelivered ph s @ queued = sent' @ undelivered ph' s'"
proof -
  have "sent @ undelivered ph s @ queued = fst (snd st) @ undelivered (snd (snd st)) (fst st)"
    if "machine_history h (s, sent, ph) queued st" for queued st
    using that
  proof (induction rule: machine_history.induct)
    case (take queued s1 sent1 st')
    then show ?case by (auto simp: handle_irqs_def)
  next
    case (other queued s1 sent1 ph1 s2 sent2 ph2)
    from other_step_fifo [OF other(2,3)] other.IH show ?case unfolding fst_conv snd_conv by (metis append.assoc)
  qed simp
  from this [OF assms] show ?thesis by simp
qed

text \<open>A machine with one serial port, and a command for line 5 waiting. The tick thread takes the command, the guest
  enables the transmitter interrupt of the port, which queues a command for line 4, and the first command is delivered.\<close>

definition com_machine :: "serial \<Rightarrow> irq_queue \<Rightarrow> (rat, unit, unit) machine" where
  "com_machine com cmds =
     \<lparr>io_map = [new_io_region 0x3f8 0x3ff (Com com)], mmio_map = [], env = demo_env\<lparr>env_irqs := cmds\<rparr>\<rparr>"

abbreviation com_idle :: serial where "com_idle \<equiv> (new_serial Terminal)\<lparr>ser_irq := True\<rparr>"
abbreviation com_ready :: serial where "com_ready \<equiv> (new_serial Terminal)\<lparr>ser_irq := True, ier := 2, iir := 4\<rparr>"

theorem interrupts_delivered_in_order_witness:
  "[] @ undelivered TickTake (com_machine com_idle [new_irq_command 5 True]) @ [new_irq_command 4 True] =
    [new_irq_command 5 True] @ undelivered (TickDeliver []) (com_machine com_ready [new_irq_command 4 True])"
proof (rule interrupts_delivered_in_order)
  let ?c5 = "new_irq_command 5 True" and ?c4 = "new_irq_command 4 True"
  let ?st = "(com_machine com_idle [?c5], [], TickTake)" and ?s1 = "com_machine com_idle []" and ?s2 = "com_machine com_ready [?c4]"
  have h1: "machine_history demo_host ?st [] (?s1, [], TickDeliver [?c5])"
    by (rule machine_history.take [OF machine_history.start]) (simp add: handle_irqs_def com_machine_def)
  have "handle_exit demo_host ?s1 (IoOut 0x3f9 [2]) = Some (Continue None ?s2)"
    by (simp add: handle_exit_def com_machine_def io_region_output_def io_contains_def new_io_region_def machine_io_def
        serial_ops_def wrap_out_def serial_ier_steps demo_env_def)
  then have st1: "machine_step demo_host (?s1, [], TickDeliver [?c5]) (?s2, [], TickDeliver [?c5])" by (rule machine_step.vcpu_exit)
  have h2: "machine_history demo_host ?st [?c4] (?s2, [], TickDeliver [?c5])"
    using machine_history.other [OF h1 st1] by (simp add: com_machine_def)
  have st2: "machine_step demo_host (?s2, [], TickDeliver [?c5]) (?s2, [?c5], TickDeliver [])"
    by (rule machine_step.tick) simp
  show "machine_history demo_host ?st [?c4] (?s2, [?c5], TickDeliver [])"
    using machine_history.other [OF h2 st2] by simp
qed

section \<open>Lines\<close>

definition irq_inv :: "u32 list \<Rightarrow> ('f, 'x, 'y) machine_state \<Rightarrow> bool" where
  "irq_inv L = (\<lambda>(s, sent, ph). map dev_line (mmio_devs s) = L \<and> \<Union> (io_lines ` set (io_devs s)) \<subseteq> {0, 4} \<and>
     (\<forall>i < length L. lone L i \<longrightarrow> dev_follows (mmio_devs s ! i) False (sent @ undelivered ph s)))"

lemma irq_inv_follows:
  assumes "irq_inv L (s, sent, ph)" "i < length L" "lone L i"
  shows "dev_follows (mmio_devs s ! i) (line_level (L ! i) False (sent @ in_delivery ph)) (env_irqs (env s))"
    "dev_line (mmio_devs s ! i) = L ! i"
  using assms by (auto simp: irq_inv_def dev_follows_prefix)

lemma irq_invI:
  assumes "map dev_line (mmio_devs s) = L" "\<Union> (io_lines ` set (io_devs s)) \<subseteq> {0, 4}"
    and "\<And>i. i < length L \<Longrightarrow> lone L i \<Longrightarrow>
      dev_follows (mmio_devs s ! i) (line_level (L ! i) False (sent @ in_delivery ph)) (env_irqs (env s))"
  shows "irq_inv L (s, sent, ph)"
  using assms by (auto simp: irq_inv_def dev_follows_prefix)

lemma same_irq_follows:
  assumes "list_all2 same_irq ds ds'"
  shows "map dev_line ds' = map dev_line ds" "i < length ds \<Longrightarrow> dev_follows (ds' ! i) = dev_follows (ds ! i)"
  using assms by (auto simp: list_all2_conv_all_nth same_irq_def intro!: nth_equalityI)

lemma irq_effect_inv:
  assumes "irq_effect (s, sent, ph) (s', sent', ph')" "irq_inv L (s, sent, ph)"
  shows "irq_inv L (s', sent', ph')"
proof -
  have L: "map dev_line (mmio_devs s) = L" "\<Union> (io_lines ` set (io_devs s)) \<subseteq> {0, 4}" "length (mmio_devs s) = length L"
    using assms(2) by (auto simp: irq_inv_def)
  note follows = irq_inv_follows [OF assms(2)]
  from assms(1) show ?thesis
  proof (rule irq_effectE)
    assume *: "touched mmio_dev_step (mmio_devs s) (env s) (mmio_devs s') (env s')" "io_devs s' = io_devs s"
      "sent' = sent" "in_delivery ph' = in_delivery ph"
    from touched_mmio [OF *(1)] L follows(1) * show ?thesis by (intro irq_invI) auto
  next
    assume *: "touched io_dev_step (io_devs s) (env s) (io_devs s') (env s')" "mmio_devs s' = mmio_devs s"
      "sent' = sent" "in_delivery ph' = in_delivery ph"
    note t = touched_io [OF *(1)]
    have "\<Union> (io_lines ` set (io_devs s')) \<subseteq> {0, 4}" using t L(2) by (metis image_set)
    moreover have "dev_follows (mmio_devs s ! i) lv (env_irqs (env s')) = dev_follows (mmio_devs s ! i) lv (env_irqs (env s))"
      if "i < length L" "lone L i" for i lv
    proof (rule dev_follows_other [OF t [THEN conjunct2]])
      have "L ! i \<notin> {0, 4}" using that(2) by (simp add: lone_def)
      with L(2) have "L ! i \<notin> \<Union> (io_lines ` set (io_devs s))" by blast
      then show "dev_line (mmio_devs s ! i) \<notin> \<Union> (io_lines ` set (io_devs s))" unfolding follows(2) [OF that] .
    qed
    ultimately show ?thesis
      by (intro irq_invI) (simp_all only: *(2-4) L(1) follows(1))
  next
    assume *: "undelivered ph' s' = undelivered ph s" "map (io_lines \<circ> io_device) (io_map s') = map (io_lines \<circ> io_device) (io_map s)"
      "list_all2 same_irq (mmio_devs s) (mmio_devs s')" "sent' = sent"
    have "map io_lines (io_devs s') = map io_lines (io_devs s)" using *(2) by simp
    then have "\<Union> (io_lines ` set (io_devs s')) \<subseteq> {0, 4}" using L(2) by (metis image_set)
    with same_irq_follows [OF *(3)] * L assms(2) show ?thesis by (auto simp: irq_inv_def)
  next
    fix c cmds
    assume d: "s' = s" "sent' = sent @ [c]" "ph = TickDeliver (c # cmds)" "ph' = TickDeliver cmds"
    then have "sent' @ in_delivery ph' = sent @ in_delivery ph" by simp
    then show ?thesis using L(1,2) follows(1) unfolding d(1) by (intro irq_invI) simp_all
  qed
qed

abbreviation main_lines :: "u32 list" where
  "main_lines \<equiv> [0, 0, 5, 6, 7, 10]"

lemma main_irq_inv:
  assumes "main_machine st h img files e0 = Some s0" "env_irqs e0 = []"
  shows "irq_inv main_lines (s0, [], TickMmio)"
  using assms
  by (auto simp: irq_inv_def main_machine_def wire_io_def wire_mmio_def main_io_regions_def main_mmio_regions_def
      io_map_register_def mmio_map_register_def io_region_irq_handler_def mmio_region_irq_handler_def
      mmio_region_pass_guest_memory_def new_io_region_def new_mmio_region_def machine_mmio_def machine_io_def
      pit_ops_def new_pit_def transport_irq_handler_def transport_pass_guest_memory_def new_mmio_transport_def
      line_follows_def transport_inv_def less_Suc_eq nth_Cons' Let_def elim!: bind_SomeE)

lemma reachable_irq_inv:
  assumes "machine_reachable h st0 st" "irq_inv L st0"
  shows "irq_inv L st"
  using assms
proof (induction rule: machine_reachable.induct)
  case (step st st')
  obtain a b c a' b' c' where st: "st = (a, b, c)" "st' = (a', b', c')" by (metis prod_cases3)
  with step irq_effect_inv [OF machine_step_irq [of h a b c a' b' c']] show ?case by simp
qed

text \<open>C1: In the machine of the main program the block device, the network device, the file system and the GPU have their
  interrupt lines to themselves, and in every state that the machine can reach, with all eleven devices, the
  processors and the tick thread in any interleaving, the calls of set_irq_line that the tick thread has made, followed by
  the commands that it has still to deliver, leave the line of each of the four high exactly when its interrupt
  status register is not zero.\<close>

theorem virtio_lines_follow_status:
  assumes "main_machine st h img files e0 = Some s0" "env_irqs e0 = []"
    and "machine_reachable h (s0, [], TickMmio) (s, sent, ph)" "i \<in> {2, 3, 4, 5}"
  shows "line_level (main_lines ! i) False (sent @ undelivered ph s) \<longleftrightarrow>
    dev_status (mmio_device (mmio_map s ! i)) \<noteq> 0"
proof -
  have inv: "irq_inv main_lines (s, sent, ph)"
    using reachable_irq_inv [OF assms(3) main_irq_inv [OF assms(1,2)]] .
  have i: "i < length main_lines" "lone main_lines i"
    using assms(4) by (auto simp: lone_def less_Suc_eq nth_Cons')
  have "i < length (mmio_map s)" using inv i(1) by (auto simp: irq_inv_def dest: arg_cong [where f = length])
  moreover have "dev_follows (mmio_devs s ! i) False (sent @ undelivered ph s)"
    using inv i by (auto simp: irq_inv_def)
  ultimately show ?thesis
    using dev_follows_status irq_inv_follows(2) [OF inv i] by (metis nth_map)
qed

theorem virtio_lines_follow_status_witness:
  "line_level 5 False ([] @ undelivered TickMmio demo_machine) \<longleftrightarrow> dev_status (mmio_device (mmio_map demo_machine ! 2)) \<noteq> 0"
  using virtio_lines_follow_status [OF demo_machine _ machine_reachable.start, of 2] by (simp add: demo_env_def)

end
