(* ===== verification/Vcpu.thy ===== *)
theory Vcpu
  imports Acpi
begin

text \<open>
  The initial state of a virtual processor: \<^verbatim>\<open>src/vcpu.rs\<close> and \<^verbatim>\<open>new_vcpu\<close> of \<^verbatim>\<open>src/vm/builder.rs\<close>. The
  KVM structures are records with the fields that the code sets; the record extension stands for the
  fields it leaves alone. What KVM reports as supported CPUID entries is an argument.
\<close>

section \<open>CPUID\<close>

record cpuid_entry =
  cpuid_function :: u32
  cpuid_eax :: u32
  cpuid_ebx :: u32
  cpuid_edx :: u32

definition patch_cpuid :: "u8 \<Rightarrow> 'x cpuid_entry_scheme \<Rightarrow> 'x cpuid_entry_scheme" where
  "patch_cpuid vcpu_id e =
     (if cpuid_function e = 0x80000000
      then (if cpuid_eax e < 0x80000001 then e\<lparr>cpuid_eax := 0x80000001\<rparr> else e)
      else if cpuid_function e = 0x80000001
      then e\<lparr>cpuid_edx := (cpuid_edx e OR push_bit 29 1) OR push_bit 20 1\<rparr>
      else if cpuid_function e = 1
      then e\<lparr>cpuid_ebx := (cpuid_ebx e AND 0x00FFFFFF) OR push_bit 24 (ucast vcpu_id)\<rparr>
      else e)"

definition filter_cpuid_entry :: "'x cpuid_entry_scheme \<Rightarrow> 'x cpuid_entry_scheme" where
  "filter_cpuid_entry e =
     (if cpuid_function e = 0x1 then e\<lparr>cpuid_edx := cpuid_edx e AND NOT (push_bit 16 1)\<rparr> else e)"

definition filter_cpuid :: "'x cpuid_entry_scheme list \<Rightarrow> 'x cpuid_entry_scheme list" where
  "filter_cpuid = map filter_cpuid_entry"

section \<open>Segments and registers\<close>

record kvm_segment =
  seg_base :: u64
  seg_limit :: u32
  seg_selector :: u16
  seg_type :: u8
  seg_present :: u8
  seg_dpl :: u8
  seg_db :: u8
  seg_s :: u8
  seg_l :: u8
  seg_g :: u8
  seg_avl :: u8
  seg_unusable :: u8
  seg_padding :: u8

definition real_mode_code_seg :: "u64 \<Rightarrow> u16 \<Rightarrow> kvm_segment" where
  "real_mode_code_seg base sel =
     \<lparr>seg_base = base, seg_limit = 0xFFFF, seg_selector = sel, seg_type = 0xA, seg_present = 1, seg_dpl = 0,
      seg_db = 0, seg_s = 1, seg_l = 0, seg_g = 0, seg_avl = 0, seg_unusable = 0, seg_padding = 0\<rparr>"

definition real_mode_data_seg :: "u64 \<Rightarrow> u16 \<Rightarrow> kvm_segment" where
  "real_mode_data_seg base sel =
     \<lparr>seg_base = base, seg_limit = 0xFFFF, seg_selector = sel, seg_type = 0x2, seg_present = 1, seg_dpl = 0,
      seg_db = 0, seg_s = 1, seg_l = 0, seg_g = 0, seg_avl = 0, seg_unusable = 0, seg_padding = 0\<rparr>"

record kvm_sregs =
  cr0 :: u64
  cr4 :: u64
  cs :: kvm_segment
  ds :: kvm_segment
  es :: kvm_segment
  fs :: kvm_segment
  gs :: kvm_segment
  ss :: kvm_segment

definition boot_sregs :: "'x kvm_sregs_scheme \<Rightarrow> 'x kvm_sregs_scheme" where
  "boot_sregs s =
     s\<lparr>cr0 := (cr0 s AND NOT 0x1) OR 0x20, cr4 := push_bit 9 1 OR push_bit 10 1,
       cs := real_mode_code_seg 0 0, ds := real_mode_data_seg 0 0, es := real_mode_data_seg 0 0,
       fs := real_mode_data_seg 0 0, gs := real_mode_data_seg 0 0, ss := real_mode_data_seg 0 0\<rparr>"

text \<open>The general registers that are set; the others are zero by \<^verbatim>\<open>kvm_regs::default()\<close>.\<close>

record kvm_regs =
  rip :: u64
  rsp :: u64
  rsi :: u64
  rflags :: u64

datatype vcpu_start = BootProcessor kvm_regs | WaitForSipi

record 'x vcpu =
  vcpu_id :: u64
  vcpu_cpuid :: "cpuid_entry list"
  vcpu_sregs :: "'x kvm_sregs_scheme"
  vcpu_start :: vcpu_start

definition init_vcpu :: "u64 \<Rightarrow> usize \<Rightarrow> cpuid_entry list \<Rightarrow> 'x kvm_sregs_scheme \<Rightarrow> 'x vcpu" where
  "init_vcpu vid start_at cpuid sregs =
     \<lparr>vcpu_id = vid, vcpu_cpuid = filter_cpuid cpuid, vcpu_sregs = boot_sregs sregs,
      vcpu_start = (if vid = 0
        then BootProcessor \<lparr>rip = of_nat start_at, rsp = 0x0FF0, rsi = 0x20000, rflags = 0x202\<rparr>
        else WaitForSipi)\<rparr>"

section \<open>The local APIC\<close>

definition APIC_LVT0 :: usize where "APIC_LVT0 = 0x350"

definition unmask_lvt0 :: "u8 list \<Rightarrow> u8 list option" where
  "unmask_lvt0 lapic =
     do {
       lvt0_bytes \<leftarrow> slice_of lapic APIC_LVT0 (APIC_LVT0 + 4);
       let lvt0 = (from_le lvt0_bytes :: u32) AND NOT (push_bit 16 1);
       put_slice lapic APIC_LVT0 (APIC_LVT0 + 4) (le32 lvt0)
     }"

definition new_vcpu ::
    "cpuid_entry list \<Rightarrow> usize \<Rightarrow> u8 \<Rightarrow> 'x kvm_sregs_scheme \<Rightarrow> u8 list \<Rightarrow> ('x vcpu \<times> u8 list) option" where
  "new_vcpu supported start_at vid sregs lapic =
     do {
       let cpuid = map (patch_cpuid vid) supported;
       let vcpu = init_vcpu (ucast vid) start_at cpuid sregs;
       lapic \<leftarrow> unmask_lvt0 lapic;
       Some (vcpu, lapic)
     }"

section \<open>Lemmas\<close>

text \<open>The initial APIC ID, bits 31 to 24 of EBX in leaf 1.\<close>

definition initial_apic_id :: "'x cpuid_entry_scheme \<Rightarrow> u8" where
  "initial_apic_id e = ucast (drop_bit 24 (cpuid_ebx e))"

lemma patch_cpuid_function [simp]: "cpuid_function (patch_cpuid i e) = cpuid_function e"
  by (simp add: patch_cpuid_def)

lemma filter_cpuid_function [simp]: "cpuid_function (filter_cpuid_entry e) = cpuid_function e"
  by (simp add: filter_cpuid_entry_def)

lemma apic_id_patched:
  assumes "cpuid_function e = 1"
  shows "initial_apic_id (filter_cpuid_entry (patch_cpuid i e)) = i"
proof -
  have mask: "(0x00FFFFFF :: u32) = mask 24" by (simp add: mask_eq_exp_minus_1)
  have "ucast (drop_bit 24 ((b AND 0x00FFFFFF) OR push_bit 24 (ucast i :: u32))) = i" for b
    unfolding mask by (rule bit_word_eqI) (auto simp: bit_simps)
  then show ?thesis
    using assms by (simp add: initial_apic_id_def patch_cpuid_def filter_cpuid_entry_def)
qed

lemma unmask_lvt0_spec:
  assumes "length lapic = 1024"
  obtains lapic' where "unmask_lvt0 lapic = Some lapic'" "length lapic' = 1024"
    "from_le (take 4 (drop 0x350 lapic')) = (from_le (take 4 (drop 0x350 lapic)) AND NOT (push_bit 16 1) :: u32)"
    "\<And>k. k < 1024 \<Longrightarrow> \<not> (0x350 \<le> k \<and> k < 0x354) \<Longrightarrow> lapic' ! k = lapic ! k"
proof -
  let ?d = "le32 (from_le (take 4 (drop 0x350 lapic)) AND NOT (push_bit 16 1))"
  have *: "unmask_lvt0 lapic = Some (copy_at lapic 0x350 ?d)"
    using assms by (simp add: unmask_lvt0_def APIC_LVT0_def slice_of_def put_slice_def Let_def)
  have "take 4 (drop 0x350 (copy_at lapic 0x350 ?d)) = ?d"
    using copy_at_same [of "0x350" ?d lapic] assms by simp
  then show thesis
    by (intro that [OF *]) (use assms in \<open>auto simp: nth_copy_at\<close>)
qed

section \<open>Properties\<close>

text \<open>C34: A processor agrees with the MADT: the APIC number that it reports through CPUID is its own, the
  MADT of a machine with more processors lists an enabled local APIC with that number, only number 0
  starts by itself while the others wait for a start-up message, and its local interrupt 0 is unmasked
  with nothing else of the APIC page changed.\<close>

theorem vcpu_matches_madt:
  assumes "unat vid < unat n" "unat n < 25" "length lapic = 1024"
  shows "\<exists>v lapic' b es. new_vcpu supported start vid sregs lapic = Some (v, lapic') \<and>
    (\<forall>e \<in> set (vcpu_cpuid v). cpuid_function e = 1 \<longrightarrow> initial_apic_id e = vid) \<and>
    build_madt p n = Some b \<and> parse_entries (drop 44 (bin_data b)) = Some es \<and> Lapic vid vid 1 \<in> set es \<and>
    (vcpu_start v = WaitForSipi \<longleftrightarrow> vid \<noteq> 0) \<and>
    from_le (take 4 (drop 0x350 lapic')) = (from_le (take 4 (drop 0x350 lapic)) AND NOT (push_bit 16 1) :: u32) \<and>
    (\<forall>k < 1024. \<not> (0x350 \<le> k \<and> k < 0x354) \<longrightarrow> lapic' ! k = lapic ! k)"
proof -
  obtain lapic' where l: "unmask_lvt0 lapic = Some lapic'"
      "from_le (take 4 (drop 0x350 lapic')) = (from_le (take 4 (drop 0x350 lapic)) AND NOT (push_bit 16 1) :: u32)"
      "\<forall>k < 1024. \<not> (0x350 \<le> k \<and> k < 0x354) \<longrightarrow> lapic' ! k = lapic ! k"
    by (rule unmask_lvt0_spec [OF assms(3)]) auto
  obtain b where b: "build_madt p n = Some b"
      "parse_entries (drop 44 (bin_data b)) = Some (map (\<lambda>i. Lapic i i 1) (vcpu_range n) @ [Ioapic 0 0xFEC00000 0])"
    by (rule madt_valid [OF assms(2)])
  have "vid \<in> set (vcpu_range n)"
    using assms(1) by (auto simp: vcpu_range_def intro!: image_eqI [of _ _ "unat vid"])
  then have "Lapic vid vid 1 \<in> set (map (\<lambda>i. Lapic i i 1) (vcpu_range n) @ [Ioapic 0 0xFEC00000 0])" by auto
  moreover have "(ucast vid :: u64) = 0 \<longleftrightarrow> vid = 0"
    using unat_ucast_up [of vid, where 'b = 64] by (auto simp: unat_eq_zero)
  ultimately show ?thesis
    using l b by (auto simp: new_vcpu_def init_vcpu_def filter_cpuid_def apic_id_patched Let_def)
qed

definition zero_segment :: kvm_segment where
  "zero_segment = real_mode_data_seg 0 0"

theorem vcpu_matches_madt_witness:
  "\<exists>v lapic' b es. new_vcpu [\<lparr>cpuid_function = 1, cpuid_eax = 0, cpuid_ebx = 0xFF000000, cpuid_edx = 0\<rparr>] 0xFFF0 3
      \<lparr>cr0 = 0x10, cr4 = 0, cs = zero_segment, ds = zero_segment, es = zero_segment, fs = zero_segment,
       gs = zero_segment, ss = zero_segment\<rparr> (replicate 1024 0) = Some (v, lapic') \<and>
    build_madt Dev 8 = Some b \<and> parse_entries (drop 44 (bin_data b)) = Some es \<and> Lapic 3 3 1 \<in> set es"
  using vcpu_matches_madt [of 3 8 "replicate 1024 0"] by (simp del: replicate.simps) blast

end
