(* ===== verification/Main_Program.thy ===== *)
theory Main_Program
  imports Machine Vcpu
begin

text \<open>
  \<^verbatim>\<open>main.rs\<close> as a whole: the start, the disk image that \<^verbatim>\<open>BlkVirtio::new\<close> opens, the firmware and ACPI files, the configuration,
  and \<^verbatim>\<open>VirtualMachine::new\<close> with its processors. The result is the machine that the other theories run. What
  the files hold, and what KVM gives for a processor, are parameters.
\<close>

section \<open>Files\<close>

record file_host =
  read_file :: "string \<Rightarrow> u8 list option"
  disk_exists :: "string \<Rightarrow> bool"
  disk_created :: "string \<Rightarrow> bool"
  disk_opened :: "string \<Rightarrow> u8 list option"

text \<open>The image is created when there is none. \<open>disk_opened\<close> is the content at the time it is opened.\<close>

definition open_disk_image :: "file_host \<Rightarrow> string \<Rightarrow> u8 list option" where
  "open_disk_image fh path = (if \<not> disk_exists fh path \<and> \<not> disk_created fh path then None else disk_opened fh path)"

section \<open>Processors\<close>

text \<open>Whether KVM opens, creates a machine and its interrupt controllers and takes the routing table, and what it answers for
  processor \<open>i\<close>; \<open>None\<close> is an error. All errors are unwrapped.\<close>

record 'x kvm_vcpus =
  kvm_opened :: bool
  vm_created :: bool
  irq_chip_created :: bool
  routing_set :: "irq_map list \<Rightarrow> bool"
  kvm_cpuid :: "cpuid_entry list option"
  kvm_sregs_of :: "u8 \<Rightarrow> 'x kvm_sregs_scheme option"
  kvm_lapic_of :: "u8 \<Rightarrow> u8 list option"

definition open_kvm :: "'x kvm_vcpus \<Rightarrow> irq_map list \<Rightarrow> unit option" where
  "open_kvm kvm routing =
     (if \<not> kvm_opened kvm then None
      else if \<not> vm_created kvm then None
      else if \<not> irq_chip_created kvm then None
      else if \<not> routing_set kvm routing then None
      else Some ())"

fun new_vcpus :: "'x kvm_vcpus \<Rightarrow> usize \<Rightarrow> nat \<Rightarrow> nat \<Rightarrow> 'x vcpu list option" where
  "new_vcpus kvm start_at i 0 = Some []"
| "new_vcpus kvm start_at i (Suc n) =
     do {
       cpuid \<leftarrow> kvm_cpuid kvm;
       sregs \<leftarrow> kvm_sregs_of kvm (of_nat i);
       lapic \<leftarrow> kvm_lapic_of kvm (of_nat i);
       (vcpu, _) \<leftarrow> new_vcpu cpuid start_at (of_nat i) sregs lapic;
       vcpus \<leftarrow> new_vcpus kvm start_at (i + 1) n;
       Some (vcpu # vcpus)
     }"

section \<open>The main program\<close>

definition main_program ::
    "('i, 't) setup_host \<Rightarrow> file_host \<Rightarrow> 'v kvm_vcpus \<Rightarrow> host_mem \<Rightarrow> ('f, 'x, 'y) host \<Rightarrow> 'x \<Rightarrow> machine_env \<Rightarrow>
     ('v vcpu list \<times> kvm_slot list \<times> ('f, 'x, 'y) machine) option" where
  "main_program st fh kvm hm h files e =
     do {
       (tap_device, gpu_display) \<leftarrow> fst (main_start st);
       img \<leftarrow> open_disk_image fh ''guest/image/disk.img'';
       mmio_devices \<leftarrow> main_mmio_regions tap_device gpu_display img files;
       firmware \<leftarrow> read_file fh ''guest/firmware/build/out.bin'';
       firmware64 \<leftarrow> read_file fh ''guest/firmware/build/main64.bin'';
       dsdt \<leftarrow> read_file fh ''acpi/DSDT.aml'';
       cfg \<leftarrow> main_boot_config (h_profile h) firmware firmware64 dsdt (main_io_regions (h_float h) (env_instant e)) mmio_devices;
       _ \<leftarrow> open_kvm kvm (cfg_irq_map cfg);
       vcpus \<leftarrow> new_vcpus kvm (code_entry cfg) 0 (unat (total_vcpus cfg));
       vm \<leftarrow> new_vm hm (h_profile h) (machine_io h) (machine_mmio h) cfg;
       let mem = vm_mem_state vm;
       Some (vcpus, vm_slots mem,
         \<lparr>io_map = vm_io_map vm, mmio_map = vm_mmio_map vm, env = e\<lparr>env_irqs := new_irq_handler, env_mem := vm_regions mem\<rparr>\<rparr>)
     }"

section \<open>Booting\<close>

lemma main_boot_config_keeps:
  assumes "main_boot_config p fw fw64 dsdt ios mms = Some cfg"
  shows "io_devices cfg = ios" "mmio_devices cfg = mms" "code_entry cfg = 0xFFF0" "total_vcpus cfg = 8"
    "cfg_irq_map cfg = default_map"
    "{new_binary fw 0x7E00, new_binary fw64 0x100000, reset_vector} \<subseteq> set (binaries cfg)"
  using assms
  by (auto simp: main_boot_config_def inject_memmap_def inject_acpi_tables_def main_config_def Let_def elim!: bind_SomeE)

lemma new_vcpus_spec:
  assumes "kvm_cpuid kvm = Some cpuid"
    and "\<forall>i. \<exists>sregs lapic. kvm_sregs_of kvm i = Some sregs \<and> kvm_lapic_of kvm i = Some lapic \<and> length lapic = 1024"
    and "i + n \<le> 256"
  shows "\<exists>vs. new_vcpus kvm start_at i n = Some vs \<and> length vs = n \<and>
    (\<forall>k < n. vcpu_start (vs ! k) = (if i + k = 0
        then BootProcessor \<lparr>rip = of_nat start_at, rsp = 0x0FF0, rsi = 0x20000, rflags = 0x202\<rparr> else WaitForSipi) \<and>
      seg_base (cs (vcpu_sregs (vs ! k))) = 0)"
  using assms(3)
proof (induction n arbitrary: i)
  case (Suc n)
  obtain sregs lapic where k: "kvm_sregs_of kvm (of_nat i) = Some sregs" "kvm_lapic_of kvm (of_nat i) = Some lapic"
    "length lapic = 1024"
    using assms(2) by blast
  obtain lapic' where l: "unmask_lvt0 lapic = Some lapic'" by (rule unmask_lvt0_spec [OF k(3)])
  have z: "ucast (of_nat i :: u8) = (0 :: u64) \<longleftrightarrow> i = 0"
  proof -
    have "(of_nat i :: u8) = 0 \<longleftrightarrow> i = 0" using Suc.prems by (auto simp: word_of_nat_eq_0_iff dvd_imp_le)
    then show ?thesis using unat_ucast_up [of "of_nat i :: u8", where 'b = 64] by (auto simp: unat_eq_zero)
  qed
  obtain vs where vs: "new_vcpus kvm start_at (i + 1) n = Some vs" "length vs = n"
    "\<forall>k < n. vcpu_start (vs ! k) = (if i + 1 + k = 0
        then BootProcessor \<lparr>rip = of_nat start_at, rsp = 0x0FF0, rsi = 0x20000, rflags = 0x202\<rparr> else WaitForSipi) \<and>
      seg_base (cs (vcpu_sregs (vs ! k))) = 0"
    using Suc.IH [of "i + 1"] Suc.prems by auto
  let ?v = "init_vcpu (ucast (of_nat i :: u8)) start_at (map (patch_cpuid (of_nat i)) cpuid) sregs"
  have "new_vcpus kvm start_at i (Suc n) = Some (?v # vs)"
    using vs(1) k l assms(1) by (simp add: new_vcpu_def Let_def)
  moreover have "seg_base (cs (vcpu_sregs ?v)) = 0" "vcpu_start ?v = (if i = 0
      then BootProcessor \<lparr>rip = of_nat start_at, rsp = 0x0FF0, rsi = 0x20000, rflags = 0x202\<rparr> else WaitForSipi)"
    by (simp_all add: init_vcpu_def boot_sregs_def real_mode_code_seg_def z)
  ultimately show ?case using vs(2,3) by (auto simp: nth_Cons split: nat.splits)
qed simp

text \<open>The target of a direct far jump in real mode.\<close>

fun far_jump :: "u8 list \<Rightarrow> u64 option" where
  "far_jump [op, ip0, ip1, cs0, cs1] =
     (if op = 0xEA then Some (16 * from_le [cs0, cs1] + from_le [ip0, ip1]) else None)"
| "far_jump _ = None"

text \<open>C28: The main program boots its firmware. When the host accepts what it asks for, the files are there and fit
  between their neighbours, and KVM opens, takes the default routing and gives eight processors, \<^verbatim>\<open>main\<close> gets to the running machine that the
  other properties are about: the first processor starts at the address of the reset vector, the reset vector in guest memory
  jumps to the first byte of the firmware file, the 64-bit part is at its address, and the other seven processors wait for a
  start-up message.\<close>

theorem main_program_boots:
  fixes h :: "('f, 'x, 'y) host"
  assumes "list_all (accepts st) start_steps" "open_disk_image fh ''guest/image/disk.img'' = Some img"
    and "read_file fh ''guest/firmware/build/out.bin'' = Some fw" "read_file fh ''guest/firmware/build/main64.bin'' = Some fw64"
    and "read_file fh ''acpi/DSDT.aml'' = Some dsdt"
    and "length fw \<le> 0x81F0" "length fw64 \<le> GiB4 - 0x100000" "length dsdt \<le> 0x1F800"
    and "mmap hm GiB4 = Some hva" "\<forall>xs sl. kvm_ok hm xs sl" "unat hva + GiB4 < 2 ^ 64"
    and "kvm_cpuid kvm = Some cpuid"
    and "\<forall>i. \<exists>sregs lapic. kvm_sregs_of kvm i = Some sregs \<and> kvm_lapic_of kvm i = Some lapic \<and> length lapic = 1024"
    and "open_kvm kvm default_map = Some ()"
  shows "\<exists>vcpus slots s. main_program st fh kvm hm h files e = Some (vcpus, slots, s) \<and>
    main_machine st h img files (env s) = Some s \<and> env_irqs (env s) = [] \<and> length vcpus = 8 \<and>
    (\<exists>r. vcpu_start (vcpus ! 0) = BootProcessor r \<and> rip r = 0xFFF0 \<and> seg_base (cs (vcpu_sregs (vcpus ! 0))) = 0) \<and>
    (\<forall>i \<in> {1..<8}. vcpu_start (vcpus ! i) = WaitForSipi) \<and>
    far_jump (bytes_at (env_mem (env s)) 0xFFF0 5) = Some 0x7E00 \<and>
    bytes_at (env_mem (env s)) 0x7E00 (length fw) = fw \<and> bytes_at (env_mem (env s)) 0x100000 (length fw64) = fw64"
proof -
  obtain mms :: "('x, 'y) mmio_dev mmio_region list" where m: "main_mmio_regions new_tap (new_sdl 500 500) img files = Some mms"
    using main_machine_returns_iff [of st h img files e] assms(1) by (auto simp: main_machine_def main_start_result elim!: bind_SomeE)
  let ?ios = "main_io_regions (h_float h) (env_instant e)"
  obtain cfg r slots where c: "main_boot_config (h_profile h) fw fw64 dsdt ?ios mms = Some cfg"
    "build_memory hm (h_profile h) (binaries cfg) (memory_regions cfg) \<lparr>vm_regions = [], vm_slots = []\<rparr> =
      Some \<lparr>vm_regions = [r], vm_slots = slots\<rparr>"
    "\<forall>b \<in> set (binaries cfg). bytes_at [r] (bin_offset b) (length (bin_data b)) = bin_data b"
    using boot_image_in_place [OF assms(9-11) assms(6-8), of "h_profile h" ?ios mms] by blast
  note k = main_boot_config_keeps [OF c(1)]
  obtain vs where v: "new_vcpus kvm 0xFFF0 0 8 = Some vs" "length vs = 8"
    "\<forall>k < 8. vcpu_start (vs ! k) = (if 0 + k = 0
        then BootProcessor \<lparr>rip = of_nat 0xFFF0, rsp = 0x0FF0, rsi = 0x20000, rflags = 0x202\<rparr> else WaitForSipi) \<and>
      seg_base (cs (vcpu_sregs (vs ! k))) = 0"
    using new_vcpus_spec [OF assms(12,13), of 0 8 "0xFFF0"] by auto
  let ?s = "\<lparr>io_map = wire_io (machine_io h) ?ios, mmio_map = wire_mmio (machine_mmio h) mms,
    env = e\<lparr>env_irqs := new_irq_handler, env_mem := [r]\<rparr>\<rparr>"
  have "main_program st fh kvm hm h files e = Some (vs, slots, ?s)"
    using assms(1-5,14) m c(1,2) k v(1) by (simp add: main_program_def main_start_result new_vm_def Let_def)
  moreover have "main_machine st h img files (env ?s) = Some ?s"
    using assms(1) m by (simp add: main_machine_def main_start_result)
  moreover have "bytes_at [r] (bin_offset b) (length (bin_data b)) = bin_data b"
    if "b \<in> {new_binary fw 0x7E00, new_binary fw64 0x100000, reset_vector}" for b using that c(3) k(6) by blast
  from this [of "new_binary fw 0x7E00"] this [of "new_binary fw64 0x100000"] this [of reset_vector]
  have "bytes_at [r] 0x7E00 (length fw) = fw" "bytes_at [r] 0x100000 (length fw64) = fw64"
    "bytes_at [r] 0xFFF0 5 = [0xEA, 0x00, 0x7E, 0x00, 0x00]"
    by (simp_all add: new_binary_def reset_vector_def numeral_eq_Suc del: bytes_at.simps)
  ultimately show ?thesis
    using v(2,3) by (intro exI [of _ vs] exI [of _ slots] exI [of _ ?s]) (simp add: new_irq_handler_def from_le_def del: bytes_at.simps)
qed

definition demo_files :: file_host where
  "demo_files = \<lparr>read_file = (\<lambda>_. Some [0xF4]), disk_exists = (\<lambda>_. False), disk_created = (\<lambda>_. True), disk_opened = (\<lambda>_. Some [])\<rparr>"

definition demo_kvm :: "unit kvm_vcpus" where
  "demo_kvm = \<lparr>kvm_opened = True, vm_created = True, irq_chip_created = True, routing_set = (\<lambda>_. True), kvm_cpuid = Some [], kvm_sregs_of = (\<lambda>_. Some \<lparr>cr0 = 0x10, cr4 = 0, cs = zero_segment, ds = zero_segment,
     es = zero_segment, fs = zero_segment, gs = zero_segment, ss = zero_segment\<rparr>), kvm_lapic_of = (\<lambda>_. Some (replicate 1024 0))\<rparr>"

theorem main_program_boots_witness:
  "\<exists>vcpus slots s. main_program demo_setup demo_files demo_kvm good_host demo_host () demo_env = Some (vcpus, slots, s) \<and>
     far_jump (bytes_at (env_mem (env s)) 0xFFF0 5) = Some 0x7E00 \<and> bytes_at (env_mem (env s)) 0x7E00 1 = [0xF4]"
proof -
  have a: "list_all (accepts demo_setup) start_steps" by (simp add: demo_setup_def list.pred_True)
  have b: "open_disk_image demo_files ''guest/image/disk.img'' = Some []" "read_file demo_files f = Some [0xF4]" for f
    by (simp_all add: open_disk_image_def demo_files_def)
  have c: "\<forall>i. \<exists>sregs lapic. kvm_sregs_of demo_kvm i = Some sregs \<and> kvm_lapic_of demo_kvm i = Some lapic \<and> length lapic = 1024"
    by (simp add: demo_kvm_def del: replicate.simps)
  have d: "mmap good_host GiB4 = Some 0x10000" "\<forall>xs sl. kvm_ok good_host xs sl" "kvm_cpuid demo_kvm = Some []"
    "open_kvm demo_kvm default_map = Some ()"
    by (simp_all add: good_host_def demo_kvm_def open_kvm_def)
  from main_program_boots [OF a b(1) b(2) b(2) b(2) _ _ _ d(1,2) _ d(3) c d(4), of demo_host "()" demo_env] show ?thesis
    by (fastforce simp del: bytes_at.simps)
qed

end
