(* ===== verification/Mutexes.thy ===== *)
theory Mutexes
  imports Main
begin

text \<open>
  Threads and the mutexes of the Rust standard library. A thread runs turns of its loop; what a turn does with
  mutexes is a list of operations. A panic of a thread releases and poisons the mutexes that it holds.
  The locale \<open>lock_discipline\<close> is what the turns have to promise, an order on the mutexes and no waiting for
  the outside world under a shared one, so that no thread ever waits for a thread that cannot go on.
\<close>

section \<open>Processes\<close>

text \<open>What the code does with the error of a poisoned mutex: \<^verbatim>\<open>unwrap\<close> it, take the guard out of it
  (\<^verbatim>\<open>into_inner\<close>), or leave its loop with an error, which ends the process.\<close>

datatype on_poison = Unwrap | IntoInner | ReturnErr

text \<open>\<open>Work\<close> is code that may panic. \<open>Pause\<close> waits for something outside the process: the guest, a timer, a
  key. \<open>Exit\<close> is \<^verbatim>\<open>process::exit\<close>.\<close>

datatype 'l lock_op = Lock 'l on_poison | Unlock 'l | Work | Pause | Exit

record ('t, 'l) process =
  script :: "'t \<Rightarrow> 'l lock_op list"
  holder :: "'l \<Rightarrow> 't option"
  poisoned :: "'l \<Rightarrow> bool"
  dead :: "'t \<Rightarrow> bool"
  exited :: bool

definition new_process :: "('t, 'l) process" where
  "new_process = \<lparr>script = (\<lambda>_. []), holder = (\<lambda>_. None), poisoned = (\<lambda>_. False), dead = (\<lambda>_. False), exited = False\<rparr>"

text \<open>A panic unwinds the thread; that of an essential thread, the main one, ends the process.\<close>

definition panic_of :: "('t \<Rightarrow> bool) \<Rightarrow> 't \<Rightarrow> ('t, 'l) process \<Rightarrow> ('t, 'l) process" where
  "panic_of essential t s = s\<lparr>script := (script s)(t := []),
     holder := (\<lambda>l. if holder s l = Some t then None else holder s l),
     poisoned := (\<lambda>l. poisoned s l \<or> holder s l = Some t),
     dead := (dead s)(t := True), exited := exited s \<or> essential t\<rparr>"

abbreviation goto :: "'t \<Rightarrow> 'l lock_op list \<Rightarrow> ('t, 'l) process \<Rightarrow> ('t, 'l) process" where
  "goto t ops s \<equiv> s\<lparr>script := (script s)(t := ops)\<rparr>"

inductive process_step ::
    "('t \<Rightarrow> 'l lock_op list \<Rightarrow> bool) \<Rightarrow> ('t \<Rightarrow> bool) \<Rightarrow> ('t, 'l) process \<Rightarrow> ('t, 'l) process \<Rightarrow> bool"
  for turns essential where
  turn: "\<not> exited s \<Longrightarrow> \<not> dead s t \<Longrightarrow> script s t = [] \<Longrightarrow> turns t ops \<Longrightarrow> process_step turns essential s (goto t ops s)"
| acquire: "\<not> exited s \<Longrightarrow> script s t = Lock l e # ops \<Longrightarrow> holder s l = None \<Longrightarrow> \<not> poisoned s l \<or> e = IntoInner \<Longrightarrow>
    process_step turns essential s ((goto t ops s)\<lparr>holder := (holder s)(l := Some t)\<rparr>)"
| unwrap_poisoned: "\<not> exited s \<Longrightarrow> script s t = Lock l Unwrap # ops \<Longrightarrow> holder s l = None \<Longrightarrow> poisoned s l \<Longrightarrow>
    process_step turns essential s (panic_of essential t s)"
| return_poisoned: "\<not> exited s \<Longrightarrow> script s t = Lock l ReturnErr # ops \<Longrightarrow> holder s l = None \<Longrightarrow> poisoned s l \<Longrightarrow>
    process_step turns essential s (goto t [Work, Exit] s)"
| release: "\<not> exited s \<Longrightarrow> script s t = Unlock l # ops \<Longrightarrow>
    process_step turns essential s ((goto t ops s)\<lparr>holder := (holder s)(l := None)\<rparr>)"
| work: "\<not> exited s \<Longrightarrow> script s t = Work # ops \<Longrightarrow> process_step turns essential s (goto t ops s)"
| panic: "\<not> exited s \<Longrightarrow> script s t = Work # ops \<Longrightarrow> process_step turns essential s (panic_of essential t s)"
| resume: "\<not> exited s \<Longrightarrow> script s t = Pause # ops \<Longrightarrow> process_step turns essential s (goto t ops s)"
| exit: "\<not> exited s \<Longrightarrow> script s t = Exit # ops \<Longrightarrow> process_step turns essential s ((goto t ops s)\<lparr>exited := True\<rparr>)"

inductive process_steps ::
    "('t \<Rightarrow> 'l lock_op list \<Rightarrow> bool) \<Rightarrow> ('t \<Rightarrow> bool) \<Rightarrow> ('t, 'l) process \<Rightarrow> ('t, 'l) process \<Rightarrow> bool"
  for turns essential s where
  none: "process_steps turns essential s s"
| more: "process_steps turns essential s s' \<Longrightarrow> process_step turns essential s' s'' \<Longrightarrow> process_steps turns essential s s''"

section \<open>Waiting\<close>

definition waits_for :: "('t, 'l) process \<Rightarrow> 't \<Rightarrow> 't \<Rightarrow> bool" where
  "waits_for s t u \<longleftrightarrow> (\<exists>l e ops. script s t = Lock l e # ops \<and> holder s l = Some u)"

text \<open>The next operation of the thread needs neither another thread nor the outside world.\<close>

definition can_go :: "('t, 'l) process \<Rightarrow> 't \<Rightarrow> bool" where
  "can_go s t = (case script s t of
     Lock l e # _ \<Rightarrow> holder s l = None | Unlock l # _ \<Rightarrow> True | Work # _ \<Rightarrow> True | Exit # _ \<Rightarrow> True | _ \<Rightarrow> False)"

lemma can_go_steps:
  assumes "can_go s t" "\<not> exited s"
  shows "\<exists>s'. process_step turns essential s s'"
proof -
  obtain op ops where s: "script s t = op # ops" using assms(1) by (cases "script s t") (auto simp: can_go_def)
  show ?thesis
  proof (cases op)
    case (Lock l e)
    then have free: "holder s l = None" using assms(1) s by (simp add: can_go_def)
    show ?thesis
    proof (cases "poisoned s l \<and> e \<noteq> IntoInner")
      case True
      with s Lock free assms(2) show ?thesis
        by (cases e) (blast intro: process_step.unwrap_poisoned process_step.return_poisoned)+
    next
      case False
      with process_step.acquire [OF assms(2) s [unfolded Lock] free] show ?thesis by blast
    qed
  qed (use s assms(2) in \<open>blast intro: process_step.intros\<close>)+
qed

section \<open>The discipline\<close>

text \<open>\<open>held\<close> are the mutexes that the thread holds. \<open>owner l\<close> is the only thread that may lock \<open>l\<close>, if there is one.\<close>

fun disciplined :: "('l \<Rightarrow> nat) \<Rightarrow> ('l \<Rightarrow> 't option) \<Rightarrow> 't \<Rightarrow> 'l list \<Rightarrow> 'l lock_op list \<Rightarrow> bool" where
  "disciplined rank owner t held [] \<longleftrightarrow> held = []"
| "disciplined rank owner t held (Lock l e # ops) \<longleftrightarrow>
     list_all (\<lambda>k. rank k < rank l) held \<and> (owner l = None \<or> owner l = Some t) \<and> disciplined rank owner t (l # held) ops"
| "disciplined rank owner t held (Unlock l # ops) \<longleftrightarrow> l \<in> set held \<and> disciplined rank owner t (remove1 l held) ops"
| "disciplined rank owner t held (Work # ops) \<longleftrightarrow> disciplined rank owner t held ops"
| "disciplined rank owner t held (Pause # ops) \<longleftrightarrow>
     list_all (\<lambda>k. owner k = Some t) held \<and> disciplined rank owner t held ops"
| "disciplined rank owner t held (Exit # ops) \<longleftrightarrow> True"

definition discipline_inv :: "('l \<Rightarrow> nat) \<Rightarrow> ('l \<Rightarrow> 't option) \<Rightarrow> ('t, 'l) process \<Rightarrow> bool" where
  "discipline_inv rank owner s \<longleftrightarrow>
     (\<forall>t. \<exists>held. distinct held \<and> set held = {l. holder s l = Some t} \<and> disciplined rank owner t held (script s t)) \<and>
     (\<forall>l t. holder s l = Some t \<longrightarrow> owner l = None \<or> owner l = Some t)"

locale lock_discipline =
  fixes turns :: "'t \<Rightarrow> 'l lock_op list \<Rightarrow> bool" and essential :: "'t \<Rightarrow> bool"
    and rank :: "'l \<Rightarrow> nat" and owner :: "'l \<Rightarrow> 't option" and top :: nat
  assumes turns_disciplined: "turns t ops \<Longrightarrow> disciplined rank owner t [] ops"
    and rank_le: "rank l \<le> top"
begin

lemma inv_new: "discipline_inv rank owner new_process"
  by (simp add: discipline_inv_def new_process_def)

text \<open>A step changes the operations and the mutexes of one thread only.\<close>

lemma inv_update:
  assumes "discipline_inv rank owner s"
    and "distinct held" "set held = {l. holder s' l = Some t}" "disciplined rank owner t held (script s' t)"
    and "\<And>u. u \<noteq> t \<Longrightarrow> script s' u = script s u" "\<And>u l. u \<noteq> t \<Longrightarrow> (holder s' l = Some u) = (holder s l = Some u)"
    and "\<And>l. holder s' l = Some t \<Longrightarrow> owner l = None \<or> owner l = Some t"
  shows "discipline_inv rank owner s'"
  unfolding discipline_inv_def
proof (intro conjI allI impI)
  fix u
  show "\<exists>held. distinct held \<and> set held = {l. holder s' l = Some u} \<and> disciplined rank owner u held (script s' u)"
  proof (cases "u = t")
    case False
    then show ?thesis using assms(1,5,6) unfolding discipline_inv_def by simp
  qed (use assms(2-4) in blast)
next
  fix l u assume "holder s' l = Some u"
  then show "owner l = None \<or> owner l = Some u"
    using assms(1,6,7) unfolding discipline_inv_def by (cases "u = t") auto
qed

lemma inv_held:
  assumes "discipline_inv rank owner s"
  obtains held where "distinct held" "set held = {l. holder s l = Some t}" "disciplined rank owner t held (script s t)"
  using assms unfolding discipline_inv_def by metis

lemma inv_owner: "discipline_inv rank owner s \<Longrightarrow> holder s l = Some t \<Longrightarrow> owner l = None \<or> owner l = Some t"
  unfolding discipline_inv_def by blast

lemma inv_panic: "discipline_inv rank owner s \<Longrightarrow> discipline_inv rank owner (panic_of essential t s)"
  by (erule inv_update [where held = "[]" and t = t]) (auto simp: panic_of_def split: if_splits)

lemma inv_goto:
  assumes "discipline_inv rank owner s"
    and "\<And>held. disciplined rank owner t held (script s t) \<Longrightarrow> disciplined rank owner t held ops"
  shows "discipline_inv rank owner (goto t ops s)"
proof -
  obtain held where "distinct held" "set held = {l. holder s l = Some t}" "disciplined rank owner t held (script s t)"
    by (rule inv_held [OF assms(1), of t])
  with assms(2) show ?thesis by (intro inv_update [OF assms(1), of held _ t]) (auto dest: inv_owner [OF assms(1)])
qed

lemma inv_step:
  assumes "process_step turns essential s s'" "discipline_inv rank owner s" "\<not> exited s'"
  shows "discipline_inv rank owner s'"
  using assms(1)
proof cases
  case (turn t ops)
  then show ?thesis by (auto intro!: inv_goto assms(2) turns_disciplined)
next
  case (acquire t l e ops)
  obtain held where "distinct held" "set held = {l. holder s l = Some t}" "disciplined rank owner t held (script s t)"
    by (rule inv_held [OF assms(2), of t])
  with acquire show ?thesis
    by (intro inv_update [OF assms(2), of "l # held" _ t]) (auto split: if_splits dest: inv_owner [OF assms(2)])
next
  case (release t l ops)
  obtain held where h: "distinct held" "set held = {l. holder s l = Some t}" "disciplined rank owner t held (script s t)"
    by (rule inv_held [OF assms(2), of t])
  then have "holder s l = Some t" using release by auto
  with release h show ?thesis
    by (intro inv_update [OF assms(2), of "remove1 l held" _ t]) (auto split: if_splits dest: inv_owner [OF assms(2)])
qed (use assms(2,3) in \<open>auto intro!: inv_panic inv_goto\<close>)

lemma inv_steps:
  assumes "process_steps turns essential new_process s" "\<not> exited s"
  shows "discipline_inv rank owner s"
  using assms
proof (induction rule: process_steps.induct)
  case (more s s')
  then have "\<not> exited s" by (auto elim: process_step.cases)
  with more show ?case by (blast intro: inv_step)
qed (rule inv_new)

text \<open>A thread that holds a mutex somebody waits for can go on, or waits itself for one of higher rank.\<close>

lemma holder_goes_or_waits:
  assumes "discipline_inv rank owner s" "script s t = Lock l e # ops" "holder s l = Some u"
  shows "can_go s u \<or> (\<exists>l' e' ops' v. script s u = Lock l' e' # ops' \<and> holder s l' = Some v \<and> rank l < rank l')"
proof -
  obtain ht where t: "set ht = {l. holder s l = Some t}" "disciplined rank owner t ht (script s t)"
    by (rule inv_held [OF assms(1), of t])
  obtain hu where u: "set hu = {l. holder s l = Some u}" "disciplined rank owner u hu (script s u)"
    by (rule inv_held [OF assms(1), of u])
  have l: "l \<in> set hu" using u(1) assms(3) by simp
  have "t \<noteq> u" using t assms(2,3) by (auto simp: list_all_iff)
  with inv_owner [OF assms(1,3)] t(2) assms(2) have free: "owner l = None" by auto
  obtain op rest where s: "script s u = op # rest" using u(2) l by (cases "script s u") auto
  show ?thesis
  proof (cases op)
    case (Lock l' e')
    with u(2) l s have "rank l < rank l'" by (auto simp: list_all_iff)
    with Lock s show ?thesis by (cases "holder s l'") (auto simp: can_go_def)
  qed (use u(2) l s free in \<open>auto simp: can_go_def list_all_iff\<close>)
qed

lemma waiting_ends:
  assumes "discipline_inv rank owner s" "script s t = Lock l e # ops" "holder s l = Some u"
  shows "\<exists>v. (waits_for s)\<^sup>*\<^sup>* u v \<and> can_go s v"
  using assms(2,3)
proof (induction "top - rank l" arbitrary: t l e ops u rule: less_induct)
  case less
  from holder_goes_or_waits [OF assms(1) less.prems] show ?case
  proof
    assume "\<exists>l' e' ops' v. script s u = Lock l' e' # ops' \<and> holder s l' = Some v \<and> rank l < rank l'"
    then obtain l' e' ops' v where n: "script s u = Lock l' e' # ops'" "holder s l' = Some v" "rank l < rank l'" by blast
    then have "top - rank l' < top - rank l" using rank_le [of l'] by linarith
    from less.hyps [OF this n(1,2)] obtain w where "(waits_for s)\<^sup>*\<^sup>* v w" "can_go s w" by blast
    moreover have "waits_for s u v" using n by (auto simp: waits_for_def)
    ultimately show ?thesis by (blast intro: converse_rtranclp_into_rtranclp)
  qed blast
qed

end

text \<open>A poisoned mutex stays poisoned.\<close>

lemma poisoned_stays:
  "process_steps turns essential s s' \<Longrightarrow> poisoned s l \<Longrightarrow> poisoned s' l"
  by (induction rule: process_steps.induct) (auto elim!: process_step.cases simp: panic_of_def)

lemma process_steps_trans:
  "process_steps turns essential s' s'' \<Longrightarrow> process_steps turns essential s s' \<Longrightarrow> process_steps turns essential s s''"
  by (induction rule: process_steps.induct) (auto intro: process_steps.more)

text \<open>A mutex that is released right after it was locked is never poisoned.\<close>

fun brief :: "'l \<Rightarrow> 'l lock_op list \<Rightarrow> bool" where
  "brief l [] = True"
| "brief l (Lock k e # ops) \<longleftrightarrow> (k = l \<longrightarrow> ops \<noteq> [] \<and> hd ops = Unlock l) \<and> brief l ops"
| "brief l (_ # ops) = brief l ops"

lemma brief_append: "brief l xs \<Longrightarrow> brief l ys \<Longrightarrow> brief l (xs @ ys)"
  by (induction l xs rule: brief.induct) auto

definition brief_inv :: "'l \<Rightarrow> ('t, 'l) process \<Rightarrow> bool" where
  "brief_inv l s \<longleftrightarrow> \<not> poisoned s l \<and>
     (\<forall>t. brief l (script s t) \<and> (holder s l = Some t \<longrightarrow> script s t \<noteq> [] \<and> hd (script s t) = Unlock l))"

lemma brief_inv_goto:
  assumes "brief_inv l s" "brief l ops" "holder s l \<noteq> Some t"
  shows "brief_inv l (goto t ops s)"
  using assms by (simp add: brief_inv_def)

lemma brief_inv_not_held:
  "brief_inv l s \<Longrightarrow> script s t = op # ops \<Longrightarrow> op \<noteq> Unlock l \<Longrightarrow> holder s l \<noteq> Some t"
  "brief_inv l s \<Longrightarrow> script s t = [] \<Longrightarrow> holder s l \<noteq> Some t"
  by (auto simp: brief_inv_def)

lemma brief_inv_script: "brief_inv l s \<Longrightarrow> script s t = op # ops \<Longrightarrow> brief l ops"
  unfolding brief_inv_def by (metis brief.simps(2-6) lock_op.exhaust)

lemma brief_inv_panic:
  assumes "brief_inv l s" "holder s l \<noteq> Some t"
  shows "brief_inv l (panic_of essential t s)"
  using assms by (simp add: brief_inv_def panic_of_def)

lemma brief_inv_acquire:
  assumes "brief_inv l s" "script s t = Lock k e # ops" "holder s k = None"
  shows "brief_inv l ((goto t ops s)\<lparr>holder := (holder s)(k := Some t)\<rparr>)"
proof -
  have "brief l (Lock k e # ops)" using assms(1,2) unfolding brief_inv_def by metis
  moreover have "holder s l \<noteq> Some t" using brief_inv_not_held(1) [OF assms(1,2)] by simp
  ultimately show ?thesis using assms(1) by (auto simp: brief_inv_def)
qed

lemma brief_inv_release:
  assumes "brief_inv l s" "script s t = Unlock k # ops"
  shows "brief_inv l ((goto t ops s)\<lparr>holder := (holder s)(k := None)\<rparr>)"
proof (cases "k = l")
  case False
  then show ?thesis
    using assms(1) brief_inv_script [OF assms] brief_inv_not_held(1) [OF assms] by (simp add: brief_inv_def)
qed (use assms(1) brief_inv_script [OF assms] in \<open>simp add: brief_inv_def\<close>)

lemma brief_inv_step:
  assumes "brief_inv l s" "process_step turns essential s s'" "\<And>t ops. turns t ops \<Longrightarrow> brief l ops"
  shows "brief_inv l s'"
  using assms(2)
proof cases
  case (exit t ops)
  then have "brief_inv l (goto t ops s)"
    using brief_inv_script [OF assms(1)] brief_inv_not_held(1) [OF assms(1)] by (intro brief_inv_goto assms(1)) auto
  then show ?thesis using exit by (simp add: brief_inv_def)
qed (auto intro!: brief_inv_goto brief_inv_panic brief_inv_acquire brief_inv_release assms(1)
    dest: brief_inv_not_held [OF assms(1)] brief_inv_script [OF assms(1)] assms(3))

lemma brief_never_poisoned:
  assumes "process_steps turns essential new_process s" "\<And>t ops. turns t ops \<Longrightarrow> brief l ops"
  shows "\<not> poisoned s l"
proof -
  have "brief_inv l s" using assms(1)
  proof (induction rule: process_steps.induct)
    case none
    show ?case by (simp add: brief_inv_def new_process_def)
  qed (blast intro: brief_inv_step assms(2))
  then show ?thesis by (simp add: brief_inv_def)
qed

end
