(* ===== verification/Threads.thy ===== *)
theory Threads
  imports Mutexes
begin

text \<open>
  The threads of the running program and the mutexes they share: one per virtual processor and the main thread
  (\<^verbatim>\<open>vm/run.rs\<close>), the tick thread (\<^verbatim>\<open>vm/tick.rs\<close>) and the keyboard thread (\<^verbatim>\<open>devices/serial.rs\<close>). For every turn of
  its loop a thread has the sequence of its mutex operations. What a device does under the mutex of its map
  is any sequence of the accesses that devices of that map make, with code between them that may panic.
\<close>

section \<open>Mutexes and threads\<close>

text \<open>The mutexes of \<^verbatim>\<open>VirtualMachine\<close>, of the interrupt queue, and of the key queue of each serial port.\<close>

datatype mutex =
    VcpuMutex nat | VmMutex | IoMapMutex | MmioMapMutex | MemMutex | WindowMutex | IrqMutex | KeyMutex nat

datatype thread = VcpuThread nat | TickThread | KeyThread | MainThread

text \<open>The accesses of port devices: \<^verbatim>\<open>trigger_irq\<close> on the shared queue, and the keys in the tick of a serial port.\<close>

datatype io_access = IoIrq | TakeKeys nat

fun io_access_ops :: "io_access \<Rightarrow> mutex lock_op list" where
  "io_access_ops IoIrq = [Lock IrqMutex Unwrap, Unlock IrqMutex]"
| "io_access_ops (TakeKeys i) = [Lock (KeyMutex i) Unwrap, Unlock (KeyMutex i)]"

text \<open>The accesses of virtio devices: \<^verbatim>\<open>set_irq_line\<close> of the transport, \<^verbatim>\<open>lock_mem\<close>, and the window of the GPU.\<close>

datatype mmio_access = MmioIrq | MemAccess | WindowAccess

fun mmio_access_ops :: "mmio_access \<Rightarrow> mutex lock_op list" where
  "mmio_access_ops MmioIrq = [Lock IrqMutex Unwrap, Unlock IrqMutex]"
| "mmio_access_ops MemAccess = [Lock MemMutex IntoInner, Work, Unlock MemMutex]"
| "mmio_access_ops WindowAccess = [Lock WindowMutex Unwrap, Work, Unlock WindowMutex]"

definition device_ops :: "('a \<Rightarrow> mutex lock_op list) \<Rightarrow> 'a list \<Rightarrow> mutex lock_op list" where
  "device_ops access accs = Work # concat (map (\<lambda>a. access a @ [Work]) accs)"

section \<open>Turns\<close>

text \<open>One turn of \<^verbatim>\<open>VirtualMachine::run\<close>: the processor's mutex is held from before \<^verbatim>\<open>KVM_RUN\<close> to the end of the turn.
  An error leaves the loop, and \<^verbatim>\<open>threaded_run\<close> ends the process after restoring the terminal.\<close>

datatype vcpu_turn =
    RunAgain
  | RunIo "io_access list"
  | RunMmio "mmio_access list"
  | RunFails
  | RunIoFails "io_access list"
  | RunMmioFails "mmio_access list"

fun exit_ops :: "vcpu_turn \<Rightarrow> mutex lock_op list" where
  "exit_ops RunAgain = []"
| "exit_ops (RunIo accs) = Lock IoMapMutex IntoInner # device_ops io_access_ops accs @ [Unlock IoMapMutex]"
| "exit_ops (RunMmio accs) = Lock MmioMapMutex IntoInner # device_ops mmio_access_ops accs @ [Unlock MmioMapMutex]"
| "exit_ops RunFails = []"
| "exit_ops (RunIoFails accs) = Lock IoMapMutex IntoInner # device_ops io_access_ops accs @ [Unlock IoMapMutex]"
| "exit_ops (RunMmioFails accs) = Lock MmioMapMutex IntoInner # device_ops mmio_access_ops accs @ [Unlock MmioMapMutex]"

fun returns_err :: "vcpu_turn \<Rightarrow> bool" where
  "returns_err RunFails = True"
| "returns_err (RunIoFails _) = True"
| "returns_err (RunMmioFails _) = True"
| "returns_err _ = False"

definition vcpu_script :: "nat \<Rightarrow> vcpu_turn \<Rightarrow> mutex lock_op list" where
  "vcpu_script i turn =
     [Lock (VcpuMutex i) ReturnErr, Pause] @ exit_ops turn @ [Unlock (VcpuMutex i)] @
     (if returns_err turn then [Work, Exit] else [])"

text \<open>One round of the tick thread, with the number of interrupt commands it takes from the queue.\<close>

definition tick_script :: "mmio_access list \<Rightarrow> io_access list \<Rightarrow> nat \<Rightarrow> mutex lock_op list" where
  "tick_script mmio_accs io_accs irqs =
     [Lock MmioMapMutex Unwrap] @ device_ops mmio_access_ops mmio_accs @ [Unlock MmioMapMutex] @
     [Lock IoMapMutex Unwrap] @ device_ops io_access_ops io_accs @ [Unlock IoMapMutex] @
     [Lock IrqMutex Unwrap, Unlock IrqMutex] @
     concat (replicate irqs [Lock VmMutex Unwrap, Unlock VmMutex]) @ [Pause]"

text \<open>The keyboard thread of the terminal's port, the first one: it waits for an event, ends the process on control-Z,
  and adds the bytes of any other key it knows to the queue.\<close>

datatype key_turn = KeyQuit | KeyBytes | OtherKey

fun key_script :: "key_turn \<Rightarrow> mutex lock_op list" where
  "key_script KeyQuit = [Pause, Work, Exit]"
| "key_script KeyBytes = [Pause, Work, Lock (KeyMutex 0) Unwrap, Unlock (KeyMutex 0)]"
| "key_script OtherKey = [Pause, Work]"

text \<open>The loop at the end of \<^verbatim>\<open>threaded_run\<close>; the guard lives through the condition.\<close>

definition main_script :: "bool \<Rightarrow> mutex lock_op list" where
  "main_script closed =
     [Lock WindowMutex Unwrap] @ (if closed then [Exit] else [Unlock WindowMutex, Pause])"

inductive vm_turns :: "nat \<Rightarrow> thread \<Rightarrow> mutex lock_op list \<Rightarrow> bool" for vcpu_count where
  "i < vcpu_count \<Longrightarrow> vm_turns vcpu_count (VcpuThread i) (vcpu_script i turn)"
| "vm_turns vcpu_count TickThread (tick_script mmio_accs io_accs irqs)"
| "vm_turns vcpu_count KeyThread (key_script key)"
| "vm_turns vcpu_count MainThread (main_script closed)"

abbreviation vm_steps :: "nat \<Rightarrow> (thread, mutex) process \<Rightarrow> (thread, mutex) process \<Rightarrow> bool" where
  "vm_steps vcpu_count \<equiv> process_steps (vm_turns vcpu_count) (\<lambda>t. t = MainThread)"

section \<open>The threads keep the discipline\<close>

fun mutex_rank :: "mutex \<Rightarrow> nat" where
  "mutex_rank (VcpuMutex i) = 0"
| "mutex_rank IoMapMutex = 1"
| "mutex_rank MmioMapMutex = 1"
| "mutex_rank _ = 2"

fun mutex_owner :: "mutex \<Rightarrow> thread option" where
  "mutex_owner (VcpuMutex i) = Some (VcpuThread i)"
| "mutex_owner _ = None"

abbreviation obeys :: "thread \<Rightarrow> mutex list \<Rightarrow> mutex lock_op list \<Rightarrow> bool" where
  "obeys \<equiv> disciplined mutex_rank mutex_owner"

lemma access_obeys [simp]:
  "obeys t held (io_access_ops a @ ops) \<longleftrightarrow> list_all (\<lambda>k. mutex_rank k < 2) held \<and> obeys t held ops"
  "obeys t held (mmio_access_ops b @ ops) \<longleftrightarrow> list_all (\<lambda>k. mutex_rank k < 2) held \<and> obeys t held ops"
  by (cases a; simp) (cases b; simp)

lemma device_ops_obey:
  assumes "\<And>a ops. obeys t held (access a @ ops) \<longleftrightarrow> obeys t held ops"
  shows "obeys t held (device_ops access accs @ ops) \<longleftrightarrow> obeys t held ops"
proof -
  have "obeys t held (concat (map (\<lambda>a. access a @ [Work]) accs) @ ops) \<longleftrightarrow> obeys t held ops"
    by (induction accs) (simp_all add: assms)
  then show ?thesis by (simp add: device_ops_def)
qed

lemma deliver_obeys: "obeys t [] (concat (replicate n [Lock VmMutex Unwrap, Unlock VmMutex]) @ ops) \<longleftrightarrow> obeys t [] ops"
  by (induction n) simp_all

lemma vcpu_obeys: "obeys (VcpuThread i) [] (vcpu_script i turn)"
  by (cases turn) (simp_all add: vcpu_script_def device_ops_obey)

lemma tick_obeys: "obeys TickThread [] (tick_script mmio_accs io_accs irqs)"
  by (simp add: tick_script_def device_ops_obey deliver_obeys)

lemma key_obeys: "obeys KeyThread [] (key_script key)"
  by (cases key) simp_all

interpretation vm_locks: lock_discipline "vm_turns n" "\<lambda>t. t = MainThread" mutex_rank mutex_owner 2 for n
proof
  fix t ops assume "vm_turns n t ops"
  then show "obeys t [] ops"
    by cases (simp_all add: vcpu_obeys tick_obeys key_obeys main_script_def)
next
  fix l show "mutex_rank l \<le> 2" by (cases l) simp_all
qed

section \<open>No deadlock\<close>

text \<open>C3: No thread of the program waits forever for a mutex because of the others: whenever a thread waits for a mutex
  that another one holds, the chain of who waits for whom ends in a thread whose next operation can be
  executed at once. In particular no thread waits, directly or through others, for one that is inside \<^verbatim>\<open>KVM_RUN\<close>,
  sleeps, or waits for a key, however the threads interleave and whichever device code panics.\<close>

theorem waiting_threads_progress:
  assumes "vm_steps vcpu_count new_process s" "\<not> exited s" "waits_for s t u"
  shows "\<exists>v. (waits_for s)\<^sup>*\<^sup>* u v \<and> can_go s v"
  using vm_locks.waiting_ends [OF vm_locks.inv_steps [OF assms(1,2)]] assms(3) by (auto simp: waits_for_def)

text \<open>Runs for the examples: no mutex is poisoned and no thread is dead.\<close>

definition running :: "(thread \<Rightarrow> mutex lock_op list) \<Rightarrow> (mutex \<Rightarrow> thread option) \<Rightarrow> (thread, mutex) process" where
  "running sc ho = \<lparr>script = sc, holder = ho, poisoned = (\<lambda>_. False), dead = (\<lambda>_. False), exited = False\<rparr>"

lemma running_steps:
  assumes "vm_steps n p (running sc ho)"
  shows "sc t = [] \<Longrightarrow> vm_turns n t ops \<Longrightarrow> vm_steps n p (running (sc(t := ops)) ho)"
    "sc t = Lock l e # ops \<Longrightarrow> ho l = None \<Longrightarrow> vm_steps n p (running (sc(t := ops)) (ho(l := Some t)))"
    "sc t = Pause # ops \<Longrightarrow> vm_steps n p (running (sc(t := ops)) ho)"
  using process_steps.more [OF assms process_step.turn, of t ops] process_steps.more [OF assms process_step.acquire, of t l e ops]
    process_steps.more [OF assms process_step.resume, of t ops]
  by (simp_all add: running_def)

text \<open>A processor is handling an access to a virtio device; then the tick thread wants to begin a round.\<close>

abbreviation in_device :: "(thread, mutex) process" where
  "in_device \<equiv> running ((\<lambda>_. [])(VcpuThread 0 := [Work, Unlock MmioMapMutex, Unlock (VcpuMutex 0)]))
     ((\<lambda>_. None)(VcpuMutex 0 := Some (VcpuThread 0), MmioMapMutex := Some (VcpuThread 0)))"

abbreviation contended :: "(thread, mutex) process" where
  "contended \<equiv> running
     ((\<lambda>_. [])(VcpuThread 0 := [Work, Unlock MmioMapMutex, Unlock (VcpuMutex 0)], TickThread := tick_script [] [] 0))
     ((\<lambda>_. None)(VcpuMutex 0 := Some (VcpuThread 0), MmioMapMutex := Some (VcpuThread 0)))"

lemma in_device_reached: "vm_steps 1 new_process in_device"
proof -
  have "vm_steps 1 new_process (running (\<lambda>_. []) (\<lambda>_. None))"
    using process_steps.none [of _ _ new_process] by (simp add: running_def new_process_def)
  from running_steps(1) [OF this, where t = "VcpuThread 0"] vm_turns.intros(1) [of 0 1 "RunMmio []"]
  have "vm_steps 1 new_process (running ((\<lambda>_. [])(VcpuThread 0 := vcpu_script 0 (RunMmio []))) (\<lambda>_. None))" by simp
  then have 1: "vm_steps 1 new_process (running ((\<lambda>_. [])(VcpuThread 0 :=
      [Lock (VcpuMutex 0) ReturnErr, Pause, Lock MmioMapMutex IntoInner, Work, Unlock MmioMapMutex, Unlock (VcpuMutex 0)])) (\<lambda>_. None))"
    by (simp add: vcpu_script_def device_ops_def)
  note 2 = running_steps(2) [OF 1, where t = "VcpuThread 0", OF fun_upd_same refl]
  note 3 = running_steps(3) [OF 2, where t = "VcpuThread 0", OF fun_upd_same]
  have "((\<lambda>_. None)(VcpuMutex 0 := Some (VcpuThread 0))) MmioMapMutex = None" by simp
  from running_steps(2) [OF 3, where t = "VcpuThread 0", OF fun_upd_same this] show ?thesis by simp
qed

lemma contended_reached: "vm_steps 1 new_process contended"
  using running_steps(1) [OF in_device_reached, where t = TickThread, OF _ vm_turns.intros(2) [of 1 "[]" "[]" 0]] by simp

theorem waiting_threads_progress_witness:
  "vm_steps 1 new_process contended \<and> waits_for contended TickThread (VcpuThread 0) \<and>
   (\<exists>v. (waits_for contended)\<^sup>*\<^sup>* (VcpuThread 0) v \<and> can_go contended v)"
proof -
  have "waits_for contended TickThread (VcpuThread 0)" by (simp add: waits_for_def running_def tick_script_def)
  moreover have "\<not> exited contended" by (simp add: running_def)
  ultimately show ?thesis using contended_reached waiting_threads_progress [OF contended_reached] by blast
qed

section \<open>Panics\<close>

text \<open>C38: A panic of device code under the mutex of the virtio map, in whichever thread, ends all ticks: once the mutex is poisoned
  and the tick thread is between two rounds, it never holds a mutex again, so no device is polled and no
  interrupt is delivered, while the process goes on. (The processor threads take the guard out of the error; the
  tick thread unwraps it.)\<close>

theorem poisoned_map_stops_ticks:
  assumes "vm_steps vcpu_count new_process s" "\<not> exited s" "poisoned s MmioMapMutex" "script s TickThread = []"
    and "vm_steps vcpu_count s s'" "\<not> exited s'"
  shows "\<forall>l. holder s' l \<noteq> Some TickThread"
proof -
  let ?stuck = "\<lambda>s. script s TickThread = [] \<or> (\<exists>ops. script s TickThread = Lock MmioMapMutex Unwrap # ops)"
  have inv: "?stuck s' \<and> (\<forall>l. holder s' l \<noteq> Some TickThread)"
    using assms(5)
  proof (induction rule: process_steps.induct)
    case none
    obtain held where "set held = {l. holder s l = Some TickThread}" "obeys TickThread held (script s TickThread)"
      by (rule vm_locks.inv_held [OF vm_locks.inv_steps [OF assms(1,2)]])
    with assms(4) show ?case by auto
  next
    case (more s' s'')
    have "poisoned s' MmioMapMutex" by (rule poisoned_stays [OF more(1) assms(3)])
    with more(2,3) show ?case
      by (auto elim!: process_step.cases vm_turns.cases simp: panic_of_def tick_script_def split: if_splits)
  qed
  then show ?thesis by blast
qed

text \<open>The device code of the example panics.\<close>

abbreviation panicked :: "(thread, mutex) process" where
  "panicked \<equiv> panic_of (\<lambda>t. t = MainThread) (VcpuThread 0) in_device"

lemma panicked_reached: "vm_steps 1 new_process panicked"
  by (rule process_steps.more [OF in_device_reached process_step.panic]) (simp_all add: running_def)

theorem poisoned_map_stops_ticks_witness:
  "poisoned panicked MmioMapMutex \<and> \<not> exited panicked \<and>
   (\<forall>l. holder (goto TickThread (tick_script [] [] 0) panicked) l \<noteq> Some TickThread)"
proof -
  have p: "poisoned panicked MmioMapMutex" "\<not> exited panicked" "script panicked TickThread = []"
    by (simp_all add: panic_of_def running_def)
  have "vm_steps 1 panicked (goto TickThread (tick_script [] [] 0) panicked)"
    by (rule process_steps.more [OF process_steps.none process_step.turn])
      (simp_all add: panic_of_def running_def vm_turns.intros)
  from poisoned_map_stops_ticks [OF panicked_reached p(2,1,3) this] p show ?thesis by simp
qed

text \<open>The mutexes of the interrupt queue, of the virtual machine and of the keys are never poisoned: nothing under them can
  panic. So their \<^verbatim>\<open>unwrap\<close> does not.\<close>

lemma brief_access [simp]:
  assumes "l = IrqMutex \<or> l = VmMutex \<or> (\<exists>i. l = KeyMutex i)"
  shows "brief l (io_access_ops a)" "brief l (mmio_access_ops b)"
  using assms by (cases a; cases b; auto)+

lemma brief_device_ops: "(\<And>a. brief l (access a)) \<Longrightarrow> brief l (device_ops access accs)"
  by (induction accs) (auto simp: device_ops_def brief_append)

lemma brief_turns:
  assumes "l = IrqMutex \<or> l = VmMutex \<or> (\<exists>i. l = KeyMutex i)" "vm_turns n t ops"
  shows "brief l ops"
proof -
  have dev: "brief l (device_ops io_access_ops accs)" "brief l (device_ops mmio_access_ops accs')" for accs accs'
    using brief_access [OF assms(1)] by (auto intro: brief_device_ops)
  have "brief l (exit_ops turn)" for turn
    using dev assms(1) by (cases turn) (auto simp: brief_append)
  moreover have "brief l (concat (replicate k [Lock VmMutex Unwrap, Unlock VmMutex]))" for k
    by (induction k) (auto simp: brief_append)
  moreover have "brief l (key_script key)" for key by (cases key) auto
  moreover note dev
  ultimately show ?thesis
    by (rule_tac vm_turns.cases [OF assms(2)])
      (use assms(1) in \<open>auto simp: vcpu_script_def tick_script_def main_script_def intro!: brief_append\<close>)
qed

lemma never_poisoned:
  assumes "vm_steps vcpu_count new_process s" "l = IrqMutex \<or> l = VmMutex \<or> (\<exists>i. l = KeyMutex i)"
  shows "\<not> poisoned s l"
  using brief_never_poisoned [OF assms(1)] brief_turns [OF assms(2)] by blast

end
