(* ===== verification/Build_Script.thy ===== *)
theory Build_Script
  imports Host_Fs
begin

text \<open>
  The build script, \<^verbatim>\<open>build.rs\<close>: it compiles the ACPI table, assembles, compiles and links the two firmware images that the
  main program reads, and assembles the guest tests. A build is the list of the actions it takes and, when it
  panics, the message. Which environment variables are set, which programs run and how they end, and what is
  found under the test directory are parameters.
\<close>

section \<open>Running programs\<close>

datatype build_action = CreateDirAll string | Command string "string list" | Println string

datatype run_outcome = NotStarted string | ExitFailure | ExitSuccess

record build_host =
  env_var :: "string \<Rightarrow> string option"
  create_dir_error :: "string option"
  run_status :: "string \<Rightarrow> string list \<Rightarrow> run_outcome"

type_synonym build = "build_action list \<times> string option"

text \<open>One piece of the build after another; a panic ends it.\<close>

definition and_then :: "build \<Rightarrow> build \<Rightarrow> build" where
  "and_then a b = (case snd a of None \<Rightarrow> (fst a @ fst b, snd b) | Some e \<Rightarrow> a)"

definition build_all :: "build list \<Rightarrow> build" where
  "build_all bs = foldr and_then bs ([], None)"

definition FIRMWARE_DIR :: string where "FIRMWARE_DIR = ''guest/firmware''"
definition BUILD_DIR :: string where "BUILD_DIR = ''guest/firmware/build''"
definition ACPI_DIR :: string where "ACPI_DIR = ''acpi''"

definition tool :: "build_host \<Rightarrow> string \<Rightarrow> string \<Rightarrow> string" where
  "tool host var dflt = (case env_var host var of Some v \<Rightarrow> v | None \<Rightarrow> dflt)"

definition run_tool :: "build_host \<Rightarrow> string \<Rightarrow> string list \<Rightarrow> string \<Rightarrow> build" where
  "run_tool host cmd args error =
     ([Command cmd args],
      case run_status host cmd args of
        NotStarted e \<Rightarrow> Some (error @ '': '' @ e) | ExitFailure \<Rightarrow> Some error | ExitSuccess \<Rightarrow> None)"

definition build_acpi :: "build_host \<Rightarrow> string \<Rightarrow> build" where
  "build_acpi host asl = run_tool host asl [''-tc'', ACPI_DIR @ ''/DSDT.dsl''] ''failed to compile DSDT''"

definition assemble :: "build_host \<Rightarrow> string \<Rightarrow> string \<Rightarrow> string \<Rightarrow> string \<Rightarrow> build" where
  "assemble host asm input output format =
     run_tool host asm [''-f'', format, input, ''-o'', output] (''failed to assemble '' @ input)"

definition compile_c32 :: "build_host \<Rightarrow> string \<Rightarrow> string \<Rightarrow> string \<Rightarrow> build" where
  "compile_c32 host cc32 input output =
     run_tool host cc32
       [''-m32'', ''-ffreestanding'', ''-fno-stack-protector'', ''-nostdlib'', ''-O2'', ''-c'', input, ''-o'', output]
       (''failed to compile '' @ input)"

definition compile_c64 :: "build_host \<Rightarrow> string \<Rightarrow> string \<Rightarrow> string \<Rightarrow> build" where
  "compile_c64 host cc64 input output =
     run_tool host cc64
       [''-m64'', ''-ffreestanding'', ''-fno-stack-protector'', ''-mno-red-zone'', ''-mcmodel=kernel'', ''-fno-pic'',
        ''-fno-pie'', ''-nostdlib'', ''-O2'', ''-c'', input, ''-o'', output]
       (''failed to compile '' @ input)"

definition link :: "build_host \<Rightarrow> string \<Rightarrow> string \<Rightarrow> string \<Rightarrow> string list \<Rightarrow> string list \<Rightarrow> build" where
  "link host ld output linker_script inputs extra_args =
     run_tool host ld (extra_args @ [''-T'', linker_script, ''-o'', output] @ inputs) ''linking failed''"

definition objcopy_binary :: "build_host \<Rightarrow> string \<Rightarrow> string \<Rightarrow> string \<Rightarrow> build" where
  "objcopy_binary host objcopy input output =
     run_tool host objcopy [''-O'', ''binary'', input, output] (''failed to objcopy '' @ input)"

section \<open>The firmware\<close>

definition create_build_dir :: "build_host \<Rightarrow> build" where
  "create_build_dir host = ([CreateDirAll BUILD_DIR], create_dir_error host)"

definition build_firmware ::
    "build_host \<Rightarrow> string \<Rightarrow> string \<Rightarrow> string \<Rightarrow> string \<Rightarrow> string \<Rightarrow> string \<Rightarrow> build" where
  "build_firmware host asm asl cc32 cc64 ld objcopy =
     (let entry32_o = BUILD_DIR @ ''/entry.o'';
          idt_o = BUILD_DIR @ ''/idt_handlers.o'';
          entry64_o = BUILD_DIR @ ''/entry64.o'';
          main32_o = BUILD_DIR @ ''/main.o'';
          main64_o = BUILD_DIR @ ''/main64.o'';
          main64_elf = BUILD_DIR @ ''/main64.elf'';
          main64_bin = BUILD_DIR @ ''/main64.bin'';
          firmware_elf = BUILD_DIR @ ''/out.elf'';
          firmware_bin = BUILD_DIR @ ''/out.bin''
      in build_all
           [create_build_dir host,
            build_acpi host asl,
            assemble host asm (FIRMWARE_DIR @ ''/assembly/entry.asm'') entry32_o ''elf32'',
            assemble host asm (FIRMWARE_DIR @ ''/assembly/idt_handlers.asm'') idt_o ''elf64'',
            assemble host asm (FIRMWARE_DIR @ ''/assembly/entry64.asm'') entry64_o ''elf64'',
            compile_c32 host cc32 (FIRMWARE_DIR @ ''/main.c'') main32_o,
            compile_c64 host cc64 (FIRMWARE_DIR @ ''/main64.c'') main64_o,
            link host ld main64_elf (FIRMWARE_DIR @ ''/linkerscript/linker64.ld'') [idt_o, entry64_o, main64_o] [],
            objcopy_binary host objcopy main64_elf main64_bin,
            link host ld firmware_elf (FIRMWARE_DIR @ ''/linkerscript/linker.ld'') [entry32_o, main32_o] [''-m'', ''elf_i386''],
            objcopy_binary host objcopy firmware_elf firmware_bin])"

section \<open>The tests\<close>

text \<open>The file name of a path and the extension of a name, as \<^verbatim>\<open>std::path\<close> has them: the part after the last dot, if
  there is something before it. The paths that the directory walk gives do not end in a slash.\<close>

definition path_file_name :: "string \<Rightarrow> string" where
  "path_file_name path = rev (takeWhile (\<lambda>c. c \<noteq> CHR ''/'') (rev path))"

definition path_extension :: "string \<Rightarrow> string option" where
  "path_extension path =
     (let name = path_file_name path;
          ext = rev (takeWhile (\<lambda>c. c \<noteq> CHR ''.'') (rev name))
      in if name = ''..'' \<or> length name \<le> length ext + 1 then None else Some ext)"

definition with_extension :: "string \<Rightarrow> string \<Rightarrow> string" where
  "with_extension path ext =
     (case path_extension path of
        None \<Rightarrow> path | Some old \<Rightarrow> take (length path - (length old + 1)) path) @ ''.'' @ ext"

definition path_to_str :: "string \<Rightarrow> string option" where
  "path_to_str path = (if valid_utf8 (map of_char path) then Some path else None)"

definition path_display :: "string \<Rightarrow> string" where
  "path_display path = map (\<lambda>b. char_of (unat b)) (to_string_lossy (map of_char path))"

text \<open>The \<^verbatim>\<open>unwrap\<close> of a path that is not UTF-8 panics with a message of the standard library.\<close>

definition compile_test :: "build_host \<Rightarrow> string \<Rightarrow> string \<Rightarrow> build" where
  "compile_test host asm path =
     and_then ([Println (''Compiling '' @ path_display path)], None)
       (case (path_to_str path, path_to_str (with_extension path ''bin'')) of
          (Some input, Some output) \<Rightarrow>
            run_tool host asm [''-f'', ''bin'', input, ''-o'', output] (''failed to assemble '' @ path_display path)
        | _ \<Rightarrow> ([], Some ''called `Option::unwrap()` on a `None` value''))"

text \<open>The walk over the directory: an error, or a path and whether it is a file.\<close>

definition build_tests :: "build_host \<Rightarrow> string \<Rightarrow> (string \<times> bool) option list \<Rightarrow> build" where
  "build_tests host asm entries =
     build_all (map (\<lambda>(path, is_file).
       if \<not> is_file then ([], None)
       else if (case path_extension path of None \<Rightarrow> None | Some e \<Rightarrow> path_to_str e) \<noteq> Some ''asm'' then ([], None)
       else compile_test host asm path) (List.map_filter (\<lambda>e. e) entries))"

definition build_main :: "build_host \<Rightarrow> (string \<times> bool) option list \<Rightarrow> build" where
  "build_main host entries =
     (let asm = tool host ''FERRUM_ASM'' ''nasm'';
          asl = tool host ''FERRUM_ASL'' ''iasl'';
          cc32 = tool host ''FERRUM_CC32'' ''i686-elf-gcc'';
          cc64 = tool host ''FERRUM_CC64'' ''gcc'';
          ld = tool host ''FERRUM_LD'' ''ld'';
          objcopy = tool host ''FERRUM_OBJCOPY'' ''objcopy''
      in and_then (build_firmware host asm asl cc32 cc64 ld objcopy) (build_tests host asm entries))"

section \<open>Order of the firmware build\<close>

text \<open>The arguments of a command that name files of the build directory. Each is written by the command itself, as the
  argument after \<^verbatim>\<open>-o\<close> or the last one of \<^verbatim>\<open>objcopy\<close>, or was written by an earlier one.\<close>

definition in_build_dir :: "string \<Rightarrow> bool" where
  "in_build_dir f \<longleftrightarrow> take (length BUILD_DIR + 1) f = BUILD_DIR @ ''/''"

fun output_of :: "string list \<Rightarrow> string option" where
  "output_of [] = None"
| "output_of (a # as) =
     (if a = ''-o'' \<and> as \<noteq> [] then Some (hd as)
      else if a = ''-O'' \<and> as \<noteq> [] then Some (last as) else output_of as)"

fun build_ordered :: "string list \<Rightarrow> build_action list \<Rightarrow> bool" where
  "build_ordered made [] = True"
| "build_ordered made (Command cmd args # acts) \<longleftrightarrow>
     list_all (\<lambda>f. in_build_dir f \<longrightarrow> f \<in> set made \<or> output_of args = Some f) args \<and>
     build_ordered (case output_of args of None \<Rightarrow> made | Some f \<Rightarrow> f # made) acts"
| "build_ordered made (_ # acts) = build_ordered made acts"

fun files_made :: "build_action list \<Rightarrow> string list" where
  "files_made [] = []"
| "files_made (Command cmd args # acts) = (case output_of args of None \<Rightarrow> [] | Some f \<Rightarrow> [f]) @ files_made acts"
| "files_made (_ # acts) = files_made acts"

lemma build_ordered_append: "build_ordered made (xs @ ys) \<Longrightarrow> build_ordered made xs"
  by (induction made xs rule: build_ordered.induct) auto

text \<open>A build takes the actions of its pieces in order, all of them when it does not panic.\<close>

lemma build_all_prefix: "\<exists>rest. concat (map fst bs) = fst (build_all bs) @ rest"
  by (induction bs) (auto simp: build_all_def and_then_def split: option.splits)

lemma build_all_complete: "snd (build_all bs) = None \<Longrightarrow> fst (build_all bs) = concat (map fst bs)"
  by (induction bs) (auto simp: build_all_def and_then_def split: option.splits)

text \<open>The actions of a firmware build that goes through.\<close>

definition firmware_actions ::
    "string \<Rightarrow> string \<Rightarrow> string \<Rightarrow> string \<Rightarrow> string \<Rightarrow> string \<Rightarrow> build_action list" where
  "firmware_actions asm asl cc32 cc64 ld objcopy =
     fst (build_firmware \<lparr>env_var = (\<lambda>_. None), create_dir_error = None, run_status = (\<lambda>_ _. ExitSuccess)\<rparr> asm asl cc32 cc64 ld objcopy)"

lemmas build_step_defs = run_tool_def build_acpi_def assemble_def compile_c32_def compile_c64_def link_def
  objcopy_binary_def create_build_dir_def

lemma build_firmware_actions:
  "\<exists>bs. build_firmware host asm asl cc32 cc64 ld objcopy = build_all bs \<and>
     concat (map fst bs) = firmware_actions asm asl cc32 cc64 ld objcopy"
  unfolding build_firmware_def Let_def
  by (rule exI, rule conjI, rule refl)
    (simp add: firmware_actions_def build_firmware_def build_all_def and_then_def build_step_defs Let_def)

lemma firmware_actions_ordered: "build_ordered [] (firmware_actions asm asl cc32 cc64 ld objcopy)"
  by (simp add: firmware_actions_def build_firmware_def build_all_def and_then_def build_step_defs Let_def
      in_build_dir_def BUILD_DIR_def FIRMWARE_DIR_def ACPI_DIR_def)

lemma firmware_actions_make:
  "BUILD_DIR @ ''/out.bin'' \<in> set (files_made (firmware_actions asm asl cc32 cc64 ld objcopy))"
  "BUILD_DIR @ ''/main64.bin'' \<in> set (files_made (firmware_actions asm asl cc32 cc64 ld objcopy))"
  by (simp_all add: firmware_actions_def build_firmware_def build_all_def and_then_def build_step_defs Let_def)

text \<open>A panic is that of the last action: all before it went well, and without a panic all did.\<close>

fun action_ok :: "build_host \<Rightarrow> build_action \<Rightarrow> bool" where
  "action_ok host (CreateDirAll d) \<longleftrightarrow> create_dir_error host = None"
| "action_ok host (Command cmd args) \<longleftrightarrow> run_status host cmd args = ExitSuccess"
| "action_ok host (Println t) = True"

definition stops_at_failure :: "build_host \<Rightarrow> build \<Rightarrow> bool" where
  "stops_at_failure host b = (case snd b of
     None \<Rightarrow> list_all (action_ok host) (fst b)
   | Some e \<Rightarrow> fst b \<noteq> [] \<and> list_all (action_ok host) (butlast (fst b)) \<and> \<not> action_ok host (last (fst b)))"

lemma stops_run_tool [simp]: "stops_at_failure host (run_tool host cmd args error)"
  by (simp add: stops_at_failure_def run_tool_def split: run_outcome.splits)

lemma stops_and_then: "stops_at_failure host a \<Longrightarrow> stops_at_failure host b \<Longrightarrow> stops_at_failure host (and_then a b)"
  by (auto simp: stops_at_failure_def and_then_def butlast_append split: option.splits)

lemma stops_build_all: "list_all (stops_at_failure host) bs \<Longrightarrow> stops_at_failure host (build_all bs)"
proof (induction bs)
  case Nil
  show ?case by (simp add: build_all_def stops_at_failure_def)
next
  case (Cons b bs)
  then show ?case using stops_and_then [of host b "build_all bs"] by (simp add: build_all_def)
qed

text \<open>C39: The firmware build is ordered: whatever the tools are and however they end, no command reads a file of the
  build directory that it does not write itself and that no earlier command wrote. The build stops at the
  first action that fails, and when it does not panic it has written the two images that the main program reads.\<close>

theorem firmware_build_ordered:
  "let b = build_firmware host asm asl cc32 cc64 ld objcopy in
    build_ordered [] (fst b) \<and> stops_at_failure host b \<and>
    (snd b = None \<longrightarrow> {BUILD_DIR @ ''/out.bin'', BUILD_DIR @ ''/main64.bin''} \<subseteq> set (files_made (fst b)))"
proof -
  define b where "b = build_firmware host asm asl cc32 cc64 ld objcopy"
  obtain bs where bs: "b = build_all bs" "concat (map fst bs) = firmware_actions asm asl cc32 cc64 ld objcopy"
    using build_firmware_actions b_def by metis
  have "build_ordered [] (fst b)"
    using build_all_prefix [of bs] build_ordered_append firmware_actions_ordered bs by metis
  moreover have "stops_at_failure host (create_build_dir host)"
    by (simp add: stops_at_failure_def create_build_dir_def split: option.splits)
  then have "stops_at_failure host b"
    by (simp add: b_def build_firmware_def Let_def stops_build_all build_acpi_def assemble_def compile_c32_def
        compile_c64_def link_def objcopy_binary_def)
  moreover have "snd b = None \<Longrightarrow> fst b = firmware_actions asm asl cc32 cc64 ld objcopy"
    using build_all_complete bs by simp
  ultimately have "build_ordered [] (fst b) \<and> stops_at_failure host b \<and>
    (snd b = None \<longrightarrow> {BUILD_DIR @ ''/out.bin'', BUILD_DIR @ ''/main64.bin''} \<subseteq> set (files_made (fst b)))"
    using firmware_actions_make by auto
  then show ?thesis unfolding b_def Let_def .
qed

theorem firmware_build_ordered_witness:
  "{BUILD_DIR @ ''/out.bin'', BUILD_DIR @ ''/main64.bin''} \<subseteq>
     set (files_made (firmware_actions ''nasm'' ''iasl'' ''cc'' ''gcc'' ''ld'' ''objcopy''))"
proof -
  let ?h = "\<lparr>env_var = (\<lambda>_. None), create_dir_error = None, run_status = (\<lambda>_ _. ExitSuccess)\<rparr>"
  have "snd (build_firmware ?h ''nasm'' ''iasl'' ''cc'' ''gcc'' ''ld'' ''objcopy'') = None"
    by (simp add: build_firmware_def build_all_def and_then_def build_step_defs Let_def)
  with firmware_build_ordered [of ?h] show ?thesis unfolding firmware_actions_def Let_def by blast
qed

section \<open>Tests\<close>

text \<open>The output of a test stands beside its source, with the extension exchanged.\<close>

lemma takeWhile_rev_split:
  assumes "length (takeWhile P (rev xs)) < length xs"
  shows "\<exists>ys c. xs = ys @ c # rev (takeWhile P (rev xs)) \<and> \<not> P c"
proof -
  let ?t = "takeWhile P (rev xs)" and ?d = "dropWhile P (rev xs)"
  have "?d \<noteq> []" using assms by (metis length_rev less_irrefl self_append_conv takeWhile_dropWhile_id)
  then obtain c ds where d: "?d = c # ds" "\<not> P c" by (metis hd_dropWhile list.exhaust_sel)
  have "xs = rev (?t @ ?d)" by simp
  also have "\<dots> = rev ds @ c # rev ?t" unfolding d(1) by simp
  finally show ?thesis using d(2) by blast
qed

lemma with_extension_exchanges:
  assumes "path_extension path = Some e"
  shows "\<exists>stem. path = stem @ ''.'' @ e \<and> with_extension path new = stem @ ''.'' @ new"
proof -
  let ?name = "path_file_name path"
  have e: "e = rev (takeWhile (\<lambda>c. c \<noteq> CHR ''.'') (rev ?name))" "length e + 1 < length ?name"
    using assms by (auto simp: path_extension_def Let_def split: if_splits)
  then obtain ys c where n: "?name = ys @ c # e" "c = CHR ''.''"
    using takeWhile_rev_split [of "\<lambda>c. c \<noteq> CHR ''.''" ?name] by auto
  obtain dir where "path = dir @ ?name"
    unfolding path_file_name_def by (metis rev_append rev_rev_ident takeWhile_dropWhile_id)
  then have p: "path = (dir @ ys) @ ''.'' @ e" using n by simp
  then have "take (length path - (length e + 1)) path = dir @ ys" by simp
  then show ?thesis using p assms by (auto simp: with_extension_def)
qed

end
