(* ===== verification/Virtio_System.thy ===== *)
theory Virtio_System
  imports Virtio_Mmio Virtio_Simple Virtio_Blk
begin

text \<open>
  Devices behind the MMIO transport: what a guest driver can rely on whatever sequence of register
  accesses, RAM stores and ticks it interleaves. The claims that quantify over the device use the
  device interface \<^verbatim>\<open>virtio_device\<close>, which every device of the repository provides.
\<close>

section \<open>Register pairs\<close>

lemma low_mask: "(0x00000000FFFFFFFF :: u64) = mask 32" "(0xFFFFFFFF00000000 :: u64) = NOT (mask 32)"
  by (simp_all add: mask_eq_exp_minus_1)

lemma set_pair: "set_high (set_low old lo) hi = push_bit 32 (ucast hi) OR ucast lo"
  unfolding set_high_def set_low_def low_mask
  by (rule bit_word_eqI) (auto simp: bit_simps dest: bit_imp_le_length)

lemma read_u32_le32 [simp]: "read_u32_from_data (le32 v) = Some v"
  by (simp add: read_u32_from_data_def put_slice_def copy_at_def)

lemma read_u32_zero [simp]: "read_u32_from_data (replicate 4 0) = Some 0"
  using read_u32_le32 [of 0] by simp

text \<open>The driver writes the low half of a 64-bit register, then the high half.\<close>

definition write_pair ::
    "'d virtio_ops \<Rightarrow> 'd mmio_transport \<Rightarrow> u64 \<Rightarrow> u32 \<Rightarrow> u32 \<Rightarrow> guest_memory \<Rightarrow> irq_queue \<Rightarrow>
     ('d mmio_transport \<times> guest_memory \<times> irq_queue) option" where
  "write_pair ops t a lo hi m cmds =
     do {
       (t, m, cmds) \<leftarrow> mmio_write ops t a (le32 lo) m cmds;
       mmio_write ops t (a + 4) (le32 hi) m cmds
     }"

definition at_selected :: "'d mmio_transport \<Rightarrow> (virtio_queue \<Rightarrow> virtio_queue) \<Rightarrow> 'd mmio_transport" where
  "at_selected t f = t\<lparr>queues := (queues t)[queue_sel t := f (queues t ! queue_sel t)]\<rparr>"

lemma update_queue_ok: "sel_ok t \<Longrightarrow> update_queue t f = Some (at_selected t f)"
  by (simp add: update_queue_def at_selected_def sel_ok_def index_at_def)

lemma at_selected_simps [simp]:
  "sel_ok t \<Longrightarrow> sel_ok (at_selected t f)"
  "sel_ok t \<Longrightarrow> at_selected (at_selected t f) g = at_selected t (g \<circ> f)"
  by (simp_all add: at_selected_def sel_ok_def)

section \<open>Properties\<close>

text \<open>Whatever the guest writes to the registers and to its RAM, and however the tick thread, the
  interrupt delivery and other devices interleave with it, once the queued interrupt commands are
  delivered the line of a transport is high exactly while its interrupt status is not zero, and the
  number of queues never changes.\<close>

theorem transport_line_follows_status:
  assumes "virtio_device ops" "sys_reachable ops (start_sys ops d n sel m) s" "0 < n"
  shows "(line_level sel (line s) (irqs s) \<longleftrightarrow> interrupt_status (tr s) \<noteq> 0) \<and> length (queues (tr s)) = n"
  using virtio_device.sys_reachable_inv [OF assms] by (simp add: transport_inv_def)

text \<open>No sequence of guest accesses can make a later read of the transport's own registers panic:
  every access of at most eight bytes below the configuration space is answered with as many bytes.\<close>

theorem register_reads_never_panic:
  assumes "virtio_device ops" "sys_reachable ops (start_sys ops d n sel m) s" "0 < n"
    and "a < 0x100" "k \<le> 8"
  shows "\<exists>bs t' c'. mmio_read ops (tr s) a k (irqs s) = Some (bs, t', c') \<and> length bs = k"
proof -
  have "sel_ok (tr s)"
    using virtio_device.sys_reachable_inv [OF assms(1-3)] by (simp add: transport_inv_def sel_ok_def)
  then show ?thesis using assms(4,5) by (rule register_read_total)
qed

text \<open>The queue address registers compose: writing the low and then the high half of the descriptor,
  available or used ring address gives the selected queue exactly that 64-bit address, whatever it held
  before, and changes nothing else.\<close>

theorem queue_address_registers:
  assumes "sel_ok t"
  shows "write_pair ops t 0x080 lo hi m cmds =
       Some (at_selected t (\<lambda>q. q\<lparr>desc_addr := push_bit 32 (ucast hi) OR ucast lo\<rparr>), m, cmds) \<and>
     write_pair ops t 0x090 lo hi m cmds =
       Some (at_selected t (\<lambda>q. q\<lparr>avail_addr := push_bit 32 (ucast hi) OR ucast lo\<rparr>), m, cmds) \<and>
     write_pair ops t 0x0A0 lo hi m cmds =
       Some (at_selected t (\<lambda>q. q\<lparr>used_addr := push_bit 32 (ucast hi) OR ucast lo\<rparr>), m, cmds)"
  using assms by (simp_all add: write_pair_def mmio_write_def update_queue_ok set_pair comp_def)

text \<open>C27: Writing zero to the status register puts the transport back into its initial state, with the
  device reset and the interrupt line lowered; only the handles it was given survive.\<close>

theorem status_zero_resets:
  "mmio_write ops t 0x070 (le32 0) m cmds =
     Some ((new_mmio_transport (dev_reset ops (device t)) (length (queues t)) (irq_sel t))
         \<lparr>irq_handler := irq_handler t, guest_memory_set := guest_memory_set t\<rparr>,
       m, if irq_handler t then cmds @ [\<lparr>irq_line = irq_sel t, irq_value = False\<rparr>] else cmds)"
  by (simp add: mmio_write_def reset_transport_def new_mmio_transport_def set_irq_line_def Let_def
      trigger_irq_def new_irq_command_def map_replicate_const)

text \<open>The entropy source and the counter return no configuration bytes, so a guest read of the
  configuration space of either panics the VMM thread, whatever its offset and length, while the
  console and the block device answer it with as many bytes as were asked for.\<close>

theorem config_read_panics:
  assumes "0x100 \<le> a" "0 < k"
  shows "mmio_read (rng_ops rnd p) t a k cmds = None \<and> mmio_read (cnt_ops p) u a k cmds = None \<and>
    (\<exists>bs. mmio_read console_ops v a k cmds = Some (bs, v, cmds) \<and> length bs = k)"
  using assms virtio_device_config.config_read_total [OF console.virtio_device_config_axioms assms(1), of v k cmds]
  by (simp_all add: mmio_read_def rng_ops_def cnt_ops_def slice_of_def Let_def)

end
