(* ===== verification/Gpu_Frames.thy ===== *)
theory Gpu_Frames
  imports Virtio_Gpu
begin

text \<open>
  What the commands of the GPU device do: a frame on its way from guest pages through a resource to the
  window, the limits on what a guest can make the device keep, and the configuration space.
\<close>

section \<open>Flushing\<close>

lemma flush_scanouts_filter:
  "flush_scanouts host p rid r ss win =
    flush_scanouts host p rid r (filter (\<lambda>s. scan_resource s = Some rid) ss) win"
  by (induction ss arbitrary: win) (auto simp: fun_eq_iff intro!: arg_cong2 [where f = Option.bind])

lemma map_of_update [simp]: "map_of (AList.update k v xs) = (map_of xs)(k \<mapsto> v)"
  by (rule AList.update_conv')

text \<open>What the driver has to provide for a transfer to fill its whole rectangle: the rectangle lies in the
  resource, and the attached pages are guest memory and reach as far as its last row.\<close>

definition transfer_ready :: "guest_memory \<Rightarrow> virtio_gpu \<Rightarrow> gpu_transfer \<Rightarrow> gpu_resource \<Rightarrow> nat \<Rightarrow> bool" where
  "transfer_ready m d req r base \<longleftrightarrow>
     map_of (gpu_resources d) (tr_resource_id req) = Some r \<and> res_contains r (tr_rect req) \<and> backing_ok m r \<and>
     base = unat (tr_offset req) + unat (rect_y (tr_rect req)) * res_stride r + 4 * unat (rect_x (tr_rect req)) \<and>
     base + (unat (rect_height (tr_rect req)) - 1) * res_stride r + 4 * unat (rect_width (tr_rect req)) \<le>
       length (backing_bytes m r)"

lemma transfer_command:
  assumes "gpu_inv d" "transfer_from_bytes bytes = Some req" "transfer_ready m d req r base"
  obtains data where "gpu_command host p m d CMD_TRANSFER_TO_HOST_2D bytes =
      Some (d\<lparr>gpu_resources := AList.update (tr_resource_id req) (r\<lparr>res_data := data\<rparr>) (gpu_resources d)\<rparr>, Header RESP_OK_NODATA)"
    "rows_copied (backing_bytes m r) r (tr_rect req) base 0 data"
    "rect_pixels data (res_stride r) (tr_rect req) = backing_pixels m r (tr_rect req) base" "res_ok r"
proof -
  have t: "map_of (gpu_resources d) (tr_resource_id req) = Some r" "res_contains r (tr_rect req)" "backing_ok m r"
    "base = unat (tr_offset req) + unat (rect_y (tr_rect req)) * res_stride r + 4 * unat (rect_x (tr_rect req))"
    "base + (unat (rect_height (tr_rect req)) - 1) * res_stride r + 4 * unat (rect_width (tr_rect req)) \<le>
       length (backing_bytes m r)"
    using assms(3) unfolding transfer_ready_def by blast+
  have ok: "res_ok r" using gpu_invD(1) [OF assms(1) t(1)] .
  obtain data where "transfer_to_host p m r (tr_rect req) (tr_offset req) = Some (Some (r\<lparr>res_data := data\<rparr>))"
      "rows_copied (backing_bytes m r) r (tr_rect req) base 0 data"
    by (rule transfer_to_host_copies [OF ok t(2-5)])
  then show thesis
    using that [of data] assms(2) t(1) ok rows_copied_pixels [OF ok t(2) _ t(5)]
    by (simp add: gpu_command_def gpu_cmd_defs cmd_transfer_def)
qed

section \<open>Configuration space\<close>

lemma bit_from_le:
  "bit (from_le bs :: 'a::len word) i \<longleftrightarrow> i < LENGTH('a) \<and> i < 8 * length bs \<and> bit (bs ! (i div 8)) (i mod 8)"
proof (induction bs arbitrary: i)
  case (Cons b bs)
  show ?case
  proof (cases "i < 8")
    case True
    then show ?thesis by (auto simp: bit_simps)
  next
    case False
    then have "i div 8 = Suc ((i - 8) div 8)" "i mod 8 = (i - 8) mod 8"
      by (simp_all add: le_div_geq le_mod_geq not_less)
    with False show ?thesis by (auto simp: bit_simps Cons.IH dest: bit_imp_le_length)
  qed
qed simp

lemma bit_field_mask:
  assumes "start + len \<le> 4" "0 < len"
  shows "bit (push_bit (start * 8) (- 1) AND drop_bit (32 - (start + len) * 8) (- 1) :: u32) i \<longleftrightarrow>
    i < 32 \<and> start \<le> i div 8 \<and> i div 8 < start + len"
proof -
  have "start * 8 \<le> i \<longleftrightarrow> start \<le> i div 8" "i < (start + len) * 8 \<longleftrightarrow> i div 8 < start + len"
    by (simp_all add: less_eq_div_iff_mult_less_eq div_less_iff_less_mult)
  then show ?thesis using assms by (auto simp: bit_simps)
qed

lemma masked_field:
  assumes "start + length data \<le> 4" "data \<noteq> []"
  defines "msk \<equiv> push_bit (start * 8) (- 1) AND drop_bit (32 - (start + length data) * 8) (- 1) :: u32"
  shows "(cur AND NOT msk) OR (from_le (copy_at (replicate 4 0) start data) AND msk) = from_le (copy_at (le32 cur) start data)"
proof (rule bit_word_eqI)
  fix i assume i: "i < LENGTH(32)"
  have m: "bit msk i \<longleftrightarrow> start \<le> i div 8 \<and> i div 8 < start + length data"
    unfolding msk_def using bit_field_mask [of start "length data" i] assms(1,2) i by auto
  have c: "bit cur i = bit (le32 cur ! (i div 8)) (i mod 8)"
    using bit_from_le [of "le32 cur" i, where 'a = 32] i by simp
  have "i div 8 < 4" using i by simp
  with m c i assms(1) show "bit ((cur AND NOT msk) OR (from_le (copy_at (replicate 4 0) start data) AND msk)) i =
      bit (from_le (copy_at (le32 cur) start data) :: u32) i"
    by (auto simp: bit_simps bit_from_le nth_copy_at)
qed

lemma config_write_inside:
  assumes "4 \<le> off" "off + length data \<le> 8" "data \<noteq> []"
  shows "gpu_config_to_bytes (config_write_field c off data) 16 = copy_at (gpu_config_to_bytes c 16) off data"
proof -
  have off: "off div 4 = 1" "off mod 4 = off - 4"
  proof -
    have "off < 8" using assms(2,3) by (cases data) auto
    with assms(1) have "off = 4 \<or> off = 5 \<or> off = 6 \<or> off = 7" by auto
    then show "off div 4 = 1" "off mod 4 = off - 4" by auto
  qed
  let ?w = "copy_at (le32 (events_clear c)) (off - 4) data"
  have "config_write_field c off data = c\<lparr>events_clear := from_le ?w\<rparr>"
    using masked_field [of "off - 4" data "events_clear c"] assms
    by (auto simp: config_write_field_def off Let_def)
  moreover have len: "length ?w = 4" using assms by simp
  moreover have "le32 (from_le ?w) = ?w" using to_le_from_le [of ?w, where 'a = 32] len by simp
  moreover have "copy_at (a @ b @ z) off data = a @ copy_at b (off - 4) data @ z"
    if "length a = 4" "length b = 4" for a b z :: "u8 list"
    using that assms by (simp add: copy_at_def)
  ultimately show ?thesis by (simp add: gpu_config_to_bytes_def vec_resize_def)
qed

lemma config_write_outside:
  assumes "\<not> (4 \<le> off \<and> off + length data \<le> 8) \<or> data = []"
  shows "config_write_field c off data = c"
proof (cases "off div 4 = 1")
  case True
  then have "4 \<le> off" "off mod 4 = off - 4" using div_mult_mod_eq [of off 4] by auto
  with assms show ?thesis by (auto simp: config_write_field_def Let_def)
qed (simp add: config_write_field_def Let_def)

section \<open>A frame in memory\<close>

text \<open>Guest memory of 64 bytes, a resource of two by two pixels on its first sixteen, shown at the origin of
  the window of the main program, and the requests for it.\<close>

definition frame_mem :: guest_memory where
  "frame_mem = [new_region (Some (map of_nat [0..<64])) 64 0]"

definition frame_rect :: display_rect where
  "frame_rect = new_rect 0 0 2 2"

definition frame_resource :: gpu_resource where
  "frame_resource = \<lparr>res_width = 2, res_height = 2,
     res_backing = [\<lparr>ent_addr = 0, ent_length = 16, ent_padding = 0\<rparr>], res_data = replicate 16 0, res_stride = 8\<rparr>"

definition frame_gpu :: virtio_gpu where
  "frame_gpu = \<lparr>gpu_guest_memory = True,
     gpu_cfg = \<lparr>events_read = 0, events_clear = 0, num_scanouts = 1, num_capsets = 0\<rparr>,
     gpu_window = new_sdl 500 500, gpu_resources = [(1, frame_resource)],
     gpu_scanouts = \<lparr>scan_resource = Some 1, scan_rect = frame_rect\<rparr> # replicate 15 empty_scanout\<rparr>"

definition good_sdl :: sdl_host where
  "good_sdl n c = True"

definition frame_transfer :: gpu_transfer where
  "frame_transfer = \<lparr>tr_hdr = new_ctrl_hdr CMD_TRANSFER_TO_HOST_2D, tr_rect = frame_rect, tr_offset = 0, tr_resource_id = 1\<rparr>"

definition frame_transfer_bytes :: "u8 list" where
  "frame_transfer_bytes = ctrl_hdr_to_bytes (new_ctrl_hdr CMD_TRANSFER_TO_HOST_2D) @
     le32 0 @ le32 0 @ le32 2 @ le32 2 @ le64 0 @ le32 1"

definition frame_flush_bytes :: "u8 list" where
  "frame_flush_bytes = ctrl_hdr_to_bytes (new_ctrl_hdr CMD_RESOURCE_FLUSH) @ le32 0 @ le32 0 @ le32 2 @ le32 2 @ le32 1"

lemma frame_ok:
  "wf_mem frame_mem" "disjoint_regions frame_mem" "gpu_inv frame_gpu"
  by (simp_all add: frame_mem_def new_region_def wf_region_def disjoint_regions_def frame_gpu_def gpu_inv_def
      frame_resource_def res_ok_def empty_scanout_def MAX_RESOURCES_def MAX_SCANOUTS_def MAX_RESOURCE_DIMENSION_def
      MAX_RESOURCE_BYTES_def)

lemma frame_backing: "backing_ok frame_mem frame_resource"
proof -
  have "cells_ok frame_mem 0 16"
    unfolding frame_mem_def by (rule cells_ok_single) (simp_all add: new_region_def)
  then show ?thesis using frame_ok by (simp add: backing_ok_def frame_resource_def)
qed

lemma frame_bytes:
  "transfer_from_bytes frame_transfer_bytes = Some frame_transfer"
  "map_option flush_resource_id (flush_from_bytes frame_flush_bytes) = Some 1"
  "backing_bytes frame_mem frame_resource = map of_nat [0..<16]"
  "backing_pixels frame_mem frame_resource frame_rect 0 = map of_nat [0..<16]"
  by code_simp+

lemma frame_contains: "res_contains frame_resource frame_rect"
  by (simp add: res_contains_def saturating_add_def frame_resource_def frame_rect_def new_rect_def)

lemma frame_ready: "transfer_ready frame_mem frame_gpu frame_transfer frame_resource 0"
  using frame_backing frame_bytes(3) frame_contains
  by (simp add: transfer_ready_def frame_gpu_def frame_transfer_def)
    (simp add: frame_rect_def new_rect_def frame_resource_def)

section \<open>Properties\<close>

text \<open>C19: A transfer to the host copies exactly the requested rectangle: when the pages attached to the
  resource reach as far as the last row, the command succeeds, the pixels of the rectangle are afterwards
  the bytes of the pages from the offset on, row by row, and no other pixel, resource, scanout or window
  state changes.\<close>

theorem gpu_transfer_copies_rectangle:
  assumes "gpu_inv d" "transfer_from_bytes bytes = Some req" "transfer_ready m d req r base"
  shows "\<exists>data. gpu_command host p m d CMD_TRANSFER_TO_HOST_2D bytes =
      Some (d\<lparr>gpu_resources := AList.update (tr_resource_id req) (r\<lparr>res_data := data\<rparr>) (gpu_resources d)\<rparr>, Header RESP_OK_NODATA) \<and>
    rect_pixels data (res_stride r) (tr_rect req) = backing_pixels m r (tr_rect req) base \<and>
    length data = length (res_data r) \<and>
    (\<forall>k < length data. (\<forall>i < unat (rect_height (tr_rect req)).
        k \<notin> {row_start r (tr_rect req) i..<row_start r (tr_rect req) i + 4 * unat (rect_width (tr_rect req))}) \<longrightarrow>
      data ! k = res_data r ! k)"
  by (rule transfer_command [OF assms, of host p]) (auto simp: rows_copied_def)

theorem gpu_transfer_copies_rectangle_witness:
  "\<exists>d' data. gpu_command good_sdl Dev frame_mem frame_gpu CMD_TRANSFER_TO_HOST_2D frame_transfer_bytes =
      Some (d', Header RESP_OK_NODATA) \<and> rect_pixels data 8 frame_rect = map of_nat [0..<16]"
  using gpu_transfer_copies_rectangle [OF frame_ok(3) frame_bytes(1) frame_ready, of good_sdl Dev] frame_bytes(4)
  by (auto simp: frame_transfer_def frame_resource_def)

text \<open>C16: A frame reaches the window: after a transfer of a rectangle and a flush of the resource, when one
  scanout shows the resource with that rectangle and it lies inside the window, SDL has been given
  exactly the guest's pixels at that place, drawn and presented.\<close>

theorem gpu_frame_reaches_window:
  assumes "gpu_inv d" "transfer_from_bytes bytes = Some req" "transfer_ready m d req r base"
    and "map_option flush_resource_id (flush_from_bytes flush_bytes) = Some (tr_resource_id req)"
    and "filter (\<lambda>s. scan_resource s = Some (tr_resource_id req)) (gpu_scanouts d) =
      [\<lparr>scan_resource = Some (tr_resource_id req), scan_rect = tr_rect req\<rparr>]"
    and "unat (rect_x (tr_rect req)) + unat (rect_width (tr_rect req)) \<le> unat (sdl_width (gpu_window d))"
    and "unat (rect_y (tr_rect req)) + unat (rect_height (tr_rect req)) \<le> unat (sdl_height (gpu_window d))"
    and "\<forall>n c. host n c"
  shows "\<exists>d1 d2. gpu_command host p m d CMD_TRANSFER_TO_HOST_2D bytes = Some (d1, Header RESP_OK_NODATA) \<and>
    gpu_command host p m2 d1 CMD_RESOURCE_FLUSH flush_bytes = Some (d2, Header RESP_OK_NODATA) \<and>
    sdl_calls (gpu_window d2) = sdl_calls (gpu_window d) @
      [TextureUpdate (sint (rect_x (tr_rect req))) (sint (rect_y (tr_rect req))) (rect_width (tr_rect req))
         (rect_height (tr_rect req)) (backing_pixels m r (tr_rect req) base) (4 * unat (rect_width (tr_rect req))),
       RenderCopy, Present]"
proof -
  let ?rc = "tr_rect req" and ?id = "tr_resource_id req"
  obtain data where t: "gpu_command host p m d CMD_TRANSFER_TO_HOST_2D bytes =
        Some (d\<lparr>gpu_resources := AList.update ?id (r\<lparr>res_data := data\<rparr>) (gpu_resources d)\<rparr>, Header RESP_OK_NODATA)"
      "rows_copied (backing_bytes m r) r ?rc base 0 data" "rect_pixels data (res_stride r) ?rc = backing_pixels m r ?rc base"
      "res_ok r"
    by (rule transfer_command [OF assms(1-3)])
  have ok: "res_ok (r\<lparr>res_data := data\<rparr>)" using t(2,4) by (auto simp: rows_copied_def intro: res_ok_data)
  have "res_contains r ?rc" using assms(3) by (simp add: transfer_ready_def)
  then have ins: "rect_inside data (res_stride r) ?rc" using contains_inside(5) [OF ok, of ?rc] by simp
  have "length data \<le> MAX_RESOURCE_BYTES" using ok by (auto simp: res_ok_def)
  then have "length data \<le> 2 ^ 32" by (rule order_trans) (simp add: MAX_RESOURCE_BYTES_def)
  note b = blit_inside [OF ins this assms(6,7), of host p] assms(8)
  have "flush_scanouts host p ?id (r\<lparr>res_data := data\<rparr>) (gpu_scanouts d) (gpu_window d) =
      blit host p (gpu_window d) data (res_stride r) ?rc"
    by (subst flush_scanouts_filter) (simp add: assms(5) split: bind_splits)
  with b t(3) assms(4) have "\<exists>d2. gpu_command host p m2
      (d\<lparr>gpu_resources := AList.update ?id (r\<lparr>res_data := data\<rparr>) (gpu_resources d)\<rparr>) CMD_RESOURCE_FLUSH flush_bytes =
      Some (d2, Header RESP_OK_NODATA) \<and> sdl_calls (gpu_window d2) = sdl_calls (gpu_window d) @
      [TextureUpdate (sint (rect_x ?rc)) (sint (rect_y ?rc)) (rect_width ?rc) (rect_height ?rc)
         (backing_pixels m r ?rc base) (4 * unat (rect_width ?rc)), RenderCopy, Present]"
    by (auto simp: gpu_command_def gpu_cmd_defs cmd_flush_def)
  with t(1) show ?thesis by blast
qed

theorem gpu_frame_reaches_window_witness:
  "\<exists>d1 d2. gpu_command good_sdl Dev frame_mem frame_gpu CMD_TRANSFER_TO_HOST_2D frame_transfer_bytes = Some (d1, Header RESP_OK_NODATA) \<and>
    gpu_command good_sdl Dev frame_mem d1 CMD_RESOURCE_FLUSH frame_flush_bytes = Some (d2, Header RESP_OK_NODATA) \<and>
    sdl_calls (gpu_window d2) = [Present, CreateTexture 500 500,
      TextureUpdate 0 0 2 2 (map of_nat [0..<16]) 8, RenderCopy, Present]"
  using gpu_frame_reaches_window [OF frame_ok(3) frame_bytes(1) frame_ready, of frame_flush_bytes good_sdl Dev frame_mem]
    frame_bytes(2,4)
  by (simp add: frame_transfer_def frame_gpu_def new_sdl_def good_sdl_def)
    (simp add: frame_rect_def new_rect_def empty_scanout_def)

text \<open>C18: Whatever a guest sends, in every reachable state the device keeps at most 64 resources under
  distinct ids, each with exactly the pixels of its size and at most 256 MiB of them, and each of the 16
  scanouts shows nothing or a resource that exists.\<close>

theorem gpu_state_bounded:
  assumes "gpu_reachable host p d"
  shows "length (gpu_resources d) \<le> 64 \<and> distinct (map fst (gpu_resources d)) \<and>
    (\<forall>(i, r) \<in> set (gpu_resources d). res_stride r = 4 * unat (res_width r) \<and>
       length (res_data r) = res_stride r * unat (res_height r) \<and> length (res_data r) \<le> 268435456) \<and>
    length (gpu_scanouts d) = 16 \<and>
    (\<forall>s \<in> set (gpu_scanouts d). \<forall>i. scan_resource s = Some i \<longrightarrow> map_of (gpu_resources d) i \<noteq> None)"
  using gpu_reachable_inv [OF assms]
  by (fastforce simp: gpu_inv_def MAX_RESOURCES_def MAX_SCANOUTS_def res_ok_def MAX_RESOURCE_BYTES_def map_of_eq_None_iff)

theorem gpu_state_bounded_witness:
  "\<exists>d. new_gpu (new_sdl 500 500) = Some d \<and> length (gpu_scanouts (gpu_reset d)) = 16"
proof -
  obtain d where d: "new_gpu (new_sdl 500 500) = Some d" by (auto simp: new_gpu_def new_gpu_config_def)
  have "gpu_reachable good_sdl Dev (gpu_reset d)" by (rule gpu_was_reset [OF gpu_start [OF d]])
  from gpu_state_bounded [OF this] d show ?thesis by blast
qed

text \<open>The rectangle of a scanout is not checked: a guest that has any resource can set a scanout of
  0xFFFFFFFF by 0xFFFFFFFF pixels, which is answered with success, and its next flush of the resource
  panics in both build profiles.\<close>

theorem unchecked_scanout_panics:
  assumes "gpu_inv d" "map_of (gpu_resources d) i = Some r" "i \<noteq> 0"
    and "set_scanout_from_bytes sbytes =
      Some \<lparr>set_hdr = hdr, set_rect = new_rect 0 0 0xFFFFFFFF 0xFFFFFFFF, set_scanout_id = 0, set_resource_id = i\<rparr>"
    and "map_option flush_resource_id (flush_from_bytes fbytes) = Some i"
  shows "\<exists>d'. gpu_command host p m d CMD_SET_SCANOUT sbytes = Some (d', Header RESP_OK_NODATA) \<and>
    gpu_command host p m d' CMD_RESOURCE_FLUSH fbytes = None"
proof -
  have "blit host p win src stride (new_rect 0 0 0xFFFFFFFF 0xFFFFFFFF) = None" for win src stride
    by (cases p) (simp_all add: blit_def blit_rect_def new_rect_def mul_usize_def vec_zeros_def)
  moreover obtain s ss where "gpu_scanouts d = s # ss"
    using gpu_invD(2) [OF assms(1)] by (cases "gpu_scanouts d") auto
  ultimately show ?thesis
    using assms(2-5) by (auto simp: gpu_command_def gpu_cmd_defs cmd_set_scanout_def cmd_flush_def set_at_def MAX_SCANOUTS_def)
qed

text \<open>A driver's write to the configuration space changes exactly the bytes it covers when it lies in
  the one writable field, \<^verbatim>\<open>events_clear\<close>, and nothing otherwise; a write that straddles fields is dropped.\<close>

theorem gpu_config_write:
  "gpu_config_to_bytes (config_write_field c off data) 16 =
    (if 4 \<le> off \<and> off + length data \<le> 8 then copy_at (gpu_config_to_bytes c 16) off data else gpu_config_to_bytes c 16)"
  using config_write_inside [of off data c] config_write_outside [of off data c] by (cases "data = []") auto

end
