(* ===== verification/Gpu_Queue.thy ===== *)
theory Gpu_Queue
  imports Gpu_Frames
begin

text \<open>
  The control queue of the GPU device as a service: what a request reads and writes in guest memory, which
  requests cannot make the device panic, and that a tick answers every pending request.
\<close>

section \<open>Requests\<close>

text \<open>The descriptors that a request visits, and what is collected from them.\<close>

fun gpu_chain :: "nat \<Rightarrow> virtio_queue \<Rightarrow> guest_memory \<Rightarrow> u16 \<Rightarrow> u16 list" where
  "gpu_chain 0 q m i = []"
| "gpu_chain (Suc n) q m i =
     (let d = desc_at q m i
      in i # (if desc_flags d AND VIRTQ_DESC_F_WRITE \<noteq> 0 \<or> desc_flags d AND VIRTQ_DESC_F_NEXT = 0 \<or> q_size q \<le> desc_next d
              then [] else gpu_chain n q m (desc_next d)))"

fun gathered :: "nat \<Rightarrow> virtio_queue \<Rightarrow> guest_memory \<Rightarrow> u16 \<Rightarrow> u8 list \<Rightarrow> (u8 list \<times> virtq_desc) option" where
  "gathered 0 q m i request = None"
| "gathered (Suc n) q m i request =
     (let d = desc_at q m i
      in if desc_flags d AND VIRTQ_DESC_F_WRITE \<noteq> 0 then (if request = [] then None else Some (request, d))
         else if MAX_REQUEST_BYTES < length request + unat (desc_len d) then None
         else if desc_flags d AND VIRTQ_DESC_F_NEXT = 0 \<or> q_size q \<le> desc_next d then None
         else gathered n q m (desc_next d) (request @ bytes_at m (desc_buf d) (unat (desc_len d))))"

abbreviation request_chain :: "virtio_queue \<Rightarrow> guest_memory \<Rightarrow> u16 \<Rightarrow> u16 list" where
  "request_chain q m h \<equiv> gpu_chain (unat (q_size q)) q m h"

abbreviation request_of :: "virtio_queue \<Rightarrow> guest_memory \<Rightarrow> u16 \<Rightarrow> (u8 list \<times> virtq_desc) option" where
  "request_of q m h \<equiv> gathered (unat (q_size q)) q m h []"

definition gpu_reads :: "virtio_queue \<Rightarrow> guest_memory \<Rightarrow> u16 \<Rightarrow> nat set" where
  "gpu_reads q m h = (\<Union>i \<in> set (request_chain q m h). desc_area q i \<union>
     (if desc_flags (desc_at q m i) AND VIRTQ_DESC_F_WRITE \<noteq> 0 then {}
      else span (desc_buf (desc_at q m i)) (unat (desc_len (desc_at q m i)))))"

definition gpu_writes :: "virtio_queue \<Rightarrow> guest_memory \<Rightarrow> u16 \<Rightarrow> nat set" where
  "gpu_writes q m h = (case request_of q m h of None \<Rightarrow> {} | Some (bytes, d) \<Rightarrow> span (desc_buf d) (unat (desc_len d)))"

text \<open>The two requests whose argument the device does not check: the rectangle of a scanout has to be one
  whose pixels can be allocated, and attached pages have to lie in guest memory, below \<open>ram\<close>.\<close>

definition rect_small :: "display_rect \<Rightarrow> bool" where
  "rect_small rc \<longleftrightarrow> 4 * unat (rect_width rc) * unat (rect_height rc) < 2 ^ 63"

definition entry_below :: "nat \<Rightarrow> gpu_mem_entry \<Rightarrow> bool" where
  "entry_below ram e \<longleftrightarrow> unat (ent_addr e) + unat (ent_length e) \<le> ram"

definition gpu_cmd_ok :: "nat \<Rightarrow> u8 list \<Rightarrow> bool" where
  "gpu_cmd_ok ram bytes \<longleftrightarrow>
     (case set_scanout_from_bytes bytes of None \<Rightarrow> True | Some req \<Rightarrow>
        hdr_typ (set_hdr req) = CMD_SET_SCANOUT \<longrightarrow> rect_small (set_rect req)) \<and>
     (case attach_from_bytes bytes of Some (Some (hdr, es)) \<Rightarrow>
        hdr_typ (attach_ctrl hdr) = CMD_RESOURCE_ATTACH_BACKING \<longrightarrow> list_all (entry_below ram) es | _ \<Rightarrow> True)"

definition gpu_req :: "nat \<Rightarrow> virtio_queue \<Rightarrow> guest_memory \<Rightarrow> u16 \<Rightarrow> bool" where
  "gpu_req ram q m h \<longleftrightarrow> wf_mem m \<and> cells_ok m 0 ram \<and>
     (\<forall>i \<in> set (request_chain q m h). desc_ok q m i \<and>
        unat (desc_buf (desc_at q m i)) + unat (desc_len (desc_at q m i)) \<le> ram) \<and>
     (case request_of q m h of None \<Rightarrow> True | Some (bytes, d) \<Rightarrow> gpu_cmd_ok ram bytes)"

definition gpu_ready :: "nat \<Rightarrow> virtio_gpu \<Rightarrow> bool" where
  "gpu_ready ram d \<longleftrightarrow> gpu_inv d \<and> (\<forall>s \<in> set (gpu_scanouts d). rect_small (scan_rect s)) \<and>
     (\<forall>r \<in> snd ` set (gpu_resources d). list_all (entry_below ram) (res_backing r))"

section \<open>Collecting a request\<close>

lemma gather_loop_spec:
  assumes "wf_mem m" "cells_ok m 0 ram"
    and "\<forall>i \<in> set (gpu_chain n q m h). desc_ok q m i \<and>
      unat (desc_buf (desc_at q m i)) + unat (desc_len (desc_at q m i)) \<le> ram"
    and "length request \<le> MAX_REQUEST_BYTES"
  shows "gather_loop n p q m h request = Some (gathered n q m h request)"
  using assms(3,4)
proof (induction n arbitrary: h request)
  case (Suc n)
  let ?d = "desc_at q m h"
  have ok: "desc_ok q m h" "unat (desc_buf ?d) + unat (desc_len ?d) \<le> ram" using Suc.prems(1) by (auto simp: Let_def)
  have "cells_ok m (desc_buf ?d) (unat (desc_len ?d))" by (rule cells_ok_within [OF assms(2) ok(2)])
  then have rd: "read_guest_memory_alloc p m (desc_buf ?d) (unat (desc_len ?d)) = Some (bytes_at m (desc_buf ?d) (unat (desc_len ?d)))"
    "length (bytes_at m (desc_buf ?d) (unat (desc_len ?d))) = unat (desc_len ?d)"
    using entry_read(2,3) [OF assms(1), of "desc_buf ?d" "unat (desc_len ?d)" 0 "unat (desc_len ?d)"]
    by (cases "unat (desc_len ?d) = 0"; simp add: read_guest_memory_alloc_def)+
  have sat: "MAX_REQUEST_BYTES < saturating_add_usize (length request) (unat (desc_len ?d)) \<longleftrightarrow>
      MAX_REQUEST_BYTES < length request + unat (desc_len ?d)"
    using Suc.prems(2) by (auto simp: saturating_add_usize_def MAX_REQUEST_BYTES_def)
  show ?case
  proof (cases "desc_flags ?d AND VIRTQ_DESC_F_WRITE \<noteq> 0 \<or> MAX_REQUEST_BYTES < length request + unat (desc_len ?d) \<or>
      desc_flags ?d AND VIRTQ_DESC_F_NEXT = 0 \<or> q_size q \<le> desc_next ?d")
    case True
    then show ?thesis by (auto simp: get_descriptor_spec [OF ok(1)] rd sat Let_def)
  next
    case False
    with Suc.prems(1) rd(2) have "gather_loop n p q m (desc_next ?d) (request @ bytes_at m (desc_buf ?d) (unat (desc_len ?d))) =
        Some (gathered n q m (desc_next ?d) (request @ bytes_at m (desc_buf ?d) (unat (desc_len ?d))))"
      by (intro Suc.IH) (auto simp: Let_def)
    with False show ?thesis by (simp add: get_descriptor_spec [OF ok(1)] rd(1) sat Let_def)
  qed
qed simp

text \<open>A request stays what it is under stores that avoid what it reads.\<close>

lemma gpu_reads_steps: "gpu_reads q m h = (\<Union>i \<in> set (request_chain q m h). step_reads q m i)"
  by (simp add: gpu_reads_def step_reads_def)

lemma chain_stable:
  assumes "cells_ok m 0 ram" "modifies S m m'" "same_setup q q'"
    and "\<forall>i \<in> set (gpu_chain n q m h). step_ok ram q m i \<and> S \<inter> step_reads q m i = {}"
  shows "gpu_chain n q' m' h = gpu_chain n q m h \<and> gathered n q' m' h request = gathered n q m h request"
  using assms(4)
proof (induction n arbitrary: h request)
  case (Suc n)
  have h: "step_ok ram q m h" "S \<inter> step_reads q m h = {}" using Suc.prems by (auto simp: Let_def)
  then have d: "desc_at q' m' h = desc_at q m h"
    using desc_keeps(2) [OF assms(3) _ assms(2), of h] by (auto simp: step_ok_def step_reads_def)
  have b: "bytes_at m' (desc_buf (desc_at q m h)) (unat (desc_len (desc_at q m h))) =
      bytes_at m (desc_buf (desc_at q m h)) (unat (desc_len (desc_at q m h)))"
    if "desc_flags (desc_at q m h) AND VIRTQ_DESC_F_WRITE = 0"
    by (rule bytes_within_stable [OF assms(1) _ assms(2)]) (use h that in \<open>auto simp: step_ok_def step_reads_def\<close>)
  have sz: "q_size q' = q_size q" using assms(3) by (simp add: same_setup_def)
  show ?case using Suc.IH [of "desc_next (desc_at q m h)"] Suc.prems b by (simp add: d sz Let_def)
qed simp

lemma gpu_req_stable:
  assumes "gpu_req ram q m h" "modifies S m m'" "S \<inter> gpu_reads q m h = {}" "same_setup q q'"
  shows "gpu_req ram q' m' h" "request_chain q' m' h = request_chain q m h" "request_of q' m' h = request_of q m h"
    "gpu_reads q' m' h = gpu_reads q m h" "gpu_writes q' m' h = gpu_writes q m h"
proof -
  have sz: "q_size q' = q_size q" using assms(4) by (simp add: same_setup_def)
  have c: "cells_ok m 0 ram" using assms(1) by (simp add: gpu_req_def)
  have st: "step_ok ram q m i" "S \<inter> step_reads q m i = {}" if "i \<in> set (request_chain q m h)" for i
    using assms(1,3) that by (auto simp: gpu_req_def step_ok_def gpu_reads_steps)
  then have stable: "request_chain q' m' h = request_chain q m h" "request_of q' m' h = request_of q m h"
    using chain_stable [OF c assms(2,4), of "unat (q_size q)" h] sz by simp_all
  have d: "desc_at q' m' i = desc_at q m i" "desc_ok q' m' i" if "i \<in> set (request_chain q m h)" for i
    using desc_keeps(2,3) [OF assms(4) _ assms(2), of i] st [OF that] by (auto simp: step_ok_def step_reads_def)
  show "gpu_reads q' m' h = gpu_reads q m h"
    unfolding gpu_reads_steps stable(1)
    by (intro SUP_cong refl) (simp add: step_reads_def desc_keeps(1) [OF assms(4)] d(1))
  show "gpu_writes q' m' h = gpu_writes q m h" by (simp only: gpu_writes_def stable(2))
  show "gpu_req ram q' m' h"
    using assms(1) stable d modifies_wf [OF assms(2)] cells_ok_modifies [OF assms(2)] by (auto simp: gpu_req_def)
  show "request_chain q' m' h = request_chain q m h" "request_of q' m' h = request_of q m h" by (fact stable)+
qed

section \<open>Serving a command\<close>

lemma gpu_readyD:
  assumes "gpu_ready ram d"
  shows "gpu_inv d" "s \<in> set (gpu_scanouts d) \<Longrightarrow> rect_small (scan_rect s)"
    "map_of (gpu_resources d) i = Some r \<Longrightarrow> list_all (entry_below ram) (res_backing r)"
  using assms by (auto simp: gpu_ready_def dest!: map_of_SomeD)

lemma entries_below_ok: "cells_ok m 0 ram \<Longrightarrow> list_all (entry_below ram) es \<Longrightarrow> entries_ok m es"
  by (auto simp: entries_ok_def list_all_iff entry_below_def intro: cells_ok_within)

lemma rect_small_empty [simp]: "rect_small empty_rect"
  by (simp add: rect_small_def empty_rect_def)

lemma flush_total:
  assumes "res_ok r" "\<forall>s \<in> set ss. rect_small (scan_rect s)"
  shows "\<exists>win'. flush_scanouts host p rid r ss win = Some win'"
  using assms(2)
proof (induction ss arbitrary: win)
  case (Cons s ss)
  have "length (res_data r) \<le> MAX_RESOURCE_BYTES" "res_stride r \<le> 2 ^ 16"
    using assms(1) dimension_small [OF assms(1)] by (auto simp: res_ok_def)
  then have "\<exists>w. blit host p win (res_data r) (res_stride r) (scan_rect s) = Some w"
    using Cons.prems by (intro blit_total) (auto simp: MAX_RESOURCE_BYTES_def rect_small_def)
  then show ?case using Cons by auto
qed simp

lemma gpu_ready_update:
  assumes "gpu_ready ram d" "map_of (gpu_resources d) i = Some r" "res_ok r'" "list_all (entry_below ram) (res_backing r')"
  shows "gpu_ready ram (d\<lparr>gpu_resources := AList.update i r' (gpu_resources d)\<rparr>)"
  using assms gpu_inv_update [OF gpu_readyD(1) [OF assms(1)] assms(2,3)] set_update_subset [of i r' "gpu_resources d"]
  by (auto simp: gpu_ready_def)

lemma ready_create: "gpu_ready ram d \<Longrightarrow> gpu_ready ram (fst (cmd_create_2d d bytes))"
proof -
  assume a: "gpu_ready ram d"
  have "res_backing r = []" if "new_resource f w h = Some r" for f w h r
    using that by (auto simp: new_resource_def split: if_splits elim!: bind_SomeE)
  then show ?thesis
    using a cmd_create_inv [OF gpu_readyD(1) [OF a], of bytes "fst (cmd_create_2d d bytes)" "snd (cmd_create_2d d bytes)"]
    by (auto simp: gpu_ready_def cmd_create_2d_def map_of_eq_None_iff update_new split: option.splits if_splits)
qed

lemma ready_unref: "gpu_ready ram d \<Longrightarrow> gpu_ready ram (fst (cmd_unref d bytes))"
  using cmd_unref_inv [OF gpu_readyD(1), of ram d bytes "fst (cmd_unref d bytes)" "snd (cmd_unref d bytes)"]
  by (auto simp: gpu_ready_def cmd_unref_def AList.delete_eq empty_scanout_def split: option.splits)

lemma ready_detach: "gpu_ready ram d \<Longrightarrow> gpu_ready ram (fst (cmd_detach d bytes))"
  using gpu_ready_update gpu_invD(1) [OF gpu_readyD(1)]
  by (fastforce simp: cmd_detach_def split: option.splits)

lemma ready_set_scanout:
  assumes "gpu_ready ram d" "\<And>req. set_scanout_from_bytes bytes = Some req \<Longrightarrow> rect_small (set_rect req)"
  shows "\<exists>d' resp. cmd_set_scanout d bytes = Some (d', resp) \<and> gpu_ready ram d'"
proof -
  have len: "length (gpu_scanouts d) = 16" using gpu_invD(2) [OF gpu_readyD(1) [OF assms(1)]] .
  then have "cmd_set_scanout d bytes \<noteq> None"
    by (simp add: cmd_set_scanout_def set_at_def MAX_SCANOUTS_def not_le split: option.splits)
  then obtain d' resp where c: "cmd_set_scanout d bytes = Some (d', resp)" by auto
  have "\<forall>s \<in> set (gpu_scanouts d'). rect_small (scan_rect s)" "gpu_resources d' = gpu_resources d"
    using c assms
    by (auto simp: cmd_set_scanout_def set_at_def gpu_ready_def empty_scanout_def split: option.splits if_splits
        elim!: bind_SomeE dest!: set_update_subset_insert [THEN subsetD])
  then show ?thesis
    using c cmd_set_scanout_inv [OF gpu_readyD(1) [OF assms(1)] c] assms(1) by (auto simp: gpu_ready_def)
qed

lemma ready_flush:
  assumes "gpu_ready ram d"
  shows "\<exists>d' resp. cmd_flush host p d bytes = Some (d', resp) \<and> gpu_ready ram d'"
proof (cases "\<exists>req r. flush_from_bytes bytes = Some req \<and> map_of (gpu_resources d) (flush_resource_id req) = Some r")
  case True
  then obtain req r where r: "flush_from_bytes bytes = Some req" "map_of (gpu_resources d) (flush_resource_id req) = Some r"
    by blast
  have "res_ok r" using gpu_invD(1) [OF gpu_readyD(1) [OF assms] r(2)] .
  then obtain win' where "flush_scanouts host p (flush_resource_id req) r (gpu_scanouts d) (gpu_window d) = Some win'"
    using flush_total gpu_readyD(2) [OF assms] by blast
  with r assms show ?thesis by (auto simp: cmd_flush_def gpu_ready_def gpu_inv_def)
qed (use assms in \<open>auto simp: cmd_flush_def split: option.splits\<close>)

lemma ready_transfer:
  assumes "gpu_ready ram d" "wf_mem m" "cells_ok m 0 ram"
  shows "\<exists>d' resp. cmd_transfer p m d bytes = Some (d', resp) \<and> gpu_ready ram d'"
proof (cases "\<exists>req r. transfer_from_bytes bytes = Some req \<and> map_of (gpu_resources d) (tr_resource_id req) = Some r")
  case True
  then obtain req r where r: "transfer_from_bytes bytes = Some req" "map_of (gpu_resources d) (tr_resource_id req) = Some r"
    by blast
  have ok: "res_ok r" "list_all (entry_below ram) (res_backing r)"
    using gpu_invD(1) [OF gpu_readyD(1) [OF assms(1)] r(2)] gpu_readyD(3) [OF assms(1) r(2)] by simp_all
  consider "transfer_to_host p m r (tr_rect req) (tr_offset req) = Some None"
    | data where "transfer_to_host p m r (tr_rect req) (tr_offset req) = Some (Some (r\<lparr>res_data := data\<rparr>))"
        "length data = length (res_data r)"
    by (rule transfer_to_host_total [OF ok(1) assms(2) entries_below_ok [OF assms(3) ok(2)]])
  then show ?thesis
    using r assms(1) ok by cases (auto simp: cmd_transfer_def intro: gpu_ready_update res_ok_data)
qed (use assms in \<open>auto simp: cmd_transfer_def split: option.splits\<close>)

lemma ready_attach:
  assumes "gpu_ready ram d" "\<And>hdr es. attach_from_bytes bytes = Some (Some (hdr, es)) \<Longrightarrow> list_all (entry_below ram) es"
  shows "\<exists>d' resp. cmd_attach d bytes = Some (d', resp) \<and> gpu_ready ram d'"
proof -
  obtain parsed where p: "attach_from_bytes bytes = Some parsed" using attach_total by blast
  show ?thesis
  proof (cases "\<exists>hdr es r. parsed = Some (hdr, es) \<and> map_of (gpu_resources d) (attach_id hdr) = Some r")
    case True
    then obtain hdr es r where r: "parsed = Some (hdr, es)" "map_of (gpu_resources d) (attach_id hdr) = Some r" by blast
    have "res_ok r" using gpu_invD(1) [OF gpu_readyD(1) [OF assms(1)] r(2)] .
    then show ?thesis
      using p r assms(2) gpu_ready_update [OF assms(1) r(2), of "r\<lparr>res_backing := es\<rparr>"] by (simp add: cmd_attach_def)
  qed (use p assms(1) in \<open>auto simp: cmd_attach_def split: option.splits\<close>)
qed

lemma gpu_command_total:
  assumes "gpu_ready ram d" "wf_mem m" "cells_ok m 0 ram" "gpu_cmd_ok ram bytes" "ctrl_hdr_from_bytes bytes = Some hdr"
  shows "\<exists>d' resp. gpu_command host p m d (hdr_typ hdr) bytes = Some (d', resp) \<and> gpu_ready ram d'"
proof -
  have hdr: "hdr = ctrl_hdr_at bytes" using assms(5) by (simp add: ctrl_hdr_from_bytes_def split: if_splits)
  have set: "rect_small (set_rect req)" if "hdr_typ hdr = CMD_SET_SCANOUT" "set_scanout_from_bytes bytes = Some req" for req
    using assms(4) that hdr by (auto simp: gpu_cmd_ok_def set_scanout_from_bytes_def split: if_splits)
  have att: "list_all (entry_below ram) es"
    if "hdr_typ hdr = CMD_RESOURCE_ATTACH_BACKING" "attach_from_bytes bytes = Some (Some (h, es))" for h es
  proof -
    have "attach_ctrl h = ctrl_hdr_at bytes"
      using that(2) by (auto simp: attach_from_bytes_def attach_hdr_from_bytes_def Let_def split: option.splits if_splits elim!: bind_SomeE)
    with assms(4) that hdr show ?thesis by (simp add: gpu_cmd_ok_def)
  qed
  define T where "T x \<longleftrightarrow> (\<exists>d' resp. x = Some (d', resp) \<and> gpu_ready ram d')" for x :: "(virtio_gpu \<times> gpu_response) option"
  have pure: "T (Some x)" if "gpu_ready ram (fst x)" for x using that unfolding T_def by (cases x) auto
  have "T (Some (d, r))" "T (Some (cmd_create_2d d bytes))" "T (Some (cmd_unref d bytes))" "T (Some (cmd_detach d bytes))"
    "T (cmd_flush host p d bytes)" "T (cmd_transfer p m d bytes)" for r
    using assms(1) ready_flush [OF assms(1)] ready_transfer [OF assms(1-3)]
    by (simp_all add: pure ready_create ready_unref ready_detach) (simp_all add: T_def)
  moreover have "T (cmd_set_scanout d bytes)" if "hdr_typ hdr = CMD_SET_SCANOUT"
    using ready_set_scanout [OF assms(1), of bytes] set [OF that] by (auto simp: T_def)
  moreover have "T (cmd_attach d bytes)" if "hdr_typ hdr = CMD_RESOURCE_ATTACH_BACKING"
    using ready_attach [OF assms(1), of bytes] att [OF that] by (auto simp: T_def)
  ultimately have "T (gpu_command host p m d (hdr_typ hdr) bytes)" by (simp add: gpu_command_def)
  then show ?thesis by (simp add: T_def)
qed

section \<open>Answers\<close>

definition gpu_codes :: "u32 \<Rightarrow> u32 set" where
  "gpu_codes typ =
     (if typ = CMD_GET_DISPLAY_INFO then {RESP_OK_DISPLAY_INFO}
      else if typ = CMD_RESOURCE_UNREF then {RESP_OK_NODATA, RESP_ERR_INVALID_ARGUMENT}
      else if typ \<in> {CMD_RESOURCE_CREATE_2D, CMD_SET_SCANOUT, CMD_RESOURCE_FLUSH, CMD_TRANSFER_TO_HOST_2D,
        CMD_RESOURCE_ATTACH_BACKING, CMD_RESOURCE_DETACH_BACKING} then
        {RESP_OK_NODATA, RESP_ERR_INVALID_ARGUMENT, RESP_ERR_INVALID_RESOURCE_ID}
      else if typ = CMD_GET_EDID \<or> typ = CMD_CURSOR_GET then {RESP_OK_NODATA}
      else {RESP_ERR_UNSUPPORTED})"

definition response_size :: "u32 \<Rightarrow> nat" where
  "response_size typ = (if typ = CMD_GET_DISPLAY_INFO then 408 else 24)"

definition response_bytes :: "gpu_response \<Rightarrow> u8 list" where
  "response_bytes resp = (case resp of Raw buf \<Rightarrow> buf | Header typ \<Rightarrow> ctrl_hdr_to_bytes (new_ctrl_hdr typ))"

text \<open>The answer to a request: its response descriptor starts with a code that the command can have.\<close>

definition gpu_answered :: "virtio_queue \<Rightarrow> guest_memory \<Rightarrow> u16 \<Rightarrow> guest_memory \<Rightarrow> bool" where
  "gpu_answered q m h m' \<longleftrightarrow>
     (case request_of q m h of None \<Rightarrow> True | Some (bytes, desc) \<Rightarrow>
        case ctrl_hdr_from_bytes bytes of None \<Rightarrow> True | Some hdr \<Rightarrow>
          response_size (hdr_typ hdr) \<le> unat (desc_len desc) \<longrightarrow>
          from_le (take 4 (bytes_at m' (desc_buf desc) (response_size (hdr_typ hdr)))) \<in> gpu_codes (hdr_typ hdr))"

definition resp_for :: "u32 \<Rightarrow> gpu_response \<Rightarrow> bool" where
  "resp_for typ resp \<longleftrightarrow> length (response_bytes resp) = response_size typ \<and> from_le (take 4 (response_bytes resp)) \<in> gpu_codes typ"

lemma resp_for_Header:
  "typ \<noteq> CMD_GET_DISPLAY_INFO \<Longrightarrow> c \<in> gpu_codes typ \<Longrightarrow> resp_for typ (Header c)"
  by (simp add: resp_for_def response_bytes_def response_size_def ctrl_hdr_to_bytes_def new_ctrl_hdr_def)

lemma resp_for_display: "resp_for CMD_GET_DISPLAY_INFO (cmd_display_info d)"
proof -
  have "take 4 (response_bytes (cmd_display_info d)) = le32 RESP_OK_DISPLAY_INFO"
    by (simp add: response_bytes_def cmd_display_info_def display_response_to_bytes_def new_display_response_def
        ctrl_hdr_to_bytes_def new_ctrl_hdr_def Let_def)
  moreover have "length (response_bytes (cmd_display_info d)) = 408"
    by (simp add: response_bytes_def cmd_display_info_def length_display_response)
  ultimately show ?thesis by (simp add: resp_for_def response_size_def gpu_codes_def)
qed

lemma gpu_command_resp:
  assumes "gpu_command host p m d typ bytes = Some (d', resp)"
  shows "resp_for typ resp"
proof (cases "typ = CMD_GET_DISPLAY_INFO")
  case True
  with assms show ?thesis by (auto simp: gpu_command_def intro: resp_for_display)
next
  case False
  have "\<exists>c \<in> gpu_codes typ. resp = Header c"
    using assms False
    by (auto simp: gpu_command_def gpu_codes_def gpu_cmd_defs cmd_create_2d_def cmd_unref_def cmd_set_scanout_def cmd_flush_def
        cmd_transfer_def cmd_attach_def cmd_detach_def split: if_splits option.splits elim!: bind_SomeE)
  with False show ?thesis by (auto intro: resp_for_Header)
qed

lemma gathered_desc:
  "gathered n q m h request = Some (bytes, desc) \<Longrightarrow>
    \<exists>i \<in> set (gpu_chain n q m h). desc = desc_at q m i \<and> desc_flags desc AND VIRTQ_DESC_F_WRITE \<noteq> 0"
proof (induction n arbitrary: h request)
  case (Suc n)
  then show ?case by (auto simp: Let_def split: if_splits)
qed simp

lemma gpu_respond_eq:
  assumes "desc_flags desc AND VIRTQ_DESC_F_WRITE \<noteq> 0"
  shows "gpu_respond p m desc resp =
    (if unat (desc_len desc) < length (response_bytes resp) then Some (0, m)
     else do { m \<leftarrow> write_guest_memory p m (desc_buf desc) (response_bytes resp); Some (length (response_bytes resp), m) })"
  using assms by (cases resp) (simp_all add: gpu_respond_def write_response_def response_bytes_def Let_def)

lemma gpu_respond_total:
  assumes "desc_flags desc AND VIRTQ_DESC_F_WRITE \<noteq> 0" "wf_mem m" "cells_ok m (desc_buf desc) (unat (desc_len desc))"
    and "resp_for typ resp"
  obtains n m' where "gpu_respond p m desc resp = Some (n, m')" "modifies (span (desc_buf desc) (unat (desc_len desc))) m m'"
    "response_size typ \<le> unat (desc_len desc) \<Longrightarrow> from_le (take 4 (bytes_at m' (desc_buf desc) (response_size typ))) \<in> gpu_codes typ"
proof (cases "unat (desc_len desc) < length (response_bytes resp)")
  case True
  with assms show thesis by (intro that [of 0 m]) (auto simp: gpu_respond_eq resp_for_def)
next
  case False
  let ?b = "response_bytes resp" and ?a = "desc_buf desc"
  have pos: "0 < length ?b" using assms(4) by (auto simp: resp_for_def response_size_def split: if_splits)
  with False have fit: "0 + length ?b \<le> unat (desc_len desc)" by simp
  obtain m' where m': "write_mapped p ?a ?b m = Some m'" "modifies (span ?a (length ?b)) m m'" "bytes_at m' ?a (length ?b) = ?b"
    using write_mapped_ok [OF assms(2), of ?a ?b p] cells_okD(3) [OF assms(3) fit pos] by auto
  show thesis
  proof (rule that [of "length ?b" m'])
    show "gpu_respond p m desc resp = Some (length ?b, m')"
      using False m'(1) by (simp add: gpu_respond_eq [OF assms(1)] write_guest_memory_def)
    show "modifies (span ?a (unat (desc_len desc))) m m'"
      by (rule modifies_mono [OF m'(2)]) (use False in \<open>auto simp: span_def\<close>)
    show "from_le (take 4 (bytes_at m' ?a (response_size typ))) \<in> gpu_codes typ"
      using assms(4) m'(3) by (simp add: resp_for_def)
  qed
qed

lemma gpu_serves:
  assumes "gpu_ready ram d" "gpu_req ram q m h" "used_ok q m" "q_size q \<noteq> 0"
  obtains d' q' m' m1 where "gpu_control_body host p h (d, q, m, w) = Some (d', q', m', True)" "gpu_ready ram d'"
    "modifies (gpu_writes q m h) m m1" "modifies (used_area q) m1 m'"
    "q' = q\<lparr>last_used_idx := last_used_idx q + 1\<rparr>" "gpu_answered q m h m1"
proof -
  have wf: "wf_mem m" "cells_ok m 0 ram" using assms(2) by (simp_all add: gpu_req_def)
  have g: "gather_control_request p q m h = Some (request_of q m h)"
    unfolding gather_control_request_def
    by (rule gather_loop_spec [OF wf]) (use assms(2) in \<open>auto simp: gpu_req_def MAX_REQUEST_BYTES_def\<close>)
  show thesis
  proof (cases "\<exists>bytes desc hdr. request_of q m h = Some (bytes, desc) \<and> ctrl_hdr_from_bytes bytes = Some hdr")
    case True
    then obtain bytes desc hdr where r: "request_of q m h = Some (bytes, desc)" "ctrl_hdr_from_bytes bytes = Some hdr" by blast
    have "gpu_cmd_ok ram bytes" using assms(2) r(1) by (simp add: gpu_req_def)
    then obtain d' resp where c: "gpu_command host p m d (hdr_typ hdr) bytes = Some (d', resp)" "gpu_ready ram d'"
      using gpu_command_total [OF assms(1) wf _ r(2), of host p] by blast
    obtain i where i: "i \<in> set (request_chain q m h)" "desc = desc_at q m i" "desc_flags desc AND VIRTQ_DESC_F_WRITE \<noteq> 0"
      using gathered_desc [OF r(1)] by blast
    have "cells_ok m (desc_buf desc) (unat (desc_len desc))"
      by (rule cells_ok_within [OF wf(2)]) (use assms(2) i in \<open>auto simp: gpu_req_def\<close>)
    then obtain n m1 where m1: "gpu_respond p m desc resp = Some (n, m1)" "modifies (gpu_writes q m h) m m1"
        "response_size (hdr_typ hdr) \<le> unat (desc_len desc) \<Longrightarrow>
          from_le (take 4 (bytes_at m1 (desc_buf desc) (response_size (hdr_typ hdr)))) \<in> gpu_codes (hdr_typ hdr)"
      using gpu_respond_total [OF i(3) wf(1) _ gpu_command_resp [OF c(1)], of p] r(1) by (auto simp: gpu_writes_def)
    obtain m' where "push_used p q m1 h (of_nat n) = Some (q\<lparr>last_used_idx := last_used_idx q + 1\<rparr>, m')"
        "modifies (used_area q) m1 m'"
      by (rule push_used_after [OF assms(3,4) m1(2)])
    with r c m1 g show thesis
      by (intro that [of d' "q\<lparr>last_used_idx := last_used_idx q + 1\<rparr>" m' m1]) (auto simp: gpu_control_body_def gpu_answered_def)
  next
    case False
    have self: "modifies (gpu_writes q m h) m m" using wf(1) by simp
    obtain m' where "push_used p q m h 0 = Some (q\<lparr>last_used_idx := last_used_idx q + 1\<rparr>, m')" "modifies (used_area q) m m'"
      by (rule push_used_after [OF assms(3,4) self])
    with False g assms(1) self show thesis
      by (intro that [of d "q\<lparr>last_used_idx := last_used_idx q + 1\<rparr>" m' m])
        (auto simp: gpu_control_body_def gpu_answered_def split: option.splits)
  qed
qed

lemma gpu_answered_frame:
  assumes "gpu_req ram q m h" "gpu_answered q m h m1" "modifies S m m1" "modifies T m1 m2" "T \<inter> gpu_writes q m h = {}"
  shows "gpu_answered q m h m2"
proof (cases "request_of q m h")
  case (Some r)
  obtain bytes desc where r: "r = (bytes, desc)" by (cases r)
  obtain i where "i \<in> set (request_chain q m h)" "desc = desc_at q m i" using gathered_desc [of _ q m h "[]" bytes desc] Some r by blast
  then have fit: "unat (desc_buf desc) + unat (desc_len desc) \<le> ram" and c: "cells_ok m1 0 ram"
    using assms(1) cells_ok_modifies [OF assms(3)] by (auto simp: gpu_req_def)
  have "bytes_at m2 (desc_buf desc) n = bytes_at m1 (desc_buf desc) n" if "n \<le> unat (desc_len desc)" for n
    by (rule bytes_within_stable [OF c _ assms(4)]) (use that fit assms(5) Some r in \<open>auto simp: gpu_writes_def span_def\<close>)
  with assms(2) Some r show ?thesis by (auto simp: gpu_answered_def split: option.splits)
qed (simp add: gpu_answered_def)

interpretation gpu_control: footprint_service p "gpu_control_body host p" "\<lambda>_. gpu_ready ram" "gpu_req ram" gpu_reads gpu_writes
    gpu_answered
  for host p ram
proof (unfold_locales, goal_cases)
  case (1 q m h S m' q')
  then show ?case using gpu_req_stable [of ram q m h S m' q'] by simp
next
  case (2 k d q m h w)
  obtain d' q' m' m1 where b: "gpu_control_body host p h (d, q, m, w) = Some (d', q', m', True)" "gpu_ready ram d'"
      "modifies (gpu_writes q m h) m m1" "modifies (used_area q) m1 m'" "q' = q\<lparr>last_used_idx := last_used_idx q + 1\<rparr>"
    by (rule gpu_serves [OF 2(1-4)])
  have "modifies (used_area q \<union> gpu_writes q m h) m m'"
    using modifies_trans [OF b(3,4)] by (simp add: Un_commute)
  with b show ?case by (auto simp: same_setup_def)
next
  case (3 k d q m h w d' q' m' w')
  obtain d2 q2 m2 m1 where b: "gpu_control_body host p h (d, q, m, w) = Some (d2, q2, m2, True)"
      "modifies (gpu_writes q m h) m m1" "modifies (used_area q) m1 m2" "gpu_answered q m h m1"
    by (rule gpu_serves [OF 3(1-4)])
  have "m2 = m'" using b(1) 3(6) by simp
  then show ?case using gpu_answered_frame [OF 3(2) b(4,2,3)] 3(5) by simp
next
  case (4 q m h m1 S T m2)
  then show ?case using gpu_answered_frame by blast
next
  case (5 q m h S m' q' m2)
  then show ?case using gpu_req_stable(3) [OF 5(1-4)] by (simp add: gpu_answered_def)
qed

section \<open>A request in memory\<close>

text \<open>A 128-byte memory: a two-descriptor table at 0, the rings at 32 and 40, a request for the monitor data
  at 64 and room for its answer at 96.\<close>

definition gpu_demo_block :: "u8 list" where
  "gpu_demo_block =
     le64 64 @ le32 24 @ le16 1 @ le16 1 @ le64 96 @ le32 24 @ le16 2 @ le16 0 @
     le16 0 @ le16 1 @ le16 0 @ le16 0 @ replicate 24 0 @
     ctrl_hdr_to_bytes (new_ctrl_hdr CMD_GET_EDID) @ replicate 8 0 @ replicate 32 0"

definition gpu_demo_mem :: guest_memory where
  "gpu_demo_mem = [new_region (Some gpu_demo_block) 128 0]"

definition gpu_demo_queue :: virtio_queue where
  "gpu_demo_queue = \<lparr>q_size = 2, q_ready = True, desc_addr = 0, avail_addr = 32, used_addr = 40,
     last_avail_idx = 0, last_used_idx = 0\<rparr>"

lemma gpu_demo_wf: "wf_mem gpu_demo_mem"
  by (simp add: gpu_demo_mem_def new_region_def wf_region_def gpu_demo_block_def)

lemma gpu_demo_cells: "unat a + n \<le> 128 \<Longrightarrow> cells_ok gpu_demo_mem a n"
  unfolding gpu_demo_mem_def by (rule cells_ok_single) (simp_all add: new_region_def)

lemma gpu_demo_ok:
  "avail_ok gpu_demo_queue gpu_demo_mem" "used_ok gpu_demo_queue gpu_demo_mem" "q_size gpu_demo_queue \<noteq> 0"
  "desc_ok gpu_demo_queue gpu_demo_mem 0" "desc_ok gpu_demo_queue gpu_demo_mem 1"
  by (simp_all add: avail_ok_def used_ok_def desc_ok_def gpu_demo_wf gpu_demo_cells gpu_demo_queue_def avail_bytes_def
      used_bytes_def desc_base_def)

lemma gpu_demo_values:
  "pending gpu_demo_queue gpu_demo_mem = [0]"
  "desc_at gpu_demo_queue gpu_demo_mem 0 = \<lparr>desc_buf = 64, desc_len = 24, desc_flags = 1, desc_next = 1\<rparr>"
  "desc_at gpu_demo_queue gpu_demo_mem 1 = \<lparr>desc_buf = 96, desc_len = 24, desc_flags = 2, desc_next = 0\<rparr>"
  "request_chain gpu_demo_queue gpu_demo_mem 0 = [0, 1]"
  by code_simp+

lemma gpu_demo_request:
  "request_of gpu_demo_queue gpu_demo_mem 0 =
     Some (ctrl_hdr_to_bytes (new_ctrl_hdr CMD_GET_EDID), \<lparr>desc_buf = 96, desc_len = 24, desc_flags = 2, desc_next = 0\<rparr>)"
proof -
  have b: "bytes_at gpu_demo_mem 64 24 = ctrl_hdr_to_bytes (new_ctrl_hdr CMD_GET_EDID)" by code_simp
  have "unat (q_size gpu_demo_queue) = Suc (Suc 0)" by (simp add: gpu_demo_queue_def)
  moreover have "\<not> q_size gpu_demo_queue \<le> 1" by (simp add: gpu_demo_queue_def word_le_nat_alt)
  moreover have "ctrl_hdr_to_bytes hdr \<noteq> []" for hdr using length_ctrl_hdr [of hdr] by force
  ultimately show ?thesis
    by (simp add: gpu_demo_values b Let_def VIRTQ_DESC_F_WRITE_def VIRTQ_DESC_F_NEXT_def MAX_REQUEST_BYTES_def)
qed

lemma gpu_demo_areas:
  "avail_area gpu_demo_queue = {32..<40}" "used_area gpu_demo_queue = {40..<60}"
  "gpu_reads gpu_demo_queue gpu_demo_mem 0 = {0..<32} \<union> {64..<88}"
  "gpu_writes gpu_demo_queue gpu_demo_mem 0 = {96..<120}"
proof -
  show "avail_area gpu_demo_queue = {32..<40}" "used_area gpu_demo_queue = {40..<60}"
    by (simp_all add: avail_area_def used_area_def span_def avail_bytes_def used_bytes_def gpu_demo_queue_def)
  show "gpu_writes gpu_demo_queue gpu_demo_mem 0 = {96..<120}"
    by (simp add: gpu_writes_def gpu_demo_request span_def)
  have "desc_area gpu_demo_queue 0 = {0..<16}" "desc_area gpu_demo_queue 1 = {16..<32}"
    by (simp_all add: desc_area_def desc_base_def span_def gpu_demo_queue_def)
  then show "gpu_reads gpu_demo_queue gpu_demo_mem 0 = {0..<32} \<union> {64..<88}"
    by (auto simp: gpu_reads_def gpu_demo_values span_def VIRTQ_DESC_F_WRITE_def)
qed

lemma gpu_demo_driver:
  "driver_ok (gpu_req 128) gpu_reads gpu_writes gpu_demo_queue gpu_demo_mem"
  "answers_apart gpu_writes gpu_demo_queue gpu_demo_mem (pending gpu_demo_queue gpu_demo_mem)"
  "gpu_ready 128 frame_gpu"
proof -
  have "gpu_cmd_ok 128 (ctrl_hdr_to_bytes (new_ctrl_hdr CMD_GET_EDID))"
    by (simp add: gpu_cmd_ok_def set_scanout_from_bytes_def attach_from_bytes_def attach_hdr_from_bytes_def)
  then have "gpu_req 128 gpu_demo_queue gpu_demo_mem 0"
    by (simp add: gpu_req_def gpu_demo_wf gpu_demo_cells gpu_demo_values gpu_demo_ok gpu_demo_request)
  then show "driver_ok (gpu_req 128) gpu_reads gpu_writes gpu_demo_queue gpu_demo_mem"
    by (auto simp: driver_ok_def gpu_demo_ok gpu_demo_values footprints_ok_def gpu_demo_areas)
  show "answers_apart gpu_writes gpu_demo_queue gpu_demo_mem (pending gpu_demo_queue gpu_demo_mem)"
    by (auto simp: answers_apart_def gpu_demo_values gpu_demo_areas)
  show "gpu_ready 128 frame_gpu"
    using frame_ok(3)
    by (auto simp: gpu_ready_def frame_gpu_def frame_resource_def entry_below_def empty_scanout_def rect_small_def
        frame_rect_def new_rect_def empty_rect_def)
qed

section \<open>Properties\<close>

text \<open>C17: A tick of the control queue answers every pending request exactly once: it returns, empties the
  queue, leaves in each response buffer that is large enough one of the codes its command can have,
  keeps the device ready for more, and touches no guest memory but the used ring and the response
  buffers. The driver has to keep to the contract of the queue, attach pages that are guest memory and
  set scanouts whose pixels can be allocated.\<close>

theorem gpu_tick_answers_all:
  assumes "gpu_ready ram d" "gpu_guest_memory d" "driver_ok (gpu_req ram) gpu_reads gpu_writes q m"
    and "answers_apart gpu_writes q m (pending q m)"
  shows "\<exists>d' q' m' w. gpu_tick host p d 0 q m = Some (d', q', m', w) \<and> pending q' m' = [] \<and>
    last_used_idx q' = last_used_idx q + of_nat (length (pending q m)) \<and>
    (\<forall>h \<in> set (pending q m). gpu_answered q m h m') \<and> gpu_ready ram d' \<and>
    modifies (used_area q \<union> (\<Union>h \<in> set (pending q m). gpu_writes q m h)) m m'"
proof -
  obtain d' q' m' w where r: "while_pop (2 ^ 16) p (gpu_control_body host p) (d, q, m, False) = Some (d', q', m', w)"
      "pending q' m' = []" "last_used_idx q' = last_used_idx q + of_nat (length (pending q m))" "gpu_ready ram d'"
    using gpu_control.while_pop_enough_fuel [where ram = ram and host = host and d = d and q = q and m = m and p = p and w = False]
      assms(1,3) by auto
  show ?thesis
    using r assms(2) gpu_control.while_pop_answers [OF assms(1,3) pending_count_less assms(4) r(1)]
      gpu_control.while_pop_confined [OF assms(1,3) pending_count_less r(1)]
    by (simp add: gpu_tick_def)
qed

theorem gpu_tick_answers_all_witness:
  "\<exists>d' q' m' w. gpu_tick good_sdl Dev frame_gpu 0 gpu_demo_queue gpu_demo_mem = Some (d', q', m', w) \<and>
     pending q' m' = [] \<and> from_le (take 4 (bytes_at m' 96 24)) = RESP_OK_NODATA"
proof -
  have hdr: "ctrl_hdr_from_bytes (ctrl_hdr_to_bytes (new_ctrl_hdr CMD_GET_EDID)) = Some (new_ctrl_hdr CMD_GET_EDID)"
    using ctrl_hdr_roundtrip [of "new_ctrl_hdr CMD_GET_EDID" "[]"] by simp
  have ans: "gpu_answered gpu_demo_queue gpu_demo_mem 0 m' \<longleftrightarrow> from_le (take 4 (bytes_at m' 96 24)) = RESP_OK_NODATA" for m'
    by (simp add: gpu_answered_def gpu_demo_request hdr) (simp add: new_ctrl_hdr_def response_size_def gpu_codes_def gpu_cmd_defs)
  have "gpu_guest_memory frame_gpu" by (simp add: frame_gpu_def)
  from gpu_tick_answers_all [OF gpu_demo_driver(3) this gpu_demo_driver(1,2), of good_sdl Dev] show ?thesis
    by (auto simp: gpu_demo_values ans)
qed

end
