(* ===== verification/Fs_Walks.thy ===== *)
theory Fs_Walks
  imports Virtio_Fs
begin

text \<open>
  The two walks of the file system device along a descriptor chain: when they end, what they read and what
  they leave in the writable descriptors.
\<close>

section \<open>Walking a chain\<close>

text \<open>The descriptors that are read from \<open>i\<close> on, when the walk ends within \<open>n\<close> steps.\<close>

fun readable_run :: "nat \<Rightarrow> virtio_queue \<Rightarrow> guest_memory \<Rightarrow> u16 \<Rightarrow> u16 list option" where
  "readable_run 0 q m i = None"
| "readable_run (Suc n) q m i =
     (let d = desc_at q m i
      in if desc_flags d AND 2 \<noteq> 0 then Some []
         else if desc_flags d AND 1 = 0 then Some [i]
         else map_option (Cons i) (readable_run n q m (desc_next d)))"

definition buffer_of :: "virtio_queue \<Rightarrow> guest_memory \<Rightarrow> u16 \<Rightarrow> u8 list" where
  "buffer_of q m i = bytes_at m (desc_buf (desc_at q m i)) (unat (desc_len (desc_at q m i)))"

lemma read_within:
  assumes "wf_mem m" "cells_ok m 0 ram" "unat a + n \<le> ram"
  shows "read_guest_memory p m a (replicate n 0) = Some (bytes_at m a n)"
proof (cases "n = 0")
  case False
  then have "backed m (a + of_nat 0) n" by (intro cells_okD(3) [OF cells_ok_within [OF assms(2,3)]]) simp_all
  then show ?thesis using read_buffer [OF assms(1), of a n p] by simp
qed (simp add: read_guest_memory_def read_guest_memory_alloc_def)

lemma collect_step:
  assumes "wf_mem m" "cells_ok m 0 ram" "step_ok ram q m i"
  shows "collect_loop p q m (desc_at q m i) acc =
    (let d = desc_at q m i
     in if desc_flags d AND 2 \<noteq> 0 then Some acc
        else if desc_flags d AND 1 = 0 then Some (acc @ buffer_of q m i)
        else do { d \<leftarrow> get_descriptor p q m (desc_next d); collect_loop p q m d (acc @ buffer_of q m i) })"
  using read_within [OF assms(1,2), of "desc_buf (desc_at q m i)" "unat (desc_len (desc_at q m i))" p] assms(3)
  by (subst collect_loop.simps) (simp add: step_ok_def buffer_of_def Let_def)

text \<open>Descriptors that are safe to visit and whose links stay among them.\<close>

definition walk_ok :: "nat \<Rightarrow> virtio_queue \<Rightarrow> guest_memory \<Rightarrow> (u16 \<Rightarrow> bool) \<Rightarrow> bool" where
  "walk_ok ram q m I \<longleftrightarrow> wf_mem m \<and> cells_ok m 0 ram \<and>
     (\<forall>i. I i \<longrightarrow> step_ok ram q m i \<and> (desc_flags (desc_at q m i) AND 1 \<noteq> 0 \<longrightarrow> I (desc_next (desc_at q m i))))"

lemma collect_loop_run:
  assumes "walk_ok ram q m I" "I i" "readable_run n q m i = Some run"
  shows "collect_loop p q m (desc_at q m i) acc = Some (acc @ concat (map (buffer_of q m) run))"
  using assms(2,3)
proof (induction n arbitrary: i acc run)
  case (Suc n)
  have ok: "wf_mem m" "cells_ok m 0 ram" "step_ok ram q m i" using assms(1) Suc.prems(1) by (auto simp: walk_ok_def)
  show ?case
  proof (cases "desc_flags (desc_at q m i) AND 2 \<noteq> 0 \<or> desc_flags (desc_at q m i) AND 1 = 0")
    case True
    with Suc.prems(2) collect_step [OF ok] show ?thesis by (auto simp: Let_def)
  next
    case False
    let ?j = "desc_next (desc_at q m i)"
    obtain run' where run: "readable_run n q m ?j = Some run'" "run = i # run'"
      using False Suc.prems(2) by (auto simp: Let_def)
    have j: "I ?j" "desc_ok q m ?j" using False assms(1) Suc.prems(1) by (auto simp: walk_ok_def step_ok_def)
    show ?thesis
      using False Suc.IH [OF j(1) run(1)] by (simp add: collect_step [OF ok] get_descriptor_spec [OF j(2)] run(2) Let_def)
  qed
qed simp

text \<open>Nothing but an end of the run lets the walk return: by induction on its computation.\<close>

lemma collect_loop_returns:
  assumes "walk_ok ram q m I" "I i" "collect_loop p q m (desc_at q m i) acc = Some bs"
  shows "\<exists>n. readable_run n q m i \<noteq> None"
proof -
  let ?P = "\<lambda>p' q' m' d acc bs. \<forall>i. p' = p \<longrightarrow> q' = q \<longrightarrow> m' = m \<longrightarrow> d = desc_at q m i \<longrightarrow> I i \<longrightarrow>
    (\<exists>n. readable_run n q m i \<noteq> None)"
  have "?P p q m (desc_at q m i) acc bs"
  proof (rule collect_loop.raw_induct [of ?P, OF _ assms(3)], intro allI impI)
    fix collect p' q' m' d acc bs i
    assume IH: "\<And>p' q' m' d acc bs. collect p' q' m' d acc = Some bs \<Longrightarrow> ?P p' q' m' d acc bs"
      and run: "(if desc_flags d AND 2 \<noteq> 0 then Some acc
        else do {
          buf \<leftarrow> read_guest_memory p' m' (desc_buf d) (replicate (unat (desc_len d)) 0);
          if desc_flags d AND 1 = 0 then Some (acc @ buf)
          else do { desc \<leftarrow> get_descriptor p' q' m' (desc_next d); collect p' q' m' desc (acc @ buf) }
        }) = Some bs"
      and eq: "p' = p" "q' = q" "m' = m" "d = desc_at q m i" and i: "I i"
    show "\<exists>n. readable_run n q m i \<noteq> None"
    proof (cases "desc_flags d AND 2 \<noteq> 0 \<or> desc_flags d AND 1 = 0")
      case True
      with eq have "readable_run (Suc 0) q m i \<noteq> None" by (auto simp: Let_def)
      then show ?thesis by blast
    next
      case False
      let ?j = "desc_next d"
      have j: "I ?j" "desc_ok q m ?j" using False assms(1) i eq by (auto simp: walk_ok_def step_ok_def)
      obtain buf where "collect p q m (desc_at q m ?j) (acc @ buf) = Some bs"
        using run False eq get_descriptor_spec [OF j(2)] by (auto elim!: bind_SomeE)
      from IH [OF this] j(1) obtain n where "readable_run n q m ?j \<noteq> None" by blast
      with False eq have "readable_run (Suc n) q m i \<noteq> None" by (auto simp: Let_def)
      then show ?thesis by blast
    qed
  qed
  with assms(2) show ?thesis by blast
qed

section \<open>Chains\<close>

text \<open>The descriptors of a chain that ends within \<open>n\<close> steps, the buffers for the answer and what an answer leaves in
  them.\<close>

fun full_chain :: "nat \<Rightarrow> virtio_queue \<Rightarrow> guest_memory \<Rightarrow> u16 \<Rightarrow> u16 list option" where
  "full_chain 0 q m i = None"
| "full_chain (Suc n) q m i =
     (if desc_flags (desc_at q m i) AND 1 = 0 then Some [i]
      else map_option (Cons i) (full_chain n q m (desc_next (desc_at q m i))))"

definition writable :: "virtio_queue \<Rightarrow> guest_memory \<Rightarrow> u16 \<Rightarrow> bool" where
  "writable q m i \<longleftrightarrow> desc_flags (desc_at q m i) AND 2 \<noteq> 0"

definition desc_span :: "virtq_desc \<Rightarrow> nat set" where
  "desc_span d = span (desc_buf d) (unat (desc_len d))"

fun scattered :: "guest_memory \<Rightarrow> virtq_desc list \<Rightarrow> u8 list \<Rightarrow> bool" where
  "scattered m [] bytes = True"
| "scattered m (d # ds) bytes =
     (let n = min (length bytes) (unat (desc_len d))
      in bytes_at m (desc_buf d) n = take n bytes \<and> scattered m ds (drop n bytes))"

lemma scattered_Nil [simp]: "scattered m ds []"
  by (induction ds) simp_all

lemma full_chain_run: "full_chain n q m i = Some chain \<Longrightarrow> readable_run n q m i = Some (takeWhile (\<lambda>j. \<not> writable q m j) chain)"
proof (induction n arbitrary: i chain)
  case (Suc n)
  then show ?case by (auto simp: Let_def writable_def split: if_splits)
qed simp

lemma full_chain_head: "full_chain n q m i = Some chain \<Longrightarrow> \<exists>rest. chain = i # rest"
  by (cases n) (auto split: if_splits)

lemma full_chain_walk:
  assumes "full_chain n q m i = Some chain" "\<forall>j \<in> set chain. step_ok ram q m j" "wf_mem m" "cells_ok m 0 ram"
  shows "walk_ok ram q m (\<lambda>i. \<exists>n chain. full_chain n q m i = Some chain \<and> (\<forall>j \<in> set chain. step_ok ram q m j))"
  unfolding walk_ok_def
proof (intro conjI allI impI)
  fix i assume "\<exists>n chain. full_chain n q m i = Some chain \<and> (\<forall>j \<in> set chain. step_ok ram q m j)"
  then obtain n chain where c: "full_chain n q m i = Some chain" "\<forall>j \<in> set chain. step_ok ram q m j" by blast
  then show "step_ok ram q m i" using full_chain_head by fastforce
  assume "desc_flags (desc_at q m i) AND 1 \<noteq> 0"
  with c obtain n' rest where "full_chain n' q m (desc_next (desc_at q m i)) = Some rest" "\<forall>j \<in> set rest. step_ok ram q m j"
    by (cases n) auto
  then show "\<exists>n chain. full_chain n q m (desc_next (desc_at q m i)) = Some chain \<and> (\<forall>j \<in> set chain. step_ok ram q m j)"
    by blast
qed (use assms in auto)

lemma collect_chain:
  assumes "full_chain n q m h = Some chain" "\<forall>j \<in> set chain. step_ok ram q m j" "wf_mem m" "cells_ok m 0 ram"
  shows "collect_readable p q m h = Some (concat (map (buffer_of q m) (takeWhile (\<lambda>j. \<not> writable q m j) chain)))"
proof -
  obtain rest where "chain = h # rest" using full_chain_head [OF assms(1)] by blast
  with assms(2) have "desc_ok q m h" by (auto simp: step_ok_def)
  then show ?thesis
    using collect_loop_run [OF full_chain_walk [OF assms] _ full_chain_run [OF assms(1)], of p "[]"] assms(1,2)
    by (auto simp: collect_readable_def get_descriptor_spec)
qed

section \<open>The reply\<close>

lemma reply_write:
  assumes "wf_mem m" "cells_ok m 0 ram" "unat (desc_buf d) + unat (desc_len d) \<le> ram" "0 < unat (desc_len d)" "w < length reply"
  obtains m' where "write_guest_memory p m (desc_buf d) (take (min (length reply - w) (unat (desc_len d))) (drop w reply)) = Some m'"
    "modifies (desc_span d) m m'"
    "bytes_at m' (desc_buf d) (min (length reply - w) (unat (desc_len d))) = take (min (length reply - w) (unat (desc_len d))) (drop w reply)"
proof -
  let ?n = "min (length reply - w) (unat (desc_len d))" and ?a = "desc_buf d"
  let ?b = "take ?n (drop w reply)"
  have len: "length ?b = ?n" "0 < ?n" using assms(4,5) by simp_all
  have "backed m (?a + of_nat 0) ?n"
    by (rule cells_okD(3) [OF cells_ok_within [OF assms(2,3)]]) (use len in simp_all)
  then obtain m' where m': "write_mapped p ?a ?b m = Some m'" "modifies (span ?a ?n) m m'" "bytes_at m' ?a ?n = ?b"
    using write_mapped_ok [OF assms(1), of ?a ?b p] len(1) by auto
  have "modifies (desc_span d) m m'" by (rule modifies_mono [OF m'(2)]) (auto simp: desc_span_def span_def)
  with m' show thesis by (intro that [of m']) (simp_all add: write_guest_memory_def)
qed

text \<open>The descriptors of a chain, as they are in the memory in which the request was taken.\<close>

definition answer_descs :: "virtio_queue \<Rightarrow> guest_memory \<Rightarrow> u16 list \<Rightarrow> virtq_desc list" where
  "answer_descs q m chain = map (desc_at q m) (filter (writable q m) chain)"

definition answer_area :: "virtio_queue \<Rightarrow> guest_memory \<Rightarrow> u16 list \<Rightarrow> nat set" where
  "answer_area q m chain = (\<Union>d \<in> set (answer_descs q m chain). desc_span d)"

definition answer_ok :: "nat \<Rightarrow> virtio_queue \<Rightarrow> guest_memory \<Rightarrow> u16 list \<Rightarrow> bool" where
  "answer_ok ram q m chain \<longleftrightarrow> list_all (step_ok ram q m) chain \<and>
     list_all (\<lambda>d. 0 < unat (desc_len d)) (answer_descs q m chain) \<and>
     sorted_wrt (\<lambda>d e. desc_span d \<inter> desc_span e = {}) (answer_descs q m chain)"

lemma answer_simps [simp]:
  "answer_descs q m (i # chain) = (if writable q m i then desc_at q m i # answer_descs q m chain else answer_descs q m chain)"
  "answer_area q m (i # chain) = (if writable q m i then desc_span (desc_at q m i) else {}) \<union> answer_area q m chain"
  "answer_descs q m [] = []" "answer_area q m [] = {}"
  by (auto simp: answer_descs_def answer_area_def)

lemma answer_ok_Cons:
  assumes "answer_ok ram q m (i # chain)"
  shows "step_ok ram q m i" "answer_ok ram q m chain"
    "writable q m i \<Longrightarrow> 0 < unat (desc_len (desc_at q m i)) \<and> desc_span (desc_at q m i) \<inter> answer_area q m chain = {}"
  using assms by (auto simp: answer_ok_def answer_area_def split: if_splits)

text \<open>One descriptor: skipped when it is not for writing, filled with the next part of the reply when it is.\<close>

lemma reply_skip:
  "desc_flags d AND 2 = 0 \<Longrightarrow> reply_loop p q reply d w m = (if desc_flags d AND 1 = 0 then Some (w, m)
     else do { desc \<leftarrow> get_descriptor p q m (desc_next d); reply_loop p q reply desc w m })"
  by (subst reply_loop.simps) simp

lemma reply_fill:
  assumes "desc_flags d AND 2 \<noteq> 0"
    and "write_guest_memory p m (desc_buf d) (take (min (length reply - w) (unat (desc_len d))) (drop w reply)) = Some m1"
  shows "reply_loop p q reply d w m =
    (let w = w + min (length reply - w) (unat (desc_len d))
     in if length reply \<le> w \<or> desc_flags d AND 1 = 0 then Some (w, m1)
        else do { desc \<leftarrow> get_descriptor p q m1 (desc_next d); reply_loop p q reply desc w m1 })"
  using assms by (subst reply_loop.simps) (simp add: Let_def)

lemma scattered_first:
  "scattered m (d # ds) (drop w reply) \<longleftrightarrow>
     bytes_at m (desc_buf d) (min (length reply - w) (unat (desc_len d))) = take (min (length reply - w) (unat (desc_len d))) (drop w reply) \<and>
     scattered m ds (drop (w + min (length reply - w) (unat (desc_len d))) reply)"
  by (simp add: Let_def add.commute)

lemma filled_stays:
  assumes "cells_ok m 0 ram" "step_ok ram q m0 i" "desc_span (desc_at q m0 i) \<inter> S = {}" "modifies S m m'" "n \<le> unat (desc_len (desc_at q m0 i))"
  shows "bytes_at m' (desc_buf (desc_at q m0 i)) n = bytes_at m (desc_buf (desc_at q m0 i)) n"
proof (rule bytes_within_stable [OF assms(1) _ assms(4)])
  show "unat (desc_buf (desc_at q m0 i)) + n \<le> ram" using assms(2,5) by (simp add: step_ok_def)
  have "span (desc_buf (desc_at q m0 i)) n \<subseteq> desc_span (desc_at q m0 i)" using assms(5) by (auto simp: desc_span_def span_def)
  then show "S \<inter> span (desc_buf (desc_at q m0 i)) n = {}" using assms(3) by blast
qed

lemma reply_loop_chain:
  assumes "full_chain n q m0 i = Some chain" "answer_ok ram q m0 chain" "cells_ok m0 0 ram"
    and "\<forall>j \<in> set chain. S \<inter> desc_area q j = {}" "answer_area q m0 chain \<subseteq> S" "modifies S m0 m" "w < length reply"
  shows "\<exists>w' m'. reply_loop p q reply (desc_at q m0 i) w m = Some (w', m') \<and>
    modifies (answer_area q m0 chain) m m' \<and> scattered m' (answer_descs q m0 chain) (drop w reply)"
  using assms(1,2,4-7)
proof (induction n arbitrary: i chain m w)
  case (Suc n)
  obtain rest where chain: "chain = i # rest" using full_chain_head [OF Suc.prems(1)] by blast
  let ?d = "desc_at q m0 i"
  note ok = answer_ok_Cons [OF Suc.prems(2) [unfolded chain]]
  have mem: "wf_mem m" "cells_ok m 0 ram" using Suc.prems(5) assms(3) cells_ok_modifies modifies_wf by auto
  have go: "\<exists>w' m'. reply_loop p q reply (desc_at q m0 (desc_next ?d)) w m = Some (w', m') \<and>
      modifies (answer_area q m0 rest) m m' \<and> scattered m' (answer_descs q m0 rest) (drop w reply)"
      "get_descriptor p q m (desc_next ?d) = Some (desc_at q m0 (desc_next ?d))"
    if "desc_flags ?d AND 1 \<noteq> 0" "modifies S m0 m" "w < length reply" for m w
  proof -
    have c: "full_chain n q m0 (desc_next ?d) = Some rest" using Suc.prems(1) that(1) chain by auto
    then have j: "desc_next ?d \<in> set rest" using full_chain_head by fastforce
    have "desc_ok q m0 (desc_next ?d)" "S \<inter> desc_area q (desc_next ?d) = {}"
      using j ok(2) Suc.prems(3) chain by (auto simp: answer_ok_def list_all_iff step_ok_def)
    with get_descriptor_spec desc_stable [OF _ that(2)] show "get_descriptor p q m (desc_next ?d) = Some (desc_at q m0 (desc_next ?d))"
      by metis
    show "\<exists>w' m'. reply_loop p q reply (desc_at q m0 (desc_next ?d)) w m = Some (w', m') \<and>
        modifies (answer_area q m0 rest) m m' \<and> scattered m' (answer_descs q m0 rest) (drop w reply)"
      by (rule Suc.IH [OF c ok(2)]) (use Suc.prems(3,4) chain that in auto)
  qed
  have last: "rest = []" if "desc_flags ?d AND 1 = 0" using Suc.prems(1) that chain by simp
  show ?case
  proof (cases "writable q m0 i")
    case False
    then have "desc_flags ?d AND 2 = 0" by (simp add: writable_def)
    from reply_skip [OF this, of p q reply w m] go [OF _ Suc.prems(5,6)] last False mem(1) chain show ?thesis
      by (cases "desc_flags ?d AND 1 = 0") auto
  next
    case True
    let ?n = "min (length reply - w) (unat (desc_len ?d))"
    obtain m1 where m1: "write_guest_memory p m (desc_buf ?d) (take ?n (drop w reply)) = Some m1" "modifies (desc_span ?d) m m1"
        "bytes_at m1 (desc_buf ?d) ?n = take ?n (drop w reply)"
      by (rule reply_write [OF mem, of ?d w reply]) (use ok(1,3) True Suc.prems(6) in \<open>auto simp: step_ok_def\<close>)
    note step = reply_fill [OF True [unfolded writable_def] m1(1), unfolded Let_def]
    show ?thesis
    proof (cases "length reply \<le> w + ?n \<or> desc_flags ?d AND 1 = 0")
      case stop: True
      have "scattered m1 (?d # answer_descs q m0 rest) (drop w reply)" unfolding scattered_first using m1(3) stop last by auto
      moreover have "modifies (answer_area q m0 chain) m m1" by (rule modifies_mono [OF m1(2)]) (use True chain in auto)
      ultimately show ?thesis using step stop True chain by simp
    next
      case more: False
      have "modifies S m0 m1"
        by (rule modifies_mono [OF modifies_trans [OF Suc.prems(5) m1(2)]]) (use Suc.prems(4) True chain in auto)
      then obtain w' m2 where m2: "reply_loop p q reply (desc_at q m0 (desc_next ?d)) (w + ?n) m1 = Some (w', m2)"
          "modifies (answer_area q m0 rest) m1 m2" "scattered m2 (answer_descs q m0 rest) (drop (w + ?n) reply)"
          "get_descriptor p q m1 (desc_next ?d) = Some (desc_at q m0 (desc_next ?d))"
        using go [of m1 "w + ?n"] more by (auto simp: not_le)
      have "bytes_at m2 (desc_buf ?d) ?n = bytes_at m1 (desc_buf ?d) ?n"
        by (rule filled_stays [OF _ ok(1) _ m2(2)]) (use mem(2) cells_ok_modifies [OF m1(2)] ok(3) True in auto)
      then have "scattered m2 (?d # answer_descs q m0 rest) (drop w reply)" unfolding scattered_first using m1(3) m2(3) by simp
      moreover have "modifies (answer_area q m0 chain) m m2" using modifies_trans [OF m1(2) m2(2)] True chain by simp
      ultimately show ?thesis using step more m2(1,4) True chain by simp
    qed
  qed
qed simp

end
