(* ===== verification/Fuse_Answers.thy ===== *)
theory Fuse_Answers
  imports Fuse_Dirs
begin

text \<open>
  Which requests the file server answers: every one whose body is long enough, with one of nine error numbers when
  it fails. In a development build, where an overflow panics, the two counters need room for the
  requests and the host has to keep to its limits on file sizes and names.
\<close>

section \<open>Requests that are answered\<close>

text \<open>How long the body of a request has to be: the fixed part of the structure that the server reads, and the zero
  byte after the first of two names.\<close>

definition body_ok :: "u32 \<Rightarrow> u8 list \<Rightarrow> bool" where
  "body_ok opcode body \<longleftrightarrow>
     (if opcode = FUSE_READ \<or> opcode = FUSE_READDIR then 20 \<le> length body
      else if opcode = FUSE_WRITE then 24 \<le> length body
      else if opcode = FUSE_MKNOD \<or> opcode = FUSE_CREATE then 16 \<le> length body
      else if opcode = FUSE_MKDIR \<or> opcode = FUSE_RELEASE \<or> opcode = FUSE_FSYNC then 8 \<le> length body
      else if opcode = FUSE_SETATTR then 72 \<le> length body
      else if opcode = FUSE_OPEN \<or> opcode = FUSE_BATCH_FORGET then 4 \<le> length body
      else if opcode = FUSE_SYMLINK then 0 \<in> set body
      else if opcode = FUSE_RENAME then 8 \<le> length body \<and> 0 \<in> set (drop 8 body)
      else True)"

definition fuse_errors :: "errno set" where
  "fuse_errors = {ENOENT, EIO, EBADF, EACCES, EEXIST, ENOTDIR, ENOSYS, ENOTEMPTY, EPROTO}"

text \<open>An outcome that is a result, with one of the error numbers when it is not a payload.\<close>

definition answers :: "('h, 'f) fuse_outcome \<Rightarrow> bool" where
  "answers r \<longleftrightarrow> (case r of None \<Rightarrow> False | Some (Inl e, _) \<Rightarrow> e \<in> fuse_errors | Some (Inr _, _) \<Rightarrow> True)"

lemma answers_simps [simp]:
  "answers (Some (Inl e, sf, h)) \<longleftrightarrow> e \<in> fuse_errors" "answers (Some (Inr bs, sf, h))" "\<not> answers None"
  by (simp_all add: answers_def)

lemma errors_in [simp]:
  "ENOENT \<in> fuse_errors" "EIO \<in> fuse_errors" "EBADF \<in> fuse_errors" "EACCES \<in> fuse_errors" "EEXIST \<in> fuse_errors"
  "ENOTDIR \<in> fuse_errors" "ENOSYS \<in> fuse_errors" "ENOTEMPTY \<in> fuse_errors" "EPROTO \<in> fuse_errors"
  "lookup_errno e \<in> fuse_errors" "mkdir_errno e \<in> fuse_errors" "remove_errno e \<in> fuse_errors" "open_errno e \<in> fuse_errors"
  by (simp_all add: fuse_errors_def lookup_errno_def mkdir_errno_def remove_errno_def open_errno_def split: io_error.split)

lemma body_fields:
  "i + 4 \<le> length body \<Longrightarrow> \<exists>x. body_u32 body i = Some x" "i + 8 \<le> length body \<Longrightarrow> \<exists>y. body_u64 body i = Some y"
  by (simp_all add: body_u32_def body_u64_def slice_of_def)

lemma insert_Release:
  "\<exists>sf'. insert_inode Release path sf = Some (sf_next_inode sf, sf')"
  "\<exists>sf' h'. insert_file host Release f sf h = Some (sf_next_fh sf, sf', h')"
  by (simp_all add: insert_inode_def insert_file_def Let_def)

lemma entry_reply_answers [simp]: "answers (entry_reply Release i found sf h)"
  by (auto simp: entry_reply_def build_entry_out_def fuse_attr_bytes_def split: sum.split)

lemma attr_reply_answers [simp]: "answers (do { attr \<leftarrow> build_attr_out Release meta; Some (Inr attr, sf, h) })"
  by (simp add: build_attr_out_def fuse_attr_bytes_def)

lemma insert_entry_answers [simp]:
  "answers (do { (nodeid, sf) \<leftarrow> insert_inode Release path sf; entry_reply Release nodeid found sf h })"
  using insert_Release(1) [of path sf] by auto

lemma node_answers:
  "answers (lookup host Release hdr body sf h)" "answers (get_attr host Release hdr sf h)"
  "16 \<le> length body \<Longrightarrow> answers (make_node host Release hdr body sf h)"
  "8 \<le> length body \<Longrightarrow> answers (make_directory host Release hdr body sf h)"
  "72 \<le> length body \<Longrightarrow> answers (set_attr host Release hdr body sf h)"
  "answers (open_dir host Release hdr sf h)" "answers (readlink host hdr sf h)"
  using body_fields(1) [of 0 body] body_fields(1) [of 68 body] body_fields(2) [of 16 body]
  by (auto simp: lookup_def get_attr_def make_node_def make_directory_def set_attr_def open_dir_def readlink_def cstr_from_eq Let_def
      split: option.splits sum.splits prod.splits)

lemma cstr_zero: "0 \<in> set body \<Longrightarrow> length (cstr body) + 1 \<le> length body"
proof -
  assume "0 \<in> set body"
  then have "takeWhile (\<lambda>b. b \<noteq> 0) body \<noteq> body" by (metis (full_types) takeWhile_eq_all_conv)
  then have "length (takeWhile (\<lambda>b. b \<noteq> 0) body) \<noteq> length body" by (metis take_all order_refl takeWhile_eq_take)
  with length_takeWhile_le [of "\<lambda>b. b \<noteq> 0" body] show ?thesis by (simp add: cstr_def)
qed

lemma name_answers:
  "0 \<in> set body \<Longrightarrow> answers (make_symlink host Release hdr body sf h)"
  "answers (unlink host hdr body sf h)" "answers (rmdir host hdr body sf h)"
  using cstr_zero [of body]
  by (auto simp: make_symlink_def unlink_def rmdir_def cstr_from_eq Let_def split: option.splits sum.splits prod.splits)

lemma rename_answers: "8 \<le> length body \<Longrightarrow> 0 \<in> set (drop 8 body) \<Longrightarrow> answers (rename host hdr body sf h)"
  using body_fields(2) [of 0 body] cstr_zero [of "drop 8 body"]
  by (auto simp: rename_def cstr_from_eq slice_tail split: option.splits sum.splits prod.splits)

lemma create_answers: "16 \<le> length body \<Longrightarrow> answers (create host Release hdr body sf h)"
proof -
  assume "16 \<le> length body"
  moreover have "answers (do { (nodeid, sf) \<leftarrow> insert_inode Release path sf;
      case fs_metadata host path h of
        Inl e \<Rightarrow> Some (Inl EIO, sf, fs_close host f h)
      | Inr meta \<Rightarrow> do { (fh, sf, h) \<leftarrow> insert_file host Release f sf h; entry_out \<leftarrow> build_entry_out Release nodeid meta;
          Some (Inr (entry_out @ open_reply fh), sf, h) } })" for path f h
    using insert_Release(1) [of path sf] insert_Release(2) [of host f _ h]
    by (auto simp: build_entry_out_def fuse_attr_bytes_def insert_file_def Let_def split: sum.splits)
  ultimately show ?thesis
    using body_fields(1) [of 0 body] by (auto simp: create_def cstr_from_eq Let_def split: option.splits sum.splits prod.splits)
qed

lemma open_answers: "4 \<le> length body \<Longrightarrow> answers (open_file host Release hdr body sf h)"
  using body_fields(1) [of 0 body]
  by (auto simp: open_file_def insert_file_def Let_def split: option.splits sum.splits prod.splits)

lemma file_answers:
  "20 \<le> length body \<Longrightarrow> answers (read_file host body sf h)" "24 \<le> length body \<Longrightarrow> answers (write_file host body sf h)"
  "8 \<le> length body \<Longrightarrow> answers (release host body sf h)" "8 \<le> length body \<Longrightarrow> answers (fsync host body sf h)"
  using body_fields(2) [of 0 body] body_fields(2) [of 8 body] body_fields(1) [of 16 body]
  by (auto simp: read_file_def write_file_def release_def fsync_def slice_tail Let_def split: option.splits sum.splits prod.splits)

lemma read_dir_loop_Release: "\<exists>r. read_dir_loop Release offset max_size es pos out = Some r \<and> (isl r \<longrightarrow> r = Inl EIO)"
proof (induction es arbitrary: pos out)
  case (Cons e es)
  then show ?case by (auto simp: Let_def split: sum.split)
qed simp

lemma read_dir_answers: "20 \<le> length body \<Longrightarrow> answers (read_dir host Release hdr body sf h)"
proof -
  have "answers (do { r \<leftarrow> read_dir_loop Release offset max_size es 1 []; Some (r, sf, h) })" for offset max_size es
    using read_dir_loop_Release [of offset max_size es 1 "[]"] by (auto simp: answers_def split: sum.split)
  then show "20 \<le> length body \<Longrightarrow> answers (read_dir host Release hdr body sf h)"
    using body_fields(2) [of 8 body] body_fields(1) [of 16 body]
    by (auto simp: read_dir_def Let_def split: option.splits sum.splits)
qed

lemma batch_forget_loop_total: "\<exists>m'. batch_forget_loop n i body m = Some m'"
proof (induction n arbitrary: i m)
  case (Suc n)
  then show ?case using body_fields(2) [of "8 + i * 16" body] by (auto simp: Let_def not_less)
qed simp

lemma session_answers:
  "answers (init body sf h)" "answers (destroy sf h)" "answers (release_dir sf h)" "answers (flush sf h)" "answers (stat_fs sf h)"
  "answers (interrupt sf h)"
  by (auto simp: init_def destroy_def release_dir_def flush_def stat_fs_def interrupt_def Let_def)

lemma batch_forget_answers: "4 \<le> length body \<Longrightarrow> answers (batch_forget body sf h)"
proof -
  assume "4 \<le> length body"
  then obtain count where "body_u32 body 0 = Some count" using body_fields(1) [of 0 body] by auto
  then show ?thesis
    using batch_forget_loop_total [of "unat count" 0 body "sf_inodes sf"] by (auto simp: batch_forget_def)
qed

lemma if_answers: "(c \<Longrightarrow> answers a) \<Longrightarrow> (\<not> c \<Longrightarrow> answers b) \<Longrightarrow> answers (if c then a else b)"
  by simp

lemmas operation_answers = if_answers node_answers name_answers rename_answers create_answers open_answers file_answers
  read_dir_answers session_answers batch_forget_answers

lemma dispatch_answers:
  assumes "body_ok (in_opcode hdr) body"
  shows "answers (dispatch host Release hdr body sf h)"
proof -
  have "in_opcode hdr = FUSE_READ \<Longrightarrow> 20 \<le> length body" "in_opcode hdr = FUSE_READDIR \<Longrightarrow> 20 \<le> length body"
    "in_opcode hdr = FUSE_WRITE \<Longrightarrow> 24 \<le> length body" "in_opcode hdr = FUSE_MKNOD \<Longrightarrow> 16 \<le> length body"
    "in_opcode hdr = FUSE_CREATE \<Longrightarrow> 16 \<le> length body" "in_opcode hdr = FUSE_MKDIR \<Longrightarrow> 8 \<le> length body"
    "in_opcode hdr = FUSE_RELEASE \<Longrightarrow> 8 \<le> length body" "in_opcode hdr = FUSE_FSYNC \<Longrightarrow> 8 \<le> length body"
    "in_opcode hdr = FUSE_SETATTR \<Longrightarrow> 72 \<le> length body" "in_opcode hdr = FUSE_OPEN \<Longrightarrow> 4 \<le> length body"
    "in_opcode hdr = FUSE_BATCH_FORGET \<Longrightarrow> 4 \<le> length body" "in_opcode hdr = FUSE_SYMLINK \<Longrightarrow> 0 \<in> set body"
    "in_opcode hdr = FUSE_RENAME \<Longrightarrow> 8 \<le> length body" "in_opcode hdr = FUSE_RENAME \<Longrightarrow> 0 \<in> set (drop 8 body)"
    using assms by (simp_all add: body_ok_def fuse_opcodes)
  then show ?thesis
    unfolding dispatch_def Let_def by (intro operation_answers) simp_all
qed

section \<open>Development builds\<close>

text \<open>What the kernel promises of sizes: a file length is a signed 64-bit number, a name has at most 255 bytes, and a directory
  has fewer entries than that.\<close>

definition host_sizes :: "('h, 'f) host_fs \<Rightarrow> bool" where
  "host_sizes host \<longleftrightarrow>
     (\<forall>path h meta. fs_metadata host path h = Inr meta \<longrightarrow> unat (meta_len meta) < 2 ^ 63) \<and>
     (\<forall>path h meta. fs_symlink_metadata host path h = Inr meta \<longrightarrow> unat (meta_len meta) < 2 ^ 63) \<and>
     (\<forall>path h found. fs_read_dir host path h = Inr found \<longrightarrow> length found < 2 ^ 63 \<and>
        (\<forall>e. Inr e \<in> set found \<longrightarrow> length (ent_name e) \<le> 255))"

text \<open>Room for \<open>k\<close> more requests below the end of the node numbers and of the file handles.\<close>

definition sf_room :: "nat \<Rightarrow> 'f shared_folder \<Rightarrow> bool" where
  "sf_room k sf \<longleftrightarrow> unat (sf_next_inode sf) + k < 2 ^ 64 \<and> unat (sf_next_fh sf) + k < 2 ^ 64"

definition server_ready :: "profile \<Rightarrow> ('h, 'f) host_fs \<Rightarrow> nat \<Rightarrow> 'f shared_folder \<Rightarrow> bool" where
  "server_ready p host k sf \<longleftrightarrow> p = Release \<or> host_sizes host \<and> sf_room k sf"

lemma insert_Dev:
  assumes "sf_room 1 sf"
  shows "insert_inode Dev path sf = insert_inode Release path sf"
    "insert_file host Dev file sf h = insert_file host Release file sf h"
    "add_chk Dev (sf_next_fh sf) 1 = add_chk Release (sf_next_fh sf) 1"
  using assms by (simp_all add: insert_inode_def insert_file_def sf_room_def add_chk_def)

lemma insert_twice_Dev:
  assumes "sf_room 1 sf" "insert_inode Release path sf = Some (i, sf1)"
  shows "insert_file host Dev file sf1 h = insert_file host Release file sf1 h"
  using assms insert_inode_eq [OF assms(2)] by (simp add: insert_file_def sf_room_def add_chk_def)

lemma attr_Dev:
  assumes "unat (meta_len meta) < 2 ^ 63"
  shows "build_entry_out Dev i meta = build_entry_out Release i meta" "build_attr_out Dev meta = build_attr_out Release meta"
  using assms by (simp_all add: build_entry_out_def build_attr_out_def fuse_attr_bytes_def add_chk_def)

lemma host_attr_Dev:
  assumes "host_sizes host"
  shows "fs_metadata host path h = Inr meta \<Longrightarrow> build_entry_out Dev i meta = build_entry_out Release i meta"
    "fs_metadata host path h = Inr meta \<Longrightarrow> build_attr_out Dev meta = build_attr_out Release meta"
    "entry_reply Dev i (fs_metadata host path h) sf h' = entry_reply Release i (fs_metadata host path h) sf h'"
    "entry_reply Dev i (fs_symlink_metadata host path h) sf h' = entry_reply Release i (fs_symlink_metadata host path h) sf h'"
  using assms attr_Dev by (auto simp: entry_reply_def host_sizes_def split: sum.split)

lemma node_Dev:
  assumes "host_sizes host" "sf_room 1 sf"
  shows "lookup host Dev hdr body sf h = lookup host Release hdr body sf h"
    "get_attr host Dev hdr sf h = get_attr host Release hdr sf h"
    "make_node host Dev hdr body sf h = make_node host Release hdr body sf h"
    "make_directory host Dev hdr body sf h = make_directory host Release hdr body sf h"
    "make_symlink host Dev hdr body sf h = make_symlink host Release hdr body sf h"
    "open_dir host Dev hdr sf h = open_dir host Release hdr sf h"
    "open_file host Dev hdr body sf h = open_file host Release hdr body sf h"
proof -
  note rules = insert_Dev [OF assms(2)] host_attr_Dev [OF assms(1)]
  have entry: "entry_reply Dev i (Inr meta) sf' h' = entry_reply Release i (Inr meta) sf' h'"
    if "fs_metadata host path h0 = Inr meta" for i meta sf' h' path h0
    using rules(4) [OF that] by (simp add: entry_reply_def)
  show "lookup host Dev hdr body sf h = lookup host Release hdr body sf h"
    using entry by (auto simp: lookup_def rules Let_def split: option.split sum.split Option.bind_split)
  show "get_attr host Dev hdr sf h = get_attr host Release hdr sf h"
    using rules(5) by (auto simp: get_attr_def split: option.split sum.split)
  show "make_node host Dev hdr body sf h = make_node host Release hdr body sf h"
    "make_directory host Dev hdr body sf h = make_directory host Release hdr body sf h"
    "make_symlink host Dev hdr body sf h = make_symlink host Release hdr body sf h"
    "open_dir host Dev hdr sf h = open_dir host Release hdr sf h"
    "open_file host Dev hdr body sf h = open_file host Release hdr body sf h"
    unfolding make_node_def make_directory_def make_symlink_def open_dir_def open_file_def rules(1-3) rules(6,7) by (rule refl)+
qed

lemma set_attr_Dev:
  assumes "host_sizes host"
  shows "set_attr host Dev hdr body sf h = set_attr host Release hdr body sf h"
proof -
  have "(case fs_metadata host path h of Inl e \<Rightarrow> Some (Inl EIO, sf, h)
      | Inr meta \<Rightarrow> do { attr \<leftarrow> build_attr_out Dev meta; Some (Inr attr, sf, h) }) =
    (case fs_metadata host path h of Inl e \<Rightarrow> Some (Inl EIO, sf, h)
      | Inr meta \<Rightarrow> do { attr \<leftarrow> build_attr_out Release meta; Some (Inr attr, sf, h) })" for path h
    using host_attr_Dev(2) [OF assms] by (auto split: sum.split)
  note attr = this
  show ?thesis unfolding set_attr_def attr ..
qed

lemma create_Dev:
  assumes "host_sizes host" "sf_room 1 sf"
  shows "create host Dev hdr body sf h = create host Release hdr body sf h"
proof -
  have "do { (nodeid, sf) \<leftarrow> insert_inode Dev path sf;
      case fs_metadata host path h of
        Inl e \<Rightarrow> Some (Inl EIO, sf, fs_close host f h)
      | Inr meta \<Rightarrow> do { (fh, sf, h) \<leftarrow> insert_file host Dev f sf h; entry_out \<leftarrow> build_entry_out Dev nodeid meta;
          Some (Inr (entry_out @ open_reply fh), sf, h) } } =
    do { (nodeid, sf) \<leftarrow> insert_inode Release path sf;
      case fs_metadata host path h of
        Inl e \<Rightarrow> Some (Inl EIO, sf, fs_close host f h)
      | Inr meta \<Rightarrow> do { (fh, sf, h) \<leftarrow> insert_file host Release f sf h; entry_out \<leftarrow> build_entry_out Release nodeid meta;
          Some (Inr (entry_out @ open_reply fh), sf, h) } }" for path f h
    by (auto simp: insert_Dev(1) [OF assms(2)] insert_twice_Dev [OF assms(2)] host_attr_Dev(1) [OF assms(1)]
        split: sum.split Option.bind_split)
  note made = this
  show ?thesis unfolding create_def Let_def made ..
qed

lemma lossy_length: "length (to_string_lossy bs) \<le> 3 * length bs"
proof (induction bs rule: to_string_lossy.induct)
  case (1 bs)
  show ?case
  proof (cases "bs = []")
    case False
    let ?n = "snd (utf8_step bs)"
    have "length (to_string_lossy (drop ?n bs)) \<le> 3 * (length bs - ?n)" using 1 [OF False] by simp
    moreover have "length (to_string_lossy bs) =
        (if fst (utf8_step bs) then min (length bs) ?n else 3) + length (to_string_lossy (drop ?n bs))"
      by (subst to_string_lossy.simps) (simp add: False)
    moreover obtain k where "length bs = Suc k" using False by (cases bs) simp_all
    ultimately show ?thesis using utf8_step_length [OF False] utf8_step_pos [of bs] by (auto simp: min_def)
  qed simp
qed

lemma read_dir_loop_Dev:
  assumes "\<forall>e \<in> set es. length (ent_name e) \<le> 255" "unat pos + length es < 2 ^ 64"
  shows "read_dir_loop Dev offset max_size es pos out = read_dir_loop Release offset max_size es pos out"
  using assms
proof (induction es arbitrary: pos out)
  case (Cons e es)
  have pos: "unat pos < 2 ^ 64 - 1" using Cons.prems(2) by simp
  have IH: "read_dir_loop Dev offset max_size es (pos + 1) out = read_dir_loop Release offset max_size es (pos + 1) out" for out
    by (rule Cons.IH) (use Cons.prems counter_up(1) [OF pos] in simp_all)
  show ?case
  proof (cases "pos \<le> offset \<or> isl (ent_meta e)")
    case True
    have "add_chk Dev pos 1 = Some (pos + 1)" using pos by (simp add: add_chk_def)
    with True IH show ?thesis by (auto simp: isl_def Let_def)
  next
    case False
    have "entry_ok e" using False Cons.prems(1) lossy_length [of "ent_name e"] by (simp add: entry_ok_def)
    moreover have "offset < pos" using False by (simp add: not_le)
    ultimately show ?thesis by (simp only: read_dir_loop_record [OF _ _ pos] IH)
  qed
qed simp

lemma read_dir_Dev:
  assumes "host_sizes host"
  shows "read_dir host Dev hdr body sf h = read_dir host Release hdr body sf h"
proof -
  have "read_dir_loop Dev offset max_size (listed found) 1 [] = read_dir_loop Release offset max_size (listed found) 1 []"
    if "fs_read_dir host path h = Inr found" for offset max_size path found
  proof (rule read_dir_loop_Dev)
    have found: "length found < 2 ^ 63" "\<And>e. Inr e \<in> set found \<Longrightarrow> length (ent_name e) \<le> 255"
      using assms that unfolding host_sizes_def by blast+
    have "set (listed found) \<subseteq> {e. Inr e \<in> set found}"
      by (auto simp: listed_def map_filter_def split: sum.splits)
    then show "\<forall>e \<in> set (listed found). length (ent_name e) \<le> 255" using found(2) by blast
    have "length (listed found) \<le> length found" by (simp add: listed_def map_filter_def)
    then show "unat (1 :: u64) + length (listed found) < 2 ^ 64" using found(1) by simp
  qed
  note loop = this
  show ?thesis
    unfolding read_dir_def listed_def [symmetric]
    by (auto simp: Let_def loop split: option.split sum.split intro!: Option.bind_cong)
qed

lemma dispatch_Dev:
  assumes "host_sizes host" "sf_room 1 sf"
  shows "dispatch host Dev hdr body sf h = dispatch host Release hdr body sf h"
  unfolding dispatch_def
  by (simp only: node_Dev [OF assms] set_attr_Dev [OF assms(1)] create_Dev [OF assms] read_dir_Dev [OF assms(1)])

lemma sf_room_step:
  assumes "dispatch host p hdr body sf h = Some (r, sf', h')" "sf_room (Suc k) sf"
  shows "sf_room k sf'"
proof -
  have up: "unat (x + 1) \<le> unat x + 1" for x :: u64 by (simp add: unat_word_ariths)
  have "sf_next_inode sf' \<in> {sf_next_inode sf, sf_next_inode sf + 1}" "sf_next_fh sf' \<in> {sf_next_fh sf, sf_next_fh sf + 1}"
    using dispatch_step [OF assms(1)] by (auto simp: tables_step_def nodes_step_def files_step_def)
  with assms(2) up [of "sf_next_inode sf"] up [of "sf_next_fh sf"] show ?thesis by (auto simp: sf_room_def)
qed

text \<open>A server that is ready for one more request answers it, and is then ready for one less.\<close>

lemma server_answers:
  assumes "body_ok (in_opcode hdr) body" "server_ready p host (Suc k) sf"
  obtains r sf' h' where "dispatch host p hdr body sf h = Some (r, sf', h')" "answers (Some (r, sf', h'))"
    "server_ready p host k sf'"
proof -
  have "dispatch host p hdr body sf h = dispatch host Release hdr body sf h"
    using assms(2) dispatch_Dev [of host sf hdr body h] by (cases p) (auto simp: server_ready_def sf_room_def)
  moreover obtain r sf' h' where "dispatch host Release hdr body sf h = Some (r, sf', h')" "answers (Some (r, sf', h'))"
    using dispatch_answers [OF assms(1), of host sf h] by (metis answers_simps(3) not_Some_eq prod_cases3)
  ultimately show thesis
    using that [of r sf' h'] assms(2) sf_room_step [of host p hdr body sf h r sf' h' k] by (auto simp: server_ready_def)
qed

end
