(* ===== verification/Fs_Queue.thy ===== *)
theory Fs_Queue
  imports Fs_Walks Fuse_Answers
begin

text \<open>
  The queues of the file system device as services: a tick of the request queue answers every pending request,
  a tick of the high priority queue forgets the nodes it is told to.
\<close>

section \<open>The request queue as a service\<close>

abbreviation fs_chain :: "virtio_queue \<Rightarrow> guest_memory \<Rightarrow> u16 \<Rightarrow> u16 list option" where
  "fs_chain q m h \<equiv> full_chain (unat (q_size q)) q m h"

definition request_bytes :: "virtio_queue \<Rightarrow> guest_memory \<Rightarrow> u16 list \<Rightarrow> u8 list" where
  "request_bytes q m chain = concat (map (buffer_of q m) (takeWhile (\<lambda>j. \<not> writable q m j) chain))"

definition request_header :: "virtio_queue \<Rightarrow> guest_memory \<Rightarrow> u16 list \<Rightarrow> fuse_in_header" where
  "request_header q m chain = fst (new_in_header (request_bytes q m chain))"

definition request_body :: "virtio_queue \<Rightarrow> guest_memory \<Rightarrow> u16 list \<Rightarrow> u8 list" where
  "request_body q m chain = snd (new_in_header (request_bytes q m chain))"

definition fs_reads :: "virtio_queue \<Rightarrow> guest_memory \<Rightarrow> u16 \<Rightarrow> nat set" where
  "fs_reads q m h = (case fs_chain q m h of None \<Rightarrow> {} | Some chain \<Rightarrow> \<Union>i \<in> set chain. step_reads q m i)"

definition fs_writes :: "virtio_queue \<Rightarrow> guest_memory \<Rightarrow> u16 \<Rightarrow> nat set" where
  "fs_writes q m h = (case fs_chain q m h of None \<Rightarrow> {} | Some chain \<Rightarrow> answer_area q m chain)"

text \<open>A chain that ends, lies in guest memory, and has room for an answer that nothing of the chain overlaps.\<close>

definition chain_req :: "nat \<Rightarrow> virtio_queue \<Rightarrow> guest_memory \<Rightarrow> u16 \<Rightarrow> bool" where
  "chain_req ram q m h \<longleftrightarrow> wf_mem m \<and> cells_ok m 0 ram \<and>
     (case fs_chain q m h of None \<Rightarrow> False | Some chain \<Rightarrow> answer_ok ram q m chain \<and>
        (\<forall>j \<in> set chain. answer_area q m chain \<inter> desc_area q j = {}))"

definition fs_req :: "nat \<Rightarrow> virtio_queue \<Rightarrow> guest_memory \<Rightarrow> u16 \<Rightarrow> bool" where
  "fs_req ram q m h \<longleftrightarrow> chain_req ram q m h \<and>
     (case fs_chain q m h of None \<Rightarrow> False | Some chain \<Rightarrow>
        body_ok (in_opcode (request_header q m chain)) (request_body q m chain))"

text \<open>A reply to a request: its length and the number of the request are in its header, and the error field is
  0 or the negated error number of a reply without payload.\<close>

definition reply_ok :: "u64 \<Rightarrow> u8 list \<Rightarrow> bool" where
  "reply_ok uniq reply \<longleftrightarrow> 16 \<le> length reply \<and> from_le (take 4 reply) = (of_nat (length reply) :: u32) \<and>
     from_le (take 8 (drop 8 reply)) = uniq \<and>
     (let err = from_le (take 4 (drop 4 reply)) :: u32 in err = 0 \<or> length reply = 16 \<and> - err \<in> fuse_errors)"

text \<open>What the server makes of the request at \<open>h\<close>, the device after it, and that its reply is in the guest's descriptors:
  as much of it as they hold.\<close>

definition fs_outcome ::
    "('h, 'f) host_fs \<Rightarrow> profile \<Rightarrow> virtio_queue \<Rightarrow> guest_memory \<Rightarrow> u16 \<Rightarrow> ('h, 'f) fs_virtio \<Rightarrow> ('h, 'f) fuse_outcome" where
  "fs_outcome host p q m h d =
     (case fs_chain q m h of None \<Rightarrow> None | Some chain \<Rightarrow>
        dispatch host p (request_header q m chain) (request_body q m chain) (fuse_device d) (fs_host d))"

definition fs_after ::
    "('h, 'f) host_fs \<Rightarrow> profile \<Rightarrow> virtio_queue \<Rightarrow> guest_memory \<Rightarrow> u16 \<Rightarrow> ('h, 'f) fs_virtio \<Rightarrow> ('h, 'f) fs_virtio" where
  "fs_after host p q m h d =
     (case fs_outcome host p q m h d of None \<Rightarrow> d | Some (r, sf, host') \<Rightarrow> d\<lparr>fuse_device := sf, fs_host := host'\<rparr>)"

definition fs_answered ::
    "('h, 'f) host_fs \<Rightarrow> profile \<Rightarrow> virtio_queue \<Rightarrow> guest_memory \<Rightarrow> u16 \<Rightarrow> ('h, 'f) fs_virtio \<Rightarrow> guest_memory \<Rightarrow> bool" where
  "fs_answered host p q m h d m' \<longleftrightarrow>
     (case (fs_chain q m h, fs_outcome host p q m h d) of
        (Some chain, Some (r, _)) \<Rightarrow>
          let uniq = in_unique (request_header q m chain); reply = fuse_reply uniq r
          in reply_ok uniq reply \<and> scattered m' (answer_descs q m chain) reply
      | _ \<Rightarrow> False)"

lemma from_le_zeros [simp]: "from_le (replicate n 0) = 0"
  by (induction n) simp_all

lemma fuse_reply_ok: "answers (Some (r, sf, h)) \<Longrightarrow> reply_ok uniq (fuse_reply uniq r)"
  by (cases r) (simp_all add: reply_ok_def fuse_reply_def out_header_to_bytes_def out_header_length_def)

lemma fs_chain_stable:
  assumes "full_chain n q m i = Some chain" "\<forall>j \<in> set chain. step_ok ram q m j \<and> S \<inter> step_reads q m j = {}"
    and "cells_ok m 0 ram" "modifies S m m'" "same_setup q q'"
  shows "full_chain n q' m' i = Some chain"
    and "j \<in> set chain \<Longrightarrow> desc_at q' m' j = desc_at q m j \<and> desc_ok q' m' j \<and> desc_area q' j = desc_area q j"
    and "j \<in> set chain \<Longrightarrow> \<not> writable q m j \<Longrightarrow> buffer_of q' m' j = buffer_of q m j"
proof -
  have d: "desc_at q' m' j = desc_at q m j \<and> desc_ok q' m' j \<and> desc_area q' j = desc_area q j"
    if "step_ok ram q m j" "S \<inter> step_reads q m j = {}" for j
    using desc_keeps(1) [OF assms(5)] desc_keeps(2,3) [OF assms(5) _ assms(4), of j] that by (auto simp: step_ok_def step_reads_def)
  show "full_chain n q' m' i = Some chain"
    using assms(1,2)
  proof (induction n arbitrary: i chain)
    case (Suc n)
    obtain rest where "chain = i # rest" using full_chain_head [OF Suc.prems(1)] by blast
    with Suc.prems d [of i] Suc.IH show ?case by (auto split: if_splits)
  qed simp
  show "desc_at q' m' j = desc_at q m j \<and> desc_ok q' m' j \<and> desc_area q' j = desc_area q j" if "j \<in> set chain" using d assms(2) that by blast
  then show "buffer_of q' m' j = buffer_of q m j" if "j \<in> set chain" "\<not> writable q m j"
  proof -
    have "step_ok ram q m j \<and> S \<inter> step_reads q m j = {}" using assms(2) that by blast
    then have "S \<inter> span (desc_buf (desc_at q m j)) (unat (desc_len (desc_at q m j))) = {}" "step_ok ram q m j"
      using that(2) by (auto simp: step_reads_def writable_def VIRTQ_DESC_F_WRITE_def)
    with bytes_within_stable [OF assms(3) _ assms(4)] that \<open>j \<in> set chain \<Longrightarrow> _\<close> show ?thesis
      by (simp add: buffer_of_def step_ok_def)
  qed
qed

text \<open>So a request stays the same request under stores that avoid what it reads.\<close>

lemma chain_req_stable:
  assumes "chain_req ram q m h" "modifies S m m'" "S \<inter> fs_reads q m h = {}" "same_setup q q'" "fs_chain q m h = Some chain"
  shows "fs_chain q' m' h = Some chain" "answer_descs q' m' chain = answer_descs q m chain"
    "answer_area q' m' chain = answer_area q m chain" "request_bytes q' m' chain = request_bytes q m chain"
    "fs_reads q' m' h = fs_reads q m h" "chain_req ram q' m' h"
proof -
  have sz: "q_size q' = q_size q" using assms(4) by (simp add: same_setup_def)
  have ok: "answer_ok ram q m chain" "cells_ok m 0 ram" "\<forall>j \<in> set chain. answer_area q m chain \<inter> desc_area q j = {}"
    using assms(1,5) by (auto simp: chain_req_def)
  have st: "\<forall>j \<in> set chain. step_ok ram q m j \<and> S \<inter> step_reads q m j = {}"
    using ok(1) assms(3,5) by (auto simp: answer_ok_def list_all_iff fs_reads_def)
  note stable = fs_chain_stable [OF assms(5) st ok(2) assms(2,4)]
  have w: "writable q' m' j = writable q m j" if "j \<in> set chain" for j using stable(2) [OF that] by (simp add: writable_def)
  show chain: "fs_chain q' m' h = Some chain" using stable(1) sz by simp
  show descs: "answer_descs q' m' chain = answer_descs q m chain"
    using stable(2) w by (auto simp: answer_descs_def cong: filter_cong)
  then show area: "answer_area q' m' chain = answer_area q m chain" by (simp add: answer_area_def)
  have "takeWhile (\<lambda>j. \<not> writable q' m' j) chain = takeWhile (\<lambda>j. \<not> writable q m j) chain"
    by (rule takeWhile_cong) (use w in auto)
  then show "request_bytes q' m' chain = request_bytes q m chain"
    using stable(3) set_takeWhileD by (fastforce simp: request_bytes_def intro!: arg_cong [where f = concat])
  have "step_reads q' m' j = step_reads q m j" if "j \<in> set chain" for j
    using stable(2) [OF that] by (simp add: step_reads_def)
  then show "fs_reads q' m' h = fs_reads q m h" using chain assms(5) by (auto simp: fs_reads_def)
  have "list_all (step_ok ram q' m') chain" using stable(2) st by (auto simp: step_ok_def list_all_iff)
  then show "chain_req ram q' m' h"
    using chain ok assms(1,5) descs area stable(2) modifies_wf [OF assms(2)] cells_ok_modifies [OF assms(2)]
    by (auto simp: chain_req_def answer_ok_def)
qed

lemma chain_reqE:
  assumes "chain_req ram q m h"
  obtains chain where "fs_chain q m h = Some chain" "answer_ok ram q m chain" "wf_mem m" "cells_ok m 0 ram"
    "\<forall>j \<in> set chain. answer_area q m chain \<inter> desc_area q j = {}" "desc_ok q m h"
    "collect_readable p q m h = Some (request_bytes q m chain)"
proof -
  obtain chain where c: "fs_chain q m h = Some chain" "answer_ok ram q m chain" "wf_mem m" "cells_ok m 0 ram"
      "\<forall>j \<in> set chain. answer_area q m chain \<inter> desc_area q j = {}"
    using assms by (auto simp: chain_req_def split: option.splits)
  have steps: "\<forall>j \<in> set chain. step_ok ram q m j" using c(2) by (simp add: answer_ok_def list_all_iff)
  have "desc_ok q m h" using full_chain_head [OF c(1)] steps by (auto simp: step_ok_def)
  moreover have "collect_readable p q m h = Some (request_bytes q m chain)"
    using collect_chain [OF c(1) steps c(3,4)] by (simp add: request_bytes_def)
  ultimately show thesis using that c by blast
qed

lemma fs_serves:
  assumes "fs_req ram q m h" "used_ok q m" "q_size q \<noteq> 0" "server_ready p host (Suc k) (fuse_device d)"
  obtains m' m1 where "fs_request_body host p h (d, q, m, w) =
      Some (fs_after host p q m h d, q\<lparr>last_used_idx := last_used_idx q + 1\<rparr>, m', True)"
    "modifies (fs_writes q m h) m m1" "modifies (used_area q) m1 m'" "modifies (used_area q \<union> fs_writes q m h) m m'"
    "fs_answered host p q m h d m1" "server_ready p host k (fuse_device (fs_after host p q m h d))"
    "used_entry q m' (last_used_idx q) = (ucast h, 0)"
    "\<And>j. fs_writes q m h \<inter> used_area q = {} \<Longrightarrow> j mod q_size q \<noteq> last_used_idx q mod q_size q \<Longrightarrow>
      used_entry q m' j = used_entry q m j"
proof -
  have "chain_req ram q m h" using assms(1) by (simp add: fs_req_def)
  then obtain chain where c: "fs_chain q m h = Some chain" "answer_ok ram q m chain" "wf_mem m" "cells_ok m 0 ram"
      "\<forall>j \<in> set chain. answer_area q m chain \<inter> desc_area q j = {}" "desc_ok q m h"
      "collect_readable p q m h = Some (request_bytes q m chain)"
    by (rule chain_reqE)
  let ?hdr = "request_header q m chain" and ?body = "request_body q m chain"
  have "body_ok (in_opcode ?hdr) ?body" using assms(1) c(1) by (simp add: fs_req_def)
  then obtain r sf' h' where
    r: "dispatch host p ?hdr ?body (fuse_device d) (fs_host d) = Some (r, sf', h')" "answers (Some (r, sf', h'))"
      "server_ready p host k sf'"
    using assms(4) by (rule server_answers)
  have out: "fs_outcome host p q m h d = Some (r, sf', h')" using c(1) r(1) by (simp add: fs_outcome_def)
  let ?reply = "fuse_reply (in_unique ?hdr) r"
  have rep: "reply_ok (in_unique ?hdr) ?reply" by (rule fuse_reply_ok [OF r(2)])
  then have "0 < length ?reply" by (auto simp: reply_ok_def)
  then obtain w' m1 where m1: "reply_loop p q ?reply (desc_at q m h) 0 m = Some (w', m1)"
      "modifies (fs_writes q m h) m m1" "scattered m1 (answer_descs q m chain) ?reply"
    using reply_loop_chain [OF c(1,2,4,5), of m 0 ?reply p] c(1,3) by (auto simp: fs_writes_def)
  obtain m' where m': "push_used p q m1 h 0 = Some (q\<lparr>last_used_idx := last_used_idx q + 1\<rparr>, m')" "modifies (used_area q) m1 m'"
      "modifies (used_area q \<union> fs_writes q m h) m m'" "used_entry q m' (last_used_idx q) = (ucast h, 0)"
      "\<And>j. fs_writes q m h \<inter> used_area q = {} \<Longrightarrow> j mod q_size q \<noteq> last_used_idx q mod q_size q \<Longrightarrow>
        used_entry q m' j = used_entry q m j"
    by (rule push_used_after [OF assms(2,3) m1(2), of p h 0]) blast
  have "new_in_header (request_bytes q m chain) = (?hdr, ?body)" by (simp add: request_header_def request_body_def)
  then have "fs_request_body host p h (d, q, m, w) =
      Some (fs_after host p q m h d, q\<lparr>last_used_idx := last_used_idx q + 1\<rparr>, m', True)"
    using m1(1) m'(1) r(1) c(7) get_descriptor_spec [OF c(6)]
    by (simp add: fs_request_body_def write_out_reply_def fs_after_def out)
  moreover have "fs_answered host p q m h d m1" using c(1) rep m1(3) by (simp add: fs_answered_def out Let_def)
  moreover have "server_ready p host k (fuse_device (fs_after host p q m h d))" using r(3) by (simp add: fs_after_def out)
  ultimately show thesis using that [OF _ m1(2) m'(2,3) _ _ m'(4)] m'(5) by blast
qed

lemma scattered_frame:
  assumes "cells_ok m 0 ram" "modifies T m m'" "scattered m ds bytes"
    and "\<forall>d \<in> set ds. unat (desc_buf d) + unat (desc_len d) \<le> ram \<and> T \<inter> desc_span d = {}"
  shows "scattered m' ds bytes"
  using assms(3,4)
proof (induction ds arbitrary: bytes)
  case (Cons d ds)
  let ?n = "min (length bytes) (unat (desc_len d))"
  have "bytes_at m' (desc_buf d) ?n = bytes_at m (desc_buf d) ?n"
  proof (rule bytes_within_stable [OF assms(1) _ assms(2)])
    show "unat (desc_buf d) + ?n \<le> ram" using Cons.prems(2) by (auto simp: min_def)
    have "span (desc_buf d) ?n \<subseteq> desc_span d" by (auto simp: desc_span_def span_def)
    then show "T \<inter> span (desc_buf d) ?n = {}" using Cons.prems(2) by auto
  qed
  with Cons show ?case by (simp add: Let_def)
qed simp

lemma fs_answered_frame:
  assumes "fs_req ram q m h" "fs_answered host p q m h d m1" "modifies S m m1" "modifies T m1 m2" "T \<inter> fs_writes q m h = {}"
  shows "fs_answered host p q m h d m2"
proof -
  obtain chain where c: "fs_chain q m h = Some chain" "answer_ok ram q m chain" "cells_ok m 0 ram"
    using assms(1) by (auto simp: fs_req_def chain_req_def split: option.splits)
  have frame: "scattered m2 (answer_descs q m chain) reply" if "scattered m1 (answer_descs q m chain) reply" for reply
    by (rule scattered_frame [OF _ assms(4) that, of ram])
      (use c cells_ok_modifies [OF assms(3)] assms(5) in
        \<open>auto simp: answer_ok_def list_all_iff step_ok_def fs_writes_def answer_area_def answer_descs_def\<close>)
  show ?thesis using assms(2) c(1) frame by (auto simp: fs_answered_def Let_def split: option.splits)
qed

lemma fs_req_stable:
  assumes "fs_req ram q m h" "modifies S m m'" "S \<inter> fs_reads q m h = {}" "same_setup q q'"
  shows "fs_req ram q' m' h \<and> fs_reads q' m' h = fs_reads q m h \<and> fs_writes q' m' h = fs_writes q m h"
    and "fs_outcome host p q' m' h = fs_outcome host p q m h"
    and "fs_answered host p q' m' h d m2 = fs_answered host p q m h d m2"
proof -
  obtain chain where c: "fs_chain q m h = Some chain" "chain_req ram q m h"
    using assms(1) by (auto simp: fs_req_def split: option.splits)
  note stable = chain_req_stable [OF c(2) assms(2-4) c(1)]
  show "fs_req ram q' m' h \<and> fs_reads q' m' h = fs_reads q m h \<and> fs_writes q' m' h = fs_writes q m h"
    and out: "fs_outcome host p q' m' h = fs_outcome host p q m h"
    using assms(1) c(1) stable
    by (auto simp: fs_req_def fs_writes_def fs_outcome_def request_header_def request_body_def fun_eq_iff)
  show "fs_answered host p q' m' h d m2 = fs_answered host p q m h d m2"
    using c(1) stable by (simp add: fs_answered_def out request_header_def cong: option.case_cong)
qed

interpretation fs_requests: footprint_transaction p "fs_request_body host p" "\<lambda>k d. server_ready p host k (fuse_device d)"
    "fs_req ram" fs_reads fs_writes "fs_after host p" "fs_answered host p" "\<lambda>_ _ _ _. 0"
  for host p ram
proof (unfold_locales, goal_cases)
  case (1 q m h S m' q')
  then show ?case by (rule fs_req_stable)
next
  case (2 k d q m h w)
  obtain m' where "fs_request_body host p h (d, q, m, w) =
      Some (fs_after host p q m h d, q\<lparr>last_used_idx := last_used_idx q + 1\<rparr>, m', True)"
      "modifies (used_area q \<union> fs_writes q m h) m m'" "server_ready p host k (fuse_device (fs_after host p q m h d))"
    by (rule fs_serves [OF 2(2-4,1)])
  then show ?case by (auto simp: same_setup_def)
next
  case (3 k d q m h w d' q' m' w')
  obtain m2 where "fs_request_body host p h (d, q, m, w) =
      Some (fs_after host p q m h d, q\<lparr>last_used_idx := last_used_idx q + 1\<rparr>, m2, True)"
    by (rule fs_serves [OF 3(2-4,1)])
  with 3(6) show ?case by simp
next
  case (4 q m h S m' q')
  show ?case by (simp add: fs_after_def fs_req_stable(2) [OF 4] fun_eq_iff)
next
  case (5 k d q m h w d' q' m' w')
  obtain m2 m1 where b: "fs_request_body host p h (d, q, m, w) =
      Some (fs_after host p q m h d, q\<lparr>last_used_idx := last_used_idx q + 1\<rparr>, m2, True)"
      "modifies (fs_writes q m h) m m1" "modifies (used_area q) m1 m2" "fs_answered host p q m h d m1"
      "used_entry q m2 (last_used_idx q) = (ucast h, 0)"
      "\<And>j. fs_writes q m h \<inter> used_area q = {} \<Longrightarrow> j mod q_size q \<noteq> last_used_idx q mod q_size q \<Longrightarrow>
        used_entry q m2 j = used_entry q m j"
    by (rule fs_serves [OF 5(2-4,1), of w]) blast
  have "m' = m2" using b(1) 5(7) by simp
  then show ?case using fs_answered_frame [OF 5(2) b(4,2,3) 5(6)] b(5,6) 5(6) by (simp add: Int_commute)
next
  case (6 q m h d m1 S T m2)
  then show ?case by (rule fs_answered_frame)
next
  case (7 q m h S m' q' d m2)
  show ?case by (simp add: fs_req_stable(3) [OF 7])
qed

section \<open>The high priority queue\<close>

definition forget_effect :: "virtio_queue \<Rightarrow> guest_memory \<Rightarrow> u16 \<Rightarrow> ('h, 'f) fs_virtio \<Rightarrow> ('h, 'f) fs_virtio" where
  "forget_effect q m h d =
     (case fs_chain q m h of None \<Rightarrow> d | Some chain \<Rightarrow>
        let hdr = request_header q m chain
        in if in_opcode hdr = FUSE_FORGET then d\<lparr>fuse_device := forget hdr (fuse_device d)\<rparr> else d)"

lemma hiprio_serves:
  assumes "chain_req ram q m h" "used_ok q m" "q_size q \<noteq> 0"
  obtains m' where "fs_hiprio_body p h (d, q, m, w) = Some (forget_effect q m h d, q\<lparr>last_used_idx := last_used_idx q + 1\<rparr>, m', True)"
    "modifies (used_area q) m m'"
proof -
  obtain chain where c: "fs_chain q m h = Some chain" "wf_mem m" "collect_readable p q m h = Some (request_bytes q m chain)"
    by (rule chain_reqE [OF assms(1), where p = p])
  obtain m' where "push_used p q m h 0 = Some (q\<lparr>last_used_idx := last_used_idx q + 1\<rparr>, m')" "modifies (used_area q) m m'"
    by (rule push_used_after [OF assms(2,3) modifies_refl [OF c(2), of "{}"]])
  moreover obtain body where "new_in_header (request_bytes q m chain) = (request_header q m chain, body)"
    by (metis request_header_def prod.collapse)
  ultimately show thesis
    using c(1,3) by (intro that [of m']) (simp_all add: fs_hiprio_body_def forget_effect_def Let_def)
qed

interpretation fs_hiprio: footprint_effect p "fs_hiprio_body p" "\<lambda>_ _. True" "chain_req ram" fs_reads "\<lambda>_ _ _. {}" forget_effect
  for p ram
proof (unfold_locales, goal_cases)
  case (1 q m h S m' q')
  then show ?case using chain_req_stable(5,6) [OF 1] by (metis chain_reqE)
next
  case (2 k d q m h w)
  obtain m' where "fs_hiprio_body p h (d, q, m, w) =
      Some (forget_effect q m h d, q\<lparr>last_used_idx := last_used_idx q + 1\<rparr>, m', True)" "modifies (used_area q) m m'"
    by (rule hiprio_serves [OF 2(2-4)])
  then show ?case by (auto simp: same_setup_def)
next
  case (3 k d q m h w d' q' m' w')
  obtain m2 where "fs_hiprio_body p h (d, q, m, w) =
      Some (forget_effect q m h d, q\<lparr>last_used_idx := last_used_idx q + 1\<rparr>, m2, True)"
    by (rule hiprio_serves [OF 3(2-4)])
  with 3(6) show ?case by simp
next
  case (4 q m h S m' q')
  obtain chain where c: "fs_chain q m h = Some chain" using 4(1) by (rule chain_reqE)
  have "fs_chain q' m' h = Some chain" "request_header q' m' chain = request_header q m chain"
    using chain_req_stable(1,4) [OF 4(1-4) c] by (simp_all add: request_header_def)
  with c show ?case by (simp add: forget_effect_def fun_eq_iff)
qed

section \<open>Requests in memory\<close>

text \<open>A 128-byte memory: a two-descriptor table at 0, the rings at 32 and 40, a DESTROY request with number 7 at 64 and
  room for its answer at 104. In the second memory the first descriptor links to itself.\<close>

definition fs_demo_block :: "u16 \<Rightarrow> u8 list" where
  "fs_demo_block link =
     le64 64 @ le32 40 @ le16 1 @ le16 link @ le64 104 @ le32 24 @ le16 2 @ le16 0 @
     le16 0 @ le16 1 @ le16 0 @ le16 0 @ replicate 24 0 @
     le32 40 @ le32 FUSE_DESTROY @ le64 7 @ le64 1 @ replicate 16 0 @ replicate 24 0"

definition fs_demo_mem :: "u16 \<Rightarrow> guest_memory" where
  "fs_demo_mem link = [new_region (Some (fs_demo_block link)) 128 0]"

definition fs_demo_queue :: virtio_queue where
  "fs_demo_queue = \<lparr>q_size = 2, q_ready = True, desc_addr = 0, avail_addr = 32, used_addr = 40,
     last_avail_idx = 0, last_used_idx = 0\<rparr>"

lemma fs_demo_wf: "wf_mem (fs_demo_mem link)"
  by (simp add: fs_demo_mem_def new_region_def wf_region_def fs_demo_block_def)

lemma fs_demo_cells: "unat a + n \<le> 128 \<Longrightarrow> cells_ok (fs_demo_mem link) a n"
  unfolding fs_demo_mem_def by (rule cells_ok_single) (simp_all add: new_region_def)

lemma fs_demo_ok:
  "avail_ok fs_demo_queue (fs_demo_mem link)" "used_ok fs_demo_queue (fs_demo_mem link)" "q_size fs_demo_queue \<noteq> 0"
  "desc_ok fs_demo_queue (fs_demo_mem link) 0" "desc_ok fs_demo_queue (fs_demo_mem link) 1"
  by (simp_all add: avail_ok_def used_ok_def desc_ok_def fs_demo_wf fs_demo_cells fs_demo_queue_def avail_bytes_def
      used_bytes_def desc_base_def)

lemma fs_demo_values:
  "pending fs_demo_queue (fs_demo_mem 1) = [0]"
  "desc_at fs_demo_queue (fs_demo_mem 1) 0 = \<lparr>desc_buf = 64, desc_len = 40, desc_flags = 1, desc_next = 1\<rparr>"
  "desc_at fs_demo_queue (fs_demo_mem 1) 1 = \<lparr>desc_buf = 104, desc_len = 24, desc_flags = 2, desc_next = 0\<rparr>"
  "desc_at fs_demo_queue (fs_demo_mem 0) 0 = \<lparr>desc_buf = 64, desc_len = 40, desc_flags = 1, desc_next = 0\<rparr>"
  "desc_at fs_demo_queue (fs_demo_mem 0) 1 = \<lparr>desc_buf = 104, desc_len = 24, desc_flags = 2, desc_next = 0\<rparr>"
  "fs_chain fs_demo_queue (fs_demo_mem 1) 0 = Some [0, 1]"
  by code_simp+

lemma fs_demo_header:
  "in_opcode (request_header fs_demo_queue (fs_demo_mem 1) [0, 1]) = FUSE_DESTROY"
  "in_unique (request_header fs_demo_queue (fs_demo_mem 1) [0, 1]) = 7"
  by code_simp+

lemma fs_demo_areas:
  "avail_area fs_demo_queue = {32..<40}" "used_area fs_demo_queue = {40..<60}"
  "fs_reads fs_demo_queue (fs_demo_mem 1) 0 = {0..<32} \<union> {64..<104}"
  "fs_writes fs_demo_queue (fs_demo_mem 1) 0 = {104..<128}"
  "answer_descs fs_demo_queue (fs_demo_mem 1) [0, 1] = [\<lparr>desc_buf = 104, desc_len = 24, desc_flags = 2, desc_next = 0\<rparr>]"
proof -
  show "avail_area fs_demo_queue = {32..<40}" "used_area fs_demo_queue = {40..<60}"
    by (simp_all add: avail_area_def used_area_def span_def avail_bytes_def used_bytes_def fs_demo_queue_def)
  show "answer_descs fs_demo_queue (fs_demo_mem 1) [0, 1] = [\<lparr>desc_buf = 104, desc_len = 24, desc_flags = 2, desc_next = 0\<rparr>]"
    "fs_writes fs_demo_queue (fs_demo_mem 1) 0 = {104..<128}"
    by (simp_all add: fs_demo_values fs_writes_def writable_def desc_span_def span_def)
  have "desc_area fs_demo_queue 0 = {0..<16}" "desc_area fs_demo_queue 1 = {16..<32}"
    by (simp_all add: desc_area_def desc_base_def span_def fs_demo_queue_def)
  then show "fs_reads fs_demo_queue (fs_demo_mem 1) 0 = {0..<32} \<union> {64..<104}"
    by (auto simp: fs_reads_def fs_demo_values step_reads_def span_def VIRTQ_DESC_F_WRITE_def)
qed

lemma fs_demo_driver:
  "driver_ok (fs_req 128) fs_reads fs_writes fs_demo_queue (fs_demo_mem 1)"
  "answers_apart fs_writes fs_demo_queue (fs_demo_mem 1) (pending fs_demo_queue (fs_demo_mem 1))"
proof -
  have "answer_ok 128 fs_demo_queue (fs_demo_mem 1) [0, 1]"
    by (simp add: answer_ok_def step_ok_def fs_demo_ok fs_demo_values writable_def)
  moreover have "answer_area fs_demo_queue (fs_demo_mem 1) [0, 1] = {104..<128}"
    by (simp add: fs_demo_values writable_def desc_span_def span_def)
  moreover have "desc_area fs_demo_queue 0 = {0..<16}" "desc_area fs_demo_queue 1 = {16..<32}"
    by (simp_all add: desc_area_def desc_base_def span_def fs_demo_queue_def)
  moreover have "body_ok FUSE_DESTROY body" for body by (simp add: body_ok_def fuse_opcodes)
  ultimately have "fs_req 128 fs_demo_queue (fs_demo_mem 1) 0"
    by (auto simp: fs_req_def chain_req_def fs_demo_wf fs_demo_cells fs_demo_values fs_demo_header)
  then show "driver_ok (fs_req 128) fs_reads fs_writes fs_demo_queue (fs_demo_mem 1)"
    by (auto simp: driver_ok_def fs_demo_ok fs_demo_values footprints_ok_def fs_demo_areas)
  show "answers_apart fs_writes fs_demo_queue (fs_demo_mem 1) (pending fs_demo_queue (fs_demo_mem 1))"
    by (auto simp: answers_apart_def fs_demo_values fs_demo_areas)
qed

lemma below_two: "i < 2 \<longleftrightarrow> i = 0 \<or> i = 1" for i :: u16
proof
  assume "i < 2"
  then have "unat i < 2" by (simp add: word_less_nat_alt)
  then have "unat i = 0 \<or> unat i = 1" by linarith
  then show "i = 0 \<or> i = 1" by (simp only: word_unat_eq_iff unat_0 unat_1)
qed auto

lemma fs_demo_walk: "walk_ok 128 fs_demo_queue (fs_demo_mem 0) (\<lambda>i. i < q_size fs_demo_queue)"
proof -
  have "i < q_size fs_demo_queue \<longleftrightarrow> i = 0 \<or> i = 1" for i
    by (simp add: fs_demo_queue_def below_two)
  then show ?thesis
    by (auto simp: walk_ok_def fs_demo_wf fs_demo_cells step_ok_def fs_demo_ok fs_demo_values)
qed

section \<open>Properties\<close>

text \<open>C11: A tick of the request queue of the file system device, in either build, serves every pending request once and in
  order: the server goes through the dispatch of each, from the state the one before it left, the used ring gets the
  heads in order with length 0, and the writable descriptors of each request hold as much as fits of the reply made from
  the result of its dispatch, with the number of the request, its own length and 0 or a negated error number. The
  queue is empty afterwards and no guest memory but the used ring and these descriptors is touched. The driver has to
  keep to the contract of the queue, with no more requests than slots, chains that end, bodies at least as long as the
  fixed part of their request and answers that do not overlap; in a development build file sizes are below
  2^63, names have at most 255 bytes and the counters of nodes and handles have room for the requests.\<close>

theorem fs_tick_answers_all:
  assumes "fs_guest_memory d" "driver_ok (fs_req ram) fs_reads fs_writes q m" "answers_apart fs_writes q m (pending q m)"
    and "unat (q_size q) dvd 2 ^ 16" "length (pending q m) \<le> unat (q_size q)"
    and "server_ready p host (length (pending q m)) (fuse_device d)"
  shows "\<exists>q' m' w. fs_tick host p d 1 q m = Some (fold (fs_after host p q m) (pending q m) d, q', m', w) \<and> pending q' m' = [] \<and>
    last_used_idx q' = last_used_idx q + of_nat (length (pending q m)) \<and>
    (\<forall>i < length (pending q m).
       used_entry q m' (last_used_idx q + of_nat i) = (ucast (pending q m ! i), 0) \<and>
       fs_answered host p q m (pending q m ! i) (fold (fs_after host p q m) (take i (pending q m)) d) m') \<and>
    modifies (used_area q \<union> (\<Union>h \<in> set (pending q m). fs_writes q m h)) m m'"
proof -
  have ready: "server_ready p host (pending_count q m) (fuse_device d)" "pending_count q m \<le> unat (q_size q)"
    using assms(5,6) by simp_all
  obtain d' q' m' w where r: "while_pop (2 ^ 16) p (fs_request_body host p) (d, q, m, False) = Some (d', q', m', w)"
      "pending q' m' = []" "last_used_idx q' = last_used_idx q + of_nat (length (pending q m))"
    using fs_requests.while_pop_enough_fuel [OF conjI [OF ready(1) assms(2)], of False] by auto
  from fs_requests.while_pop_transacts [OF ready(1) assms(2,3,4) ready(2) pending_count_less r(1)]
    fs_requests.while_pop_confined [OF ready(1) assms(2) pending_count_less r(1)] r assms(1)
  show ?thesis by (simp add: fs_tick_def)
qed

text \<open>A DESTROY request, in a development build.\<close>

theorem fs_tick_answers_all_witness:
  "\<exists>d' q' m' w. fs_tick small_host Dev ((new_fs [] (new_shared_folder [slash]) ())\<lparr>fs_guest_memory := True\<rparr>) 1
       fs_demo_queue (fs_demo_mem 1) = Some (d', q', m', w) \<and>
     pending q' m' = [] \<and> used_entry fs_demo_queue m' 0 = (0, 0) \<and> bytes_at m' 104 16 = le32 16 @ le32 0 @ le64 7"
proof -
  let ?d = "(new_fs [] (new_shared_folder [slash]) ())\<lparr>fs_guest_memory := True\<rparr> :: (unit, unit) fs_virtio"
  have size: "unat (q_size fs_demo_queue) = 2" by (simp add: fs_demo_queue_def)
  have sizes: "host_sizes small_host" by (auto simp: host_sizes_def small_host_def small_meta_def small_entry_def)
  have room: "server_ready Dev small_host (length (pending fs_demo_queue (fs_demo_mem 1))) (fuse_device ?d)"
    by (simp add: server_ready_def sizes sf_room_def fs_demo_values new_fs_def new_shared_folder_def FUSE_ROOT_ID_def)
  have fits: "unat (q_size fs_demo_queue) dvd 2 ^ 16"
    "length (pending fs_demo_queue (fs_demo_mem 1)) \<le> unat (q_size fs_demo_queue)"
    by (simp_all add: size fs_demo_values)
  have reply: "bytes_at m' 104 16 = le32 16 @ le32 0 @ le64 7" if "fs_answered small_host Dev fs_demo_queue (fs_demo_mem 1) 0 ?d m'" for m'
  proof -
    obtain sf' h' where "fs_outcome small_host Dev fs_demo_queue (fs_demo_mem 1) 0 ?d = Some (Inr [], sf', h')"
      using fs_demo_header(1) by (simp add: fs_outcome_def fs_demo_values dispatch_def fuse_opcodes destroy_def Let_def)
    with that show ?thesis
      by (simp add: fs_answered_def writable_def fs_demo_values fs_demo_header fuse_reply_def out_header_to_bytes_def
          out_header_length_def Let_def)
  qed
  have "fs_guest_memory ?d" by simp
  from fs_tick_answers_all [OF this fs_demo_driver fits room] obtain q' m' w where
    "fs_tick small_host Dev ?d 1 fs_demo_queue (fs_demo_mem 1) =
       Some (fold (fs_after small_host Dev fs_demo_queue (fs_demo_mem 1)) [0] ?d, q', m', w)" "pending q' m' = []"
    "used_entry fs_demo_queue m' (last_used_idx fs_demo_queue) = (0, 0)"
    "fs_answered small_host Dev fs_demo_queue (fs_demo_mem 1) 0 ?d m'"
    unfolding fs_demo_values(1) by auto
  with reply show ?thesis by (auto simp: fs_demo_queue_def simp del: bytes_at.simps)
qed

text \<open>C15: Collecting a request returns exactly when the walk along the chain meets a descriptor that is for writing or
  has no successor: then the result is the contents of the readable descriptors up to it, in order, that without a
  successor included. The table and the buffers lie in guest memory. A chain of
  readable descriptors that runs in a circle keeps the device busy forever, although every single access
  succeeds.\<close>

theorem collect_returns_iff_chain_ends:
  assumes "walk_ok ram q m (\<lambda>i. i < q_size q)" "head < q_size q"
  shows "(readable_run n q m head = Some run \<longrightarrow>
      collect_readable p q m head = Some (concat (map (buffer_of q m) run))) \<and>
    ((\<exists>bytes. collect_readable p q m head = Some bytes) \<longleftrightarrow> (\<exists>n. readable_run n q m head \<noteq> None))"
proof -
  have "get_descriptor p q m head = Some (desc_at q m head)"
    using assms by (intro get_descriptor_spec) (simp add: walk_ok_def step_ok_def)
  then have c: "collect_readable p q m head = collect_loop p q m (desc_at q m head) []" by (simp add: collect_readable_def)
  have run: "readable_run n q m head = Some run \<Longrightarrow> collect_readable p q m head = Some (concat (map (buffer_of q m) run))" for n run
    using collect_loop_run [OF assms, of n run p "[]"] c by simp
  moreover have "\<exists>n. readable_run n q m head \<noteq> None" if "collect_readable p q m head = Some bytes" for bytes
    using collect_loop_returns [OF assms, of p "[]" bytes] that c by simp
  ultimately show ?thesis by blast
qed

theorem collect_returns_iff_chain_ends_witness: "collect_readable Dev fs_demo_queue (fs_demo_mem 0) 0 = None"
proof -
  have "readable_run n fs_demo_queue (fs_demo_mem 0) 0 = None" for n
    by (induction n) (simp_all add: fs_demo_values Let_def)
  moreover have "0 < q_size fs_demo_queue" by (simp add: fs_demo_queue_def)
  ultimately show ?thesis
    using collect_returns_iff_chain_ends [OF fs_demo_walk, of 0 _ _ Dev] by (metis not_Some_eq)
qed

text \<open>A tick of the high priority queue forgets the nodes of its FORGET requests and changes nothing else of the
  server; it answers nothing, so only the used ring is written.\<close>

lemma fs_hiprio_forgets:
  assumes "fs_guest_memory d" "driver_ok (chain_req ram) fs_reads (\<lambda>_ _ _. {}) q m"
  shows "\<exists>q' m' w. fs_tick host p d 0 q m = Some (fold (forget_effect q m) (pending q m) d, q', m', w) \<and>
    pending q' m' = [] \<and> modifies (used_area q) m m'"
proof -
  obtain d' q' m' w where r: "while_pop (2 ^ 16) p (fs_hiprio_body p) (d, q, m, False) = Some (d', q', m', w)" "pending q' m' = []"
    using fs_hiprio.while_pop_enough_fuel [where ram = ram and d = d and q = q and m = m and p = p and w = False] assms(2) by auto
  show ?thesis
    using r assms(1) fs_hiprio.while_pop_effects [OF TrueI assms(2) pending_count_less r(1)]
      fs_hiprio.while_pop_confined [OF TrueI assms(2) pending_count_less r(1)]
    by (simp add: fs_tick_def)
qed

end
