(* ===== verification/Spec2Isabelle.thy ===== *)
theory Spec2Isabelle
  imports Machine_Irqs Main_Program Threads Build_Script Virtio_System Virtio_Net Gpu_Queue Fs_Queue Vcpu
begin

text \<open>
  FerrumVM is a virtual machine monitor on KVM. A guest runs on virtual processors; every access to a
  port or to an address without RAM leaves KVM and is handled in user space by a device model; a tick
  thread drives the devices and delivers interrupts. This development models the core of the program
  (Rust, under \<^verbatim>\<open>src/src/\<close>) in HOL and proves what makes each part correct.

  \<^bold>\<open>Parts and theories.\<close> Each theory is named with the source files it models.

  \<^item> \<^verbatim>\<open>Ferrum_Prelude\<close>: Rust's fixed-width integers as words and \<^verbatim>\<open>usize\<close> as a natural number, the
    checked arithmetic of a development build (\<^verbatim>\<open>add_chk\<close> and so on, with the build profile as an
    argument), indexing and slicing that panic out of range, little-endian bytes.
  \<^item> \<^verbatim>\<open>Guest_Memory\<close>: \<^verbatim>\<open>machine_config/memory_region.rs\<close> and the accessors of \<^verbatim>\<open>devices/virtio/virtio.rs\<close>.
    Guest RAM is a list of regions, each backed by a block of bytes. \<^verbatim>\<open>bytes_at\<close>, \<^verbatim>\<open>backed\<close>, \<^verbatim>\<open>modifies\<close> are
    the specification that all later frame conditions use; the locale \<^verbatim>\<open>byte_store\<close> is the interface.
  \<^item> \<^verbatim>\<open>Virtqueue\<close>: the split virtqueue of \<^verbatim>\<open>virtio.rs\<close> in guest memory, with the list of pending
    heads as its abstraction, and the two loops that devices consume it with. The locale
    \<^verbatim>\<open>pop_handler\<close> is what such a loop needs of its body: it then drains the queue.
  \<^item> \<^verbatim>\<open>Virtio_Device\<close>: the \<^verbatim>\<open>VirtioDevice\<close> trait as a table of functions, its laws as the locales
    \<^verbatim>\<open>virtio_device\<close> and \<^verbatim>\<open>virtio_device_config\<close>, and requests with footprints (\<^verbatim>\<open>footprint_handler\<close>,
    \<^verbatim>\<open>footprint_service\<close>, \<^verbatim>\<open>footprint_effect\<close>): what a request may read and write in guest memory, from which confinement and
    \<^emph>\<open>every request is answered\<close> follow for whole ticks. For devices whose answer depends on their state,
    \<^verbatim>\<open>footprint_transaction\<close> gives more: a tick is the run of the transactions of the pending requests, in order and once
    each, with their used-ring entries. The block device and the file system interpret it.
  \<^item> \<^verbatim>\<open>Virtio_Simple\<close>, \<^verbatim>\<open>Virtio_Blk\<close>, \<^verbatim>\<open>Virtio_Net\<close>: \<^verbatim>\<open>counter.rs\<close>, \<^verbatim>\<open>rng.rs\<close>, \<^verbatim>\<open>console.rs\<close>, \<^verbatim>\<open>blk.rs\<close>, \<^verbatim>\<open>net.rs\<close>; each
    interprets the device locales, and all but the console the request locales.
  \<^item> \<^verbatim>\<open>Display\<close>, \<^verbatim>\<open>Gpu_Protocol\<close>, \<^verbatim>\<open>Gpu_Resource\<close>, \<^verbatim>\<open>Virtio_Gpu\<close>: \<^verbatim>\<open>platform/display.rs\<close>, \<^verbatim>\<open>platform/sdl/context.rs\<close>
    and \<^verbatim>\<open>gpu.rs\<close>. \<^verbatim>\<open>Gpu_Frames\<close> follows a frame from guest pages to the window and bounds the state that a guest can
    build up; \<^verbatim>\<open>Gpu_Queue\<close> shows that the control queue answers every request.
  \<^item> \<^verbatim>\<open>Host_Fs\<close>, \<^verbatim>\<open>Fuse_Protocol\<close>, \<^verbatim>\<open>Shared_Folder\<close>: paths, UTF-8 and the calls of \<^verbatim>\<open>std::fs\<close>, and the file server of
    \<^verbatim>\<open>platform/shared_folder/\<close> with one definition per FUSE operation. \<^verbatim>\<open>Fuse_Tables\<close> shows that numbers are handed out
    fresh, \<^verbatim>\<open>Fuse_Paths\<close> which host paths a session can touch, \<^verbatim>\<open>Fuse_Dirs\<close> what a directory listing contains,
    \<^verbatim>\<open>Fuse_Answers\<close> that every request with a long enough body has a result, in a release build always and in a development
    build as long as file sizes, names and the server's counters stay in range.
  \<^item> \<^verbatim>\<open>Virtio_Fs\<close>, \<^verbatim>\<open>Fs_Walks\<close>, \<^verbatim>\<open>Fs_Queue\<close>: \<^verbatim>\<open>fs.rs\<close>, its walks along descriptor chains and its two queues.
  \<^item> \<^verbatim>\<open>Virtio_Mmio\<close>, \<^verbatim>\<open>Virtio_System\<close>: \<^verbatim>\<open>transports/mmio.rs\<close>, the register file and interrupt side, with a
    step relation of the transport among guest, tick thread and other devices.
  \<^item> \<^verbatim>\<open>Irq\<close>, \<^verbatim>\<open>Device_Maps\<close>, \<^verbatim>\<open>Host_Env\<close>: \<^verbatim>\<open>irq/\<close>, \<^verbatim>\<open>device_maps/\<close>, and what port devices see of the host.
  \<^item> \<^verbatim>\<open>Cmos\<close>, \<^verbatim>\<open>Serial\<close>, \<^verbatim>\<open>Pit\<close>: the port devices of \<^verbatim>\<open>devices/\<close>. A serial port is followed through the commands that it
    queues itself, since three of them share line 4. The pulses of the timer are counted with the rounding of IEEE 754 binary64
    arithmetic.
  \<^item> \<^verbatim>\<open>Acpi\<close>, \<^verbatim>\<open>Machine_Config\<close>, \<^verbatim>\<open>Vm_Builder\<close>, \<^verbatim>\<open>Vcpu\<close>: \<^verbatim>\<open>machine_config/\<close>, \<^verbatim>\<open>vm/builder.rs\<close>, \<^verbatim>\<open>vcpu.rs\<close>.
  \<^item> \<^verbatim>\<open>Host_Setup\<close>: the start of \<^verbatim>\<open>main.rs\<close>: \<^verbatim>\<open>TAPDevice::new\<close>, \<^verbatim>\<open>firewall.rs\<close>, \<^verbatim>\<open>FerrumSDLContext::new\<close> and \<^verbatim>\<open>sdl/error.rs\<close>, as a
    sequence of actions that the host accepts or refuses; which refusals end the program, and with which error. The
    PCI stubs of \<^verbatim>\<open>pci/\<close>.
  \<^item> \<^verbatim>\<open>Machine\<close>: \<^verbatim>\<open>vm/run.rs\<close>, \<^verbatim>\<open>vm/tick.rs\<close> and the device tables of \<^verbatim>\<open>main.rs\<close> with all eleven devices. A step relation has
    processor exits, the parts of tick rounds, window events and the rest of the world in any order. \<^verbatim>\<open>Machine_Irqs\<close> shows for
    it, over runs with their history, that interrupts are delivered in order and that the lines of the virtio devices follow their
    status.
    \<^verbatim>\<open>Main_Program\<close> is all of \<^verbatim>\<open>main\<close>, up to the machine and the first instruction of the firmware.
  \<^item> \<^verbatim>\<open>Mutexes\<close>, \<^verbatim>\<open>Threads\<close>: the threads of \<^verbatim>\<open>run.rs\<close>, \<^verbatim>\<open>tick.rs\<close> and \<^verbatim>\<open>serial.rs\<close> as sequences of mutex operations with
    poisoning; no deadlock, and what a panic does to the others. The locale \<^verbatim>\<open>lock_discipline\<close> is the interface.
  \<^item> \<^verbatim>\<open>Build_Script\<close>: \<^verbatim>\<open>build.rs\<close>, the commands it runs and their order.

  \<^bold>\<open>Conventions.\<close> A panic is \<^const>\<open>None\<close>. A device that the source holds as \<^verbatim>\<open>Box<dyn Trait>\<close> is a state with
  a table of functions. State that Rust shares behind a mutex (guest memory, the interrupt queue) is
  passed to and returned by the operations that lock it.

  \<^bold>\<open>Bounds and fuel.\<close> The loops that empty a queue run with fuel \<open>2 ^ 16\<close>: the ring index has 16 bits and
  a tick does not see the guest move it, so no more heads can be pending, and the drain theorems show
  that the loop ends before. The walks of the file system device along a chain have no bound in the source and
  are partial functions here; they return exactly when the chain ends. The catch-up loop of the timer takes fuel as an argument, and its theorem
  asks for four times the number of periods, which is enough whatever the rounding.

  \<^bold>\<open>Parameters.\<close> Code that is not in the repository is an argument: the random source, the disk file's
  errors, the host network and file system, SDL, the build tools, the host clock, floating point (a table of operations, assumed to round as \<^verbatim>\<open>f64_arith\<close> says where values matter), what KVM and \<^verbatim>\<open>mmap\<close>
  answer, the content of firmware files. Each such assumption has an instance.

  \<^bold>\<open>Interleaving.\<close> A step of the machine is what a thread does under the mutex of one device map, taken as a whole. The two maps
  have a mutex each, so such steps of the two kinds can overlap in the program; they share the interrupt queue and guest memory, which
  have mutexes of their own and are locked for one access at a time. The state of the tick thread has the calls of
  \<^verbatim>\<open>set_irq_line\<close> that it has made, whatever KVM answered; an error is printed and ignored in the source. In \<^verbatim>\<open>Machine\<close> a panic ends the run; what it does to the
  other threads is the subject of \<^verbatim>\<open>Threads\<close>, which leaves out the data.

  \<^bold>\<open>Not modelled.\<close> Printing and raw terminal mode, the semantics of the firewall rules, of SDL and of the build tools, \<^verbatim>\<open>set_display\<close> (the window is that of the GPU).
\<close>

section \<open>Properties that span components\<close>

text \<open>The memory that the firmware is told to use is RAM to KVM.\<close>

text \<open>C29: Every address that the injected memory map offers as usable lies in a KVM slot, at the matching
  byte of the backing block, and no slot covers the pages of the two interrupt controllers. The RAM ends above the local
  APIC page and not above the MMIO window, as the 4 GiB of the main program do, and KVM accepts the slots.\<close>

theorem usable_memory_is_backed:
  assumes "mmap host sz = Some hva" "\<forall>xs sl. kvm_ok host xs sl"
    and "0xFEE01000 < sz" "sz \<le> 0x400000000" "unat hva + sz < 2 ^ 64"
  shows "\<exists>vm. new_mem host p sz 0 \<lparr>vm_regions = [], vm_slots = []\<rparr> = Some vm \<and>
    (\<forall>a \<in> usable (memmap_entries (of_nat sz)). \<exists>sl \<in> set (vm_slots vm). a \<in> slot_set sl \<and>
      userspace_addr sl + (a - guest_phys_addr sl) = hva + a) \<and>
    (\<forall>sl \<in> set (vm_slots vm). slot_set sl \<inter> ({0xFEC00000..<0xFEC01000} \<union> {0xFEE00000..<0xFEE01000}) = {})"
proof -
  let ?r = "of_nat sz :: u64" and ?segs = "carve_segments 0 (of_nat sz)"
  let ?slots = "map (slot_of hva 0) (enumerate 0 ?segs)"
  have z: "0 < sz" "unat (0 :: u64) + sz < 2 ^ 64" using assms(3,4) by simp_all
  note n = new_mem_spec(1) [OF assms(1,2) z assms(5), where p = p and vm = "\<lparr>vm_regions = [], vm_slots = []\<rparr>", simplified]
    new_mem_spec(2) [OF assms(1,2) z assms(5), simplified]
  have u: "unat ?r = sz" using assms(4) by (simp add: unat_of_nat_less)
  have cov: "(\<Union>sl \<in> set ?slots. slot_set sl) = {0..<?r} - {0xFEC00000..<0xFEC01000} - {0xFEE00000..<0xFEE01000}"
    by (rule carved_slots_cover) (use n(2) in simp)
  have sub: "usable (memmap_entries ?r) \<subseteq> {0..<?r} - {0xFEC00000..<0xFEC01000} - {0xFEE00000..<0xFEE01000}"
    unfolding usable_memmap using assms(3) u by (auto simp: word_less_nat_alt word_le_nat_alt)
  have tr: "userspace_addr sl + (a - guest_phys_addr sl) = hva + a" if "sl \<in> set ?slots" for sl a
    using that by (auto simp: slot_of_def)
  have "\<forall>a \<in> usable (memmap_entries ?r). \<exists>sl \<in> set ?slots. a \<in> slot_set sl \<and>
      userspace_addr sl + (a - guest_phys_addr sl) = hva + a"
    using cov sub tr by blast
  moreover have "\<forall>sl \<in> set ?slots. slot_set sl \<inter> ({0xFEC00000..<0xFEC01000} \<union> {0xFEE00000..<0xFEE01000}) = {}"
    using cov by blast
  ultimately show ?thesis using n(1) by (metis vm_mem.select_convs(2))
qed

theorem usable_memory_is_backed_witness:
  "\<exists>vm. new_mem good_host Dev GiB4 0 \<lparr>vm_regions = [], vm_slots = []\<rparr> = Some vm \<and>
    (\<forall>a \<in> usable (memmap_entries 0x100000000). \<exists>sl \<in> set (vm_slots vm). a \<in> slot_set sl)"
  using usable_memory_is_backed [of good_host GiB4 "0x10000" Dev] by (fastforce simp: good_host_def)

end
